(* ===== verification/Prelude.thy ===== *)
theory Prelude
  imports Main "HOL-Library.Word"
begin

text \<open>
  Shared vocabulary of the development: the widths of the C++ integer types on the
  target (64-bit Windows, where \<open>unsigned long\<close>, \<open>DWORD\<close> and \<open>ULONG\<close> have 32 bits),
  the ways an operation can end other than by returning, and the generic facts on words
  and lists that several components use.
\<close>

type_synonym u8 = "8 word"
type_synonym u16 = "16 word"
type_synonym u32 = "32 word"
type_synonym u64 = "64 word"

text \<open>
  How a call leaves the normal path: an exception (with the class the code catches by),
  a call of \<open>exit\<close>, one of the \<open>utilities::ErrorExit\<close> calls (which end in \<open>exit(0)\<close>), an
  operation whose result the C++ standard leaves undefined, or a loop that does not end.
\<close>

datatype std_exception =
    invalid_argument string
  | out_of_range string
  | runtime_error string

datatype abort =
    Throw std_exception
  | Exit int
  | ErrorExit string
  | Undefined string
  | NoReturn

type_synonym 'a result = "abort + 'a"

definition bind_res :: "'a result \<Rightarrow> ('a \<Rightarrow> 'b result) \<Rightarrow> 'b result" where
  "bind_res r f = (case r of Inl e \<Rightarrow> Inl e | Inr x \<Rightarrow> f x)"

named_theorems res_simps "unfolding of the result plumbing"

lemma bind_res_simps [simp, res_simps]:
  "bind_res (Inl e) f = Inl e"
  "bind_res (Inr x) f = f x"
  by (simp_all add: bind_res_def)

lemma bind_res_eq_Inr [res_simps]:
  "bind_res r f = Inr y \<longleftrightarrow> (\<exists>x. r = Inr x \<and> f x = Inr y)"
  by (cases r) simp_all

definition returned :: "'a option \<Rightarrow> 'a result" where
  "returned x = (case x of None \<Rightarrow> Inl NoReturn | Some v \<Rightarrow> Inr v)"

lemma returned_Some [simp, res_simps]: "returned (Some v) = Inr v"
  by (simp add: returned_def)

section \<open>Words\<close>

named_theorems word_nat "reading word operations as natural numbers"

lemma unat_plus_one [word_nat]:
  fixes x :: "'a::len word"
  assumes "Suc (unat x) < 2 ^ LENGTH('a)"
  shows "unat (x + 1) = Suc (unat x)"
proof -
  have "unat (x + 1) = (unat x + unat (1 :: 'a word)) mod 2 ^ LENGTH('a)"
    by (rule unat_word_ariths)
  with assms show ?thesis by simp
qed

lemma unat_diff_le [word_nat]:
  fixes x y :: "'a::len word"
  shows "y \<le> x \<Longrightarrow> unat (x - y) = unat x - unat y"
  by (simp add: unat_sub)

lemma unat_add_less [word_nat]:
  fixes x y :: "'a::len word"
  assumes "unat x + unat y < 2 ^ LENGTH('a)"
  shows "unat (x + y) = unat x + unat y"
  using assms by (simp add: unat_add_lem)

lemma unat_of_nat_less [word_nat]:
  "n < 2 ^ LENGTH('a) \<Longrightarrow> unat (of_nat n :: 'a::len word) = n"
  by (simp add: unat_of_nat take_bit_nat_eq_self)

lemma unat_ucast_less [word_nat]:
  "unat x < 2 ^ LENGTH('b) \<Longrightarrow> unat (ucast (x :: 'a::len word) :: 'b::len word) = unat x"
  by (simp add: unsigned_ucast_eq take_bit_nat_eq_self)

lemma unat_mult_less [word_nat]:
  fixes x y :: "'a::len word"
  assumes "unat x * unat y < 2 ^ LENGTH('a)"
  shows "unat (x * y) = unat x * unat y"
  using assms by (simp add: unat_word_ariths)

lemmas unat_div_mod = unat_div_distrib unat_mod_distrib

lemma word_eq_unat: "(x :: 'a::len word) = y \<longleftrightarrow> unat x = unat y"
  by (simp add: word_unat_eq_iff)

lemma unat_cancel: "unat (x :: 'a::len word) = unat y \<longleftrightarrow> x = y"
  by (simp add: word_eq_unat)

lemma unat_below: "unat (x :: 'a::len word) < 2 ^ LENGTH('a)"
  by (rule unsigned_less)

lemma unat_not_max:
  fixes x :: "'a::len word"
  assumes "x \<noteq> - 1"
  shows "Suc (unat x) < 2 ^ LENGTH('a)"
proof -
  have "unat (- 1 :: 'a word) = 2 ^ LENGTH('a) - 1"
    by (simp add: unsigned_minus_1_eq_mask mask_eq_exp_minus_1)
  then have "unat x \<noteq> 2 ^ LENGTH('a) - 1"
    using assms unat_cancel [of x "- 1"] by simp
  then show ?thesis using unat_below [of x] by linarith
qed

lemmas word_to_nat = word_le_nat_alt word_less_nat_alt word_eq_unat

section \<open>Lists\<close>

lemma sum_list_map_add:
  fixes f g :: "'a \<Rightarrow> 'b::comm_monoid_add"
  shows "sum_list (map (\<lambda>x. f x + g x) xs) = sum_list (map f xs) + sum_list (map g xs)"
  by (induction xs) (simp_all add: algebra_simps)

lemma fold_snoc: "fold f (xs @ [x]) s = f x (fold f xs s)"
  by simp

text \<open>Joining the pieces of a split string with the separator between them.\<close>

fun intercalate :: "'a list \<Rightarrow> 'a list list \<Rightarrow> 'a list" where
  "intercalate sep [] = []"
| "intercalate sep [x] = x"
| "intercalate sep (x # y # zs) = x @ sep @ intercalate sep (y # zs)"

lemma intercalate_Cons:
  "intercalate sep (x # xs) = (if xs = [] then x else x @ sep @ intercalate sep xs)"
  by (cases xs) simp_all

end
