(* ===== verification/Cpp_Std.thy ===== *)
theory Cpp_Std
  imports Prelude
begin

text \<open>
  What the program uses of the C++ standard library: decimal printing
  (\<open>std::to_string\<close>, \<open>operator<<\<close> on unsigned values), \<open>std::stoi\<close>, \<open>std::string::find\<close>,
  and \<open>std::map\<close> as a list of entries in key order with the operations \<open>insert\<close> (which
  never overwrites) and \<open>operator[]\<close> (which inserts a default value first). The locale
  \<open>ordered_map\<close> states what the components rely on; it is interpreted on the list model
  at the end.
\<close>

section \<open>Signed division\<close>

text \<open>Division of signed integers truncates towards zero.\<close>

definition trunc_div :: "int \<Rightarrow> int \<Rightarrow> int" where
  "trunc_div a b = sgn a * sgn b * (\<bar>a\<bar> div \<bar>b\<bar>)"

section \<open>Decimal numbers\<close>

definition digit_char :: "nat \<Rightarrow> char" where
  "digit_char d = char_of (48 + d)"

definition is_digit :: "char \<Rightarrow> bool" where
  "is_digit c \<longleftrightarrow> 48 \<le> (of_char c :: nat) \<and> (of_char c :: nat) \<le> 57"

definition digit_val :: "char \<Rightarrow> nat" where
  "digit_val c = of_char c - 48"

fun dec_of_nat :: "nat \<Rightarrow> string" where
  "dec_of_nat n =
     (if n < 10 then [digit_char n] else dec_of_nat (n div 10) @ [digit_char (n mod 10)])"

declare dec_of_nat.simps [simp del]

definition nat_of_digits :: "string \<Rightarrow> nat" where
  "nat_of_digits ds = foldl (\<lambda>v c. 10 * v + digit_val c) 0 ds"

text \<open>\<open>isspace\<close> in the "C" locale.\<close>

definition is_space :: "char \<Rightarrow> bool" where
  "is_space c \<longleftrightarrow> (of_char c :: nat) = 32 \<or> 9 \<le> (of_char c :: nat) \<and> (of_char c :: nat) \<le> 13"

text \<open>
  \<open>std::stoi\<close>: skip white space, read an optional sign and the longest run of digits;
  no digit is \<open>std::invalid_argument\<close>, a value outside \<open>int\<close> is \<open>std::out_of_range\<close>; what
  follows the digits is ignored.
\<close>

definition split_sign :: "string \<Rightarrow> bool \<times> string" where
  "split_sign s =
     (case s of
        [] \<Rightarrow> (False, s)
      | c # r \<Rightarrow> if c = CHR ''-'' then (True, r) else if c = CHR ''+'' then (False, r) else (False, s))"

definition stoi :: "string \<Rightarrow> std_exception + int" where
  "stoi s =
     (let (neg, u) = split_sign (dropWhile is_space s);
          ds = takeWhile is_digit u;
          v = (if neg then - int (nat_of_digits ds) else int (nat_of_digits ds))
      in if ds = [] then Inl (invalid_argument ''invalid stoi argument'')
         else if v < - (2 ^ 31) \<or> 2 ^ 31 \<le> v then Inl (out_of_range ''stoi argument out of range'')
         else Inr v)"

lemma digit_chars:
  "digit_char 0 = CHR ''0''" "digit_char 1 = CHR ''1''" "digit_char 2 = CHR ''2''"
  "digit_char 3 = CHR ''3''" "digit_char 4 = CHR ''4''" "digit_char 5 = CHR ''5''"
  "digit_char 6 = CHR ''6''" "digit_char 7 = CHR ''7''" "digit_char 8 = CHR ''8''"
  "digit_char 9 = CHR ''9''" "digit_char (Suc 0) = CHR ''1''"
  by code_simp+

lemmas dec_eval = dec_of_nat.simps digit_chars

lemma of_char_digit [simp]: "d < 10 \<Longrightarrow> (of_char (digit_char d) :: nat) = 48 + d"
  by (simp add: digit_char_def)

lemma digit_char_props [simp]:
  assumes "d < 10"
  shows "is_digit (digit_char d)" and "digit_val (digit_char d) = d"
    and "\<not> is_space (digit_char d)"
  using assms by (simp_all add: is_digit_def digit_val_def is_space_def)

lemma is_digit_not:
  "is_digit c \<Longrightarrow> c \<noteq> CHR ''-''" "is_digit c \<Longrightarrow> c \<noteq> CHR ''+''"
  "is_digit c \<Longrightarrow> c \<noteq> CHR ''.''" "is_digit c \<Longrightarrow> c \<noteq> CHR '',''"
  "is_digit c \<Longrightarrow> \<not> is_space c" "is_digit c \<Longrightarrow> c \<noteq> CHR 0x00"
  by (auto simp: is_digit_def is_space_def)

lemma dec_of_nat_digits: "\<forall>c \<in> set (dec_of_nat n). is_digit c"
proof (induction n rule: dec_of_nat.induct)
  case (1 n)
  then show ?case by (subst dec_of_nat.simps) auto
qed

lemma dec_of_nat_nonempty [simp]: "dec_of_nat n \<noteq> []"
  by (subst dec_of_nat.simps) simp

lemma nat_of_digits_snoc [simp]: "nat_of_digits (ds @ [c]) = 10 * nat_of_digits ds + digit_val c"
  by (simp add: nat_of_digits_def)

lemma nat_of_dec [simp]: "nat_of_digits (dec_of_nat n) = n"
proof (induction n rule: dec_of_nat.induct)
  case (1 n)
  show ?case
  proof (cases "n < 10")
    case True
    then show ?thesis by (subst dec_of_nat.simps) (simp add: nat_of_digits_def)
  next
    case False
    with 1 show ?thesis by (subst dec_of_nat.simps) simp
  qed
qed

lemma dec_of_nat_inj: "dec_of_nat m = dec_of_nat n \<longleftrightarrow> m = n"
  by (metis nat_of_dec)

definition dec_of_int :: "int \<Rightarrow> string" where
  "dec_of_int v = (if v < 0 then CHR ''-'' # dec_of_nat (nat (- v)) else dec_of_nat (nat v))"

lemma dec_of_nat_no_char: "\<not> is_digit c \<Longrightarrow> c \<notin> set (dec_of_nat n)"
  using dec_of_nat_digits by blast

lemma dec_of_int_inj: "dec_of_int i = dec_of_int j \<longleftrightarrow> i = j"
proof -
  have minus: "dec_of_nat n \<noteq> CHR ''-'' # t" for n t
    using dec_of_nat_no_char [of "CHR ''-''" n] by (auto simp: is_digit_def)
  show ?thesis
    using minus [of "nat i"] minus [of "nat j"]
    by (auto simp: dec_of_int_def dec_of_nat_inj dest: sym)
qed

lemma takeWhile_digits_dec [simp]: "takeWhile is_digit (dec_of_nat n) = dec_of_nat n"
  by (simp add: dec_of_nat_digits)

lemma dec_of_nat_no_prefix [simp]:
  "dropWhile is_space (dec_of_nat n) = dec_of_nat n"
  "split_sign (dec_of_nat n) = (False, dec_of_nat n)"
proof -
  obtain c r where cr: "dec_of_nat n = c # r"
    by (cases "dec_of_nat n") simp_all
  with dec_of_nat_digits [of n] have "is_digit c" by simp
  with cr show "dropWhile is_space (dec_of_nat n) = dec_of_nat n"
    and "split_sign (dec_of_nat n) = (False, dec_of_nat n)"
    by (simp_all add: is_digit_not split_sign_def)
qed

lemma stoi_dec_of_nat: "n < 2 ^ 31 \<Longrightarrow> stoi (dec_of_nat n) = Inr (int n)"
  by (simp add: stoi_def Let_def)

lemma stoi_range: "stoi s = Inr v \<Longrightarrow> - (2 ^ 31) \<le> v \<and> v < 2 ^ 31"
  by (auto simp: stoi_def Let_def split: prod.splits if_splits)

section \<open>std::string::find\<close>

text \<open>Position of the first occurrence of a character; \<open>None\<close> stands for \<open>npos\<close>.\<close>

fun find_char :: "string \<Rightarrow> char \<Rightarrow> nat option" where
  "find_char [] c = None"
| "find_char (x # xs) c = (if x = c then Some 0 else map_option Suc (find_char xs c))"

lemma find_char_None: "find_char s c = None \<longleftrightarrow> c \<notin> set s"
  by (induction s) auto

lemma find_char_append: "c \<notin> set xs \<Longrightarrow> find_char (xs @ c # ys) c = Some (length xs)"
  by (induction xs) auto

lemma find_char_Some:
  "find_char s c = Some i \<Longrightarrow> i < length s \<and> s ! i = c \<and> c \<notin> set (take i s)"
  by (induction s arbitrary: i) (auto split: if_splits)

section \<open>std::map\<close>

type_synonym ('k, 'v) std_map = "('k \<times> 'v) list"

definition std_map_find :: "('k, 'v) std_map \<Rightarrow> 'k \<Rightarrow> 'v option" where
  "std_map_find m k = map_of m k"

text \<open>\<open>f(m[k])\<close>: \<open>operator[]\<close> creates the entry with the default value when it is missing.\<close>

fun std_map_modify :: "'v \<Rightarrow> 'k::linorder \<Rightarrow> ('v \<Rightarrow> 'v) \<Rightarrow> ('k, 'v) std_map \<Rightarrow> ('k, 'v) std_map" where
  "std_map_modify d k f [] = [(k, f d)]"
| "std_map_modify d k f ((k', v) # m) =
     (if k < k' then (k, f d) # (k', v) # m
      else if k = k' then (k', f v) # m
      else (k', v) # std_map_modify d k f m)"

text \<open>\<open>insert\<close> keeps an entry that is already there.\<close>

definition std_map_insert :: "'k::linorder \<Rightarrow> 'v \<Rightarrow> ('k, 'v) std_map \<Rightarrow> ('k, 'v) std_map" where
  "std_map_insert k v m = std_map_modify v k (\<lambda>x. x) m"

definition std_map_ok :: "('k::linorder, 'v) std_map \<Rightarrow> bool" where
  "std_map_ok m \<longleftrightarrow> sorted_wrt (<) (map fst m)"

text \<open>
  What the statistics code needs of the container: lookups after the two updates, and
  that iterating visits each key once.
\<close>

locale ordered_map =
  fixes lookup :: "'m \<Rightarrow> 'k \<Rightarrow> 'v option"
    and modify :: "'v \<Rightarrow> 'k \<Rightarrow> ('v \<Rightarrow> 'v) \<Rightarrow> 'm \<Rightarrow> 'm"
    and entries :: "'m \<Rightarrow> ('k \<times> 'v) list"
    and ok :: "'m \<Rightarrow> bool"
  assumes lookup_modify: "ok m \<Longrightarrow> lookup (modify d k f m) k' =
      (if k' = k then Some (f (case lookup m k of None \<Rightarrow> d | Some v \<Rightarrow> v)) else lookup m k')"
    and ok_modify: "ok m \<Longrightarrow> ok (modify d k f m)"
    and entries_lookup: "ok m \<Longrightarrow> map_of (entries m) = lookup m"
    and entries_distinct: "ok m \<Longrightarrow> distinct (map fst (entries m))"
begin

lemma ok_fold: "ok m \<Longrightarrow> ok (fold (\<lambda>(k, x). modify d k (f x)) xs m)"
  by (induction xs arbitrary: m) (auto simp: ok_modify)

text \<open>A stream of updates, seen from one key, is the stream of the updates of that key.\<close>

lemma lookup_fold:
  assumes "ok m"
  shows "lookup (fold (\<lambda>(k, x). modify d k (f x)) xs m) k =
    (let ys = map snd (filter (\<lambda>p. fst p = k) xs)
     in if ys = [] then lookup m k
        else Some (fold f ys (case lookup m k of None \<Rightarrow> d | Some v \<Rightarrow> v)))"
  using assms
proof (induction xs arbitrary: m)
  case Nil
  then show ?case by simp
next
  case (Cons p xs)
  obtain j x where p: "p = (j, x)" by (cases p)
  have "ok (modify d j (f x) m)" by (rule ok_modify [OF Cons.prems])
  from Cons.IH [OF this] Cons.prems show ?case
    by (auto simp: p lookup_modify Let_def filter_empty_conv)
qed

text \<open>Totals over the entries: one update moves the total by the change of its entry.\<close>

lemma total_as_sum:
  fixes g :: "'v \<Rightarrow> 'a::comm_monoid_add"
  assumes "ok m"
  shows "sum_list (map (\<lambda>(k, v). g v) (entries m)) = (\<Sum>k\<in>dom (lookup m). g (the (lookup m k)))"
proof -
  let ?e = "entries m"
  have dist: "distinct (map fst ?e)" and mo: "map_of ?e = lookup m"
    using assms by (simp_all add: entries_distinct entries_lookup)
  have "sum_list (map (\<lambda>(k, v). g v) ?e) = (\<Sum>p\<in>set ?e. case p of (k, v) \<Rightarrow> g v)"
    using dist by (simp add: sum_list_distinct_conv_sum_set distinct_map)
  also have "\<dots> = (\<Sum>k\<in>fst ` set ?e. g (the (map_of ?e k)))"
    using dist
    by (intro sum.reindex_cong [symmetric, where l = fst])
       (auto simp: distinct_map map_of_is_SomeI inj_on_def)
  finally show ?thesis by (simp add: mo [symmetric] dom_map_of_conv_image_fst)
qed

lemma total_modify:
  fixes g :: "'v \<Rightarrow> 'a::ab_group_add"
  assumes "ok m" and g0: "g d = 0"
  shows "sum_list (map (\<lambda>(k, v). g v) (entries (modify d k f m))) =
    sum_list (map (\<lambda>(k, v). g v) (entries m))
    + (g (f (case lookup m k of None \<Rightarrow> d | Some v \<Rightarrow> v))
       - g (case lookup m k of None \<Rightarrow> d | Some v \<Rightarrow> v))"
proof -
  let ?D = "dom (lookup m)" and ?old = "case lookup m k of None \<Rightarrow> d | Some v \<Rightarrow> v"
  have fin: "finite ?D"
    using entries_lookup [OF assms(1)] finite_dom_map_of [of "entries m"] by simp
  have dom': "dom (lookup (modify d k f m)) = insert k ?D"
    using assms(1) by (auto simp: lookup_modify dom_def)
  have "(\<Sum>j\<in>insert k ?D. g (the (lookup (modify d k f m) j))) =
      g (f ?old) + (\<Sum>j\<in>?D - {k}. g (the (lookup m j)))"
    using fin assms(1) by (subst sum.insert_remove) (auto simp: lookup_modify intro!: sum.cong)
  moreover have "(\<Sum>j\<in>?D. g (the (lookup m j))) =
      g ?old + (\<Sum>j\<in>?D - {k}. g (the (lookup m j)))"
    using fin g0 by (cases "k \<in> ?D") (auto simp: sum.remove domIff)
  ultimately show ?thesis
    using assms(1) by (simp add: total_as_sum ok_modify dom' algebra_simps)
qed

end

lemma std_map_modify_keys:
  "set (map fst (std_map_modify d k f m)) = insert k (set (map fst m))"
  by (induction d k f m rule: std_map_modify.induct) auto

lemma std_map_modify_ok: "std_map_ok m \<Longrightarrow> std_map_ok (std_map_modify d k f m)"
  unfolding std_map_ok_def
proof (induction d k f m rule: std_map_modify.induct)
  case (1 d k f)
  then show ?case by simp
next
  case (2 d k f k' v m)
  then show ?case
    using std_map_modify_keys [of d k f m] by (auto simp flip: set_map)
qed

lemma std_map_find_modify:
  "std_map_ok m \<Longrightarrow> std_map_find (std_map_modify d k f m) k' =
     (if k' = k then Some (f (case std_map_find m k of None \<Rightarrow> d | Some v \<Rightarrow> v))
      else std_map_find m k')"
  unfolding std_map_find_def std_map_ok_def
proof (induction d k f m rule: std_map_modify.induct)
  case (1 d k f)
  then show ?case by simp
next
  case (2 d k f j v m)
  have "k < j \<Longrightarrow> map_of m k = None"
    using "2.prems" by (force simp: map_of_eq_None_iff)
  with 2 show ?case by auto
qed

interpretation stdmap: ordered_map
  "std_map_find :: ('k::linorder, 'v) std_map \<Rightarrow> 'k \<Rightarrow> 'v option" std_map_modify "\<lambda>m. m" std_map_ok
proof unfold_locales
  fix m :: "('k, 'v) std_map" and d k f k'
  assume ok: "std_map_ok m"
  show "std_map_find (std_map_modify d k f m) k' =
      (if k' = k then Some (f (case std_map_find m k of None \<Rightarrow> d | Some v \<Rightarrow> v))
       else std_map_find m k')"
    by (rule std_map_find_modify [OF ok])
  show "std_map_ok (std_map_modify d k f m)" by (rule std_map_modify_ok [OF ok])
  show "map_of m = std_map_find m" by (simp add: std_map_find_def fun_eq_iff)
  show "distinct (map fst m)"
    using ok by (auto simp: std_map_ok_def strict_sorted_iff)
qed

lemma std_map_insert_find:
  "std_map_ok m \<Longrightarrow> std_map_find (std_map_insert k v m) k' =
     (if k' = k \<and> std_map_find m k = None then Some v else std_map_find m k')"
  by (auto simp: std_map_insert_def std_map_find_modify split: option.splits)

lemma std_map_insert_ok: "std_map_ok m \<Longrightarrow> std_map_ok (std_map_insert k v m)"
  by (simp add: std_map_insert_def std_map_modify_ok)

lemma std_map_ok_Nil [simp]: "std_map_ok []"
  by (simp add: std_map_ok_def)

lemma std_map_find_Nil [simp]: "std_map_find [] k = None"
  by (simp add: std_map_find_def)

end
