(* ===== verification/Group_Stats.thy ===== *)
theory Group_Stats
  imports Cpp_Std
begin

text \<open>
  The statistics of the multicast groups: the records of RioSession.hpp, the two
  overrides of \<open>GroupStatsUpdate\<close> (RioConsumer.cpp and RioProducer.cpp), the snapshot of
  the totals and the final report. \<open>std::atomic\<close> loads, stores and increments are
  word operations on the record; the packet path runs in one thread, so each update is
  one function on the group's record.
\<close>

section \<open>Data\<close>

text \<open>The protocol header at the start of each packet.\<close>

record ProtocolHeader_t =
  Token :: u16
  CmdType :: u8
  Tag :: u8
  Seq :: u64
  Timestamp :: u64

text \<open>The fields of \<open>SOCKADDR_INET\<close> that the program reads or writes.\<close>

record SOCKADDR_INET =
  sin_family :: u16
  sin_port :: u16
  s_addr :: u32

record McGroupStats_t =
  Packets :: u64
  Bytes :: u64
  Sequence :: u64
  ExpectedSequence :: u64
  OutOfOrder :: u64
  RxDropped :: u64

definition McGroupStats_init :: McGroupStats_t where
  "McGroupStats_init = \<lparr>Packets = 0, Bytes = 0, Sequence = 0, ExpectedSequence = 0,
     OutOfOrder = 0, RxDropped = 0\<rparr>"

definition McGroupStats_copy :: "McGroupStats_t \<Rightarrow> McGroupStats_t" where
  "McGroupStats_copy other = \<lparr>Packets = Packets other, Bytes = Bytes other,
     Sequence = Sequence other, ExpectedSequence = ExpectedSequence other,
     OutOfOrder = OutOfOrder other, RxDropped = RxDropped other\<rparr>"

record TotalStats_t =
  TotalPackets :: u64
  TotalBytes :: u64
  TotalOutOfOrder :: u64
  TotalDrops :: u64

definition TotalStats_init :: TotalStats_t where
  "TotalStats_init = \<lparr>TotalPackets = 0, TotalBytes = 0, TotalOutOfOrder = 0, TotalDrops = 0\<rparr>"

type_synonym McGroupStatsMap = "(u32, McGroupStats_t) std_map"

section \<open>Operations\<close>

text \<open>\<open>RioSession::InitGroupStats\<close>: one entry for each configured group (network order key).\<close>

definition InitGroupStats :: "u32 list \<Rightarrow> McGroupStatsMap \<Rightarrow> McGroupStatsMap" where
  "InitGroupStats mcastGroupAddr m =
     fold (\<lambda>ip m. std_map_insert ip (McGroupStats_copy McGroupStats_init) m) mcastGroupAddr m"

text \<open>The body of \<open>RioConsumer::GroupStatsUpdate\<close> on the record of the group.\<close>

definition consumer_update :: "u64 \<Rightarrow> u64 \<Rightarrow> McGroupStats_t \<Rightarrow> McGroupStats_t" where
  "consumer_update pktSize seq gmc =
     (let gmc1 =
        (if seq = ExpectedSequence gmc then
           gmc\<lparr>ExpectedSequence := ExpectedSequence gmc + 1, Sequence := seq\<rparr>
         else if seq > ExpectedSequence gmc then
           (let gmc' = (if Packets gmc \<noteq> 0
              then gmc\<lparr>RxDropped := RxDropped gmc + (seq - ExpectedSequence gmc)\<rparr> else gmc)
            in gmc'\<lparr>ExpectedSequence := seq + 1, Sequence := seq\<rparr>)
         else
           (let gmc' = (if RxDropped gmc > 0 then gmc\<lparr>RxDropped := RxDropped gmc - 1\<rparr> else gmc)
            in gmc'\<lparr>OutOfOrder := OutOfOrder gmc' + 1\<rparr>))
      in gmc1\<lparr>Packets := Packets gmc1 + 1, Bytes := Bytes gmc1 + pktSize\<rparr>)"

definition RioConsumer_GroupStatsUpdate ::
    "SOCKADDR_INET \<Rightarrow> u64 \<Rightarrow> ProtocolHeader_t \<Rightarrow> McGroupStatsMap \<Rightarrow> McGroupStatsMap" where
  "RioConsumer_GroupStatsUpdate addr pktSize pHdr m =
     std_map_modify McGroupStats_init (s_addr addr) (consumer_update pktSize (Seq pHdr)) m"

text \<open>The body of \<open>RioProducer::GroupStatsUpdate\<close>; the header argument is not used there.\<close>

definition producer_update :: "u64 \<Rightarrow> McGroupStats_t \<Rightarrow> McGroupStats_t" where
  "producer_update pktSize gmc =
     (let gmc1 = gmc\<lparr>Sequence := Packets gmc\<rparr>;
          gmc2 = gmc1\<lparr>Packets := Packets gmc1 + 1\<rparr>
      in gmc2\<lparr>Bytes := Bytes gmc2 + pktSize\<rparr>)"

definition RioProducer_GroupStatsUpdate ::
    "SOCKADDR_INET \<Rightarrow> u64 \<Rightarrow> McGroupStatsMap \<Rightarrow> McGroupStatsMap" where
  "RioProducer_GroupStatsUpdate addr pktSize m =
     std_map_modify McGroupStats_init (s_addr addr) (producer_update pktSize) m"

text \<open>\<open>RioConsumer::GetMcTotals\<close>: the loop over the map adds each group to the totals.\<close>

definition add_to_totals :: "McGroupStats_t \<Rightarrow> TotalStats_t \<Rightarrow> TotalStats_t" where
  "add_to_totals v t = t\<lparr>TotalPackets := TotalPackets t + Packets v,
     TotalBytes := TotalBytes t + Bytes v,
     TotalOutOfOrder := TotalOutOfOrder t + OutOfOrder v,
     TotalDrops := TotalDrops t + RxDropped v\<rparr>"

definition GetMcTotals :: "McGroupStatsMap \<Rightarrow> TotalStats_t" where
  "GetMcTotals m = fold (\<lambda>(key, v) t. add_to_totals v t) m TotalStats_init"

text \<open>
  The final reports: the printed rows (group, then the columns) and, for the consumer,
  the line of totals. Their text is in theory Console_Text.
\<close>

definition RioConsumer_GroupStatsPrint ::
    "(u32 \<Rightarrow> string) \<Rightarrow> McGroupStatsMap \<Rightarrow>
       (string \<times> u64 \<times> u64 \<times> u64 \<times> u64 \<times> u64) list \<times> (u64 \<times> u64 \<times> u64 \<times> u64)" where
  "RioConsumer_GroupStatsPrint ntop m =
     (map (\<lambda>(key, v). (ntop key, Packets v, Bytes v, Sequence v, OutOfOrder v, RxDropped v)) m,
      fold (\<lambda>(key, v) (p, b, os, d). (p + Packets v, b + Bytes v, os + OutOfOrder v, d + RxDropped v))
        m (0, 0, 0, 0))"

definition RioProducer_GroupStatsPrint ::
    "(u32 \<Rightarrow> string) \<Rightarrow> McGroupStatsMap \<Rightarrow> (string \<times> u64 \<times> u64 \<times> u64) list" where
  "RioProducer_GroupStatsPrint ntop m =
     map (\<lambda>(key, v). (ntop key, Packets v, Bytes v, Sequence v)) m"

section \<open>One step of the consumer's tracker\<close>

named_theorems stats_simps "field-wise behaviour of the statistics updates"

lemma McGroupStats_init_sel [simp, stats_simps]:
  "Packets McGroupStats_init = 0" "Bytes McGroupStats_init = 0" "Sequence McGroupStats_init = 0"
  "ExpectedSequence McGroupStats_init = 0" "OutOfOrder McGroupStats_init = 0"
  "RxDropped McGroupStats_init = 0"
  by (simp_all add: McGroupStats_init_def)

lemma McGroupStats_copy_id [simp]: "McGroupStats_copy g = g"
  by (simp add: McGroupStats_copy_def)

lemma consumer_update_sel [stats_simps]:
  "Packets (consumer_update n s g) = Packets g + 1"
  "Bytes (consumer_update n s g) = Bytes g + n"
  "Sequence (consumer_update n s g) =
     (if ExpectedSequence g \<le> s then s else Sequence g)"
  "ExpectedSequence (consumer_update n s g) =
     (if ExpectedSequence g \<le> s then s + 1 else ExpectedSequence g)"
  "OutOfOrder (consumer_update n s g) =
     (if ExpectedSequence g \<le> s then OutOfOrder g else OutOfOrder g + 1)"
  "RxDropped (consumer_update n s g) =
     (if s = ExpectedSequence g then RxDropped g
      else if s > ExpectedSequence g then
        (if Packets g \<noteq> 0 then RxDropped g + (s - ExpectedSequence g) else RxDropped g)
      else if RxDropped g > 0 then RxDropped g - 1 else RxDropped g)"
  by (auto simp: consumer_update_def Let_def)

lemma producer_update_sel [stats_simps]:
  "Packets (producer_update n g) = Packets g + 1"
  "Bytes (producer_update n g) = Bytes g + n"
  "Sequence (producer_update n g) = Packets g"
  "ExpectedSequence (producer_update n g) = ExpectedSequence g"
  "OutOfOrder (producer_update n g) = OutOfOrder g"
  "RxDropped (producer_update n g) = RxDropped g"
  by (simp_all add: producer_update_def Let_def)

definition consumer_run :: "u64 \<Rightarrow> u64 list \<Rightarrow> McGroupStats_t" where
  "consumer_run pktSize seqs = fold (consumer_update pktSize) seqs McGroupStats_init"

lemma consumer_run_Nil [simp]: "consumer_run n [] = McGroupStats_init"
  by (simp add: consumer_run_def)

lemma consumer_run_snoc [simp]:
  "consumer_run n (ss @ [s]) = consumer_update n s (consumer_run n ss)"
  by (simp add: consumer_run_def)

section \<open>The virtual interface of the session\<close>

text \<open>
  \<open>RioSession\<close> declares \<open>GroupStatsUpdate\<close> pure virtual; its callers rely only on each
  call counting one packet and its bytes for the addressed group. The lemmas about the
  totals are proved once from that contract and used for both overrides.
\<close>

locale session_stats =
  fixes update :: "'h \<Rightarrow> u64 \<Rightarrow> McGroupStats_t \<Rightarrow> McGroupStats_t"
  assumes packets_update: "Packets (update h n g) = Packets g + 1"
    and bytes_update: "Bytes (update h n g) = Bytes g + n"
begin

lemma packets_fold: "Packets (fold (\<lambda>h. update h n) hs g) = Packets g + of_nat (length hs)"
  by (induction hs arbitrary: g) (simp_all add: packets_update)

lemma bytes_fold: "Bytes (fold (\<lambda>h. update h n) hs g) = Bytes g + of_nat (length hs) * n"
  by (induction hs arbitrary: g) (simp_all add: bytes_update algebra_simps)

lemma total_packets_step:
  assumes "std_map_ok m"
  shows "sum_list (map (\<lambda>(k, v). Packets v) (std_map_modify McGroupStats_init k (update h n) m)) =
    sum_list (map (\<lambda>(k, v). Packets v) m) + 1"
  by (subst stdmap.total_modify [OF assms])
     (simp_all add: packets_update split: option.split)

lemma total_bytes_step:
  assumes "std_map_ok m"
  shows "sum_list (map (\<lambda>(k, v). Bytes v) (std_map_modify McGroupStats_init k (update h n) m)) =
    sum_list (map (\<lambda>(k, v). Bytes v) m) + n"
  by (subst stdmap.total_modify [OF assms])
     (simp_all add: bytes_update split: option.split)

lemma totals_fold:
  assumes "std_map_ok m"
  shows "sum_list (map (\<lambda>(k, v). Packets v)
      (fold (\<lambda>(k, h). std_map_modify McGroupStats_init k (update h n)) xs m)) =
      sum_list (map (\<lambda>(k, v). Packets v) m) + of_nat (length xs)"
    and "sum_list (map (\<lambda>(k, v). Bytes v)
      (fold (\<lambda>(k, h). std_map_modify McGroupStats_init k (update h n)) xs m)) =
      sum_list (map (\<lambda>(k, v). Bytes v) m) + of_nat (length xs) * n"
  using assms
  by (induction xs arbitrary: m)
     (auto simp: total_packets_step total_bytes_step std_map_modify_ok algebra_simps)

end

interpretation consumer_stats: session_stats "\<lambda>seq n. consumer_update n seq"
  by unfold_locales (simp_all add: stats_simps)

interpretation producer_stats: session_stats "\<lambda>h n. producer_update n"
  by unfold_locales (simp_all add: stats_simps)

section \<open>Streams of packets over the whole map\<close>

definition consumer_stream ::
    "u64 \<Rightarrow> (SOCKADDR_INET \<times> ProtocolHeader_t) list \<Rightarrow> McGroupStatsMap \<Rightarrow> McGroupStatsMap" where
  "consumer_stream pktSize pkts m =
     fold (\<lambda>(addr, hdr) m. RioConsumer_GroupStatsUpdate addr pktSize hdr m) pkts m"

definition producer_stream :: "u64 \<Rightarrow> SOCKADDR_INET list \<Rightarrow> McGroupStatsMap \<Rightarrow> McGroupStatsMap" where
  "producer_stream pktSize addrs m =
     fold (\<lambda>addr m. RioProducer_GroupStatsUpdate addr pktSize m) addrs m"

definition seqs_of_group :: "u32 \<Rightarrow> (SOCKADDR_INET \<times> ProtocolHeader_t) list \<Rightarrow> u64 list" where
  "seqs_of_group g pkts = map (\<lambda>(addr, hdr). Seq hdr) (filter (\<lambda>(addr, hdr). s_addr addr = g) pkts)"

lemma consumer_stream_as_fold:
  "consumer_stream n pkts m =
     fold (\<lambda>(k, q). std_map_modify McGroupStats_init k (consumer_update n q))
       (map (\<lambda>(addr, hdr). (s_addr addr, Seq hdr)) pkts) m"
  unfolding consumer_stream_def
  by (induction pkts arbitrary: m) (auto simp: RioConsumer_GroupStatsUpdate_def)

lemma producer_stream_as_fold:
  "producer_stream n addrs m =
     fold (\<lambda>(k, q). std_map_modify McGroupStats_init k (producer_update n))
       (map (\<lambda>addr. (s_addr addr, ())) addrs) m"
  unfolding producer_stream_def
  by (induction addrs arbitrary: m) (auto simp: RioProducer_GroupStatsUpdate_def)

lemma consumer_stream_ok: "std_map_ok m \<Longrightarrow> std_map_ok (consumer_stream n pkts m)"
  unfolding consumer_stream_as_fold by (rule stdmap.ok_fold)

lemma producer_stream_ok: "std_map_ok m \<Longrightarrow> std_map_ok (producer_stream n addrs m)"
  unfolding producer_stream_as_fold
  using stdmap.ok_fold [where f = "\<lambda>_. producer_update n"] by blast

lemma InitGroupStats_ok: "std_map_ok m \<Longrightarrow> std_map_ok (InitGroupStats gs m)"
  unfolding InitGroupStats_def by (induction gs arbitrary: m) (simp_all add: std_map_insert_ok)

lemma InitGroupStats_find:
  "std_map_ok m \<Longrightarrow> std_map_find (InitGroupStats gs m) g =
     (if g \<in> set gs \<and> std_map_find m g = None then Some McGroupStats_init else std_map_find m g)"
  unfolding InitGroupStats_def
  by (induction gs arbitrary: m) (auto simp: std_map_insert_ok std_map_insert_find)

lemma find_Init_empty:
  "std_map_find (InitGroupStats gs []) g = (if g \<in> set gs then Some McGroupStats_init else None)"
  by (simp add: InitGroupStats_find)

lemma seqs_of_group_alt:
  "seqs_of_group g pkts =
     map snd (filter (\<lambda>p. fst p = g) (map (\<lambda>(addr, hdr). (s_addr addr, Seq hdr)) pkts))"
  unfolding seqs_of_group_def by (induction pkts) auto

lemma consumer_stream_find:
  assumes "std_map_ok m"
  shows "std_map_find (consumer_stream n pkts m) g =
    (if seqs_of_group g pkts = [] then std_map_find m g
     else Some (fold (consumer_update n) (seqs_of_group g pkts)
       (case std_map_find m g of None \<Rightarrow> McGroupStats_init | Some v \<Rightarrow> v)))"
  unfolding consumer_stream_as_fold stdmap.lookup_fold [OF assms] seqs_of_group_alt [symmetric]
  by (simp add: Let_def)

lemma producer_stream_find:
  assumes "std_map_ok m"
  shows "std_map_find (producer_stream n addrs m) g =
    (let us = map snd (filter (\<lambda>p. fst p = g) (map (\<lambda>addr. (s_addr addr, ())) addrs))
     in if us = [] then std_map_find m g
        else Some (fold (\<lambda>_. producer_update n) us
          (case std_map_find m g of None \<Rightarrow> McGroupStats_init | Some v \<Rightarrow> v)))"
  unfolding producer_stream_as_fold
  using stdmap.lookup_fold [OF assms, where f = "\<lambda>_. producer_update n"] by blast

text \<open>
  C23: Groups do not influence each other. After any stream of packets, starting from the
  map that \<open>InitGroupStats\<close> builds, the record of a group is the consumer's tracker run on
  exactly the sequence numbers addressed to that group, in arrival order; a group without
  packets keeps its zero record if it was configured and has no record otherwise.
\<close>

theorem group_isolation:
  "std_map_find (consumer_stream n pkts (InitGroupStats gs [])) g =
    (if seqs_of_group g pkts = [] then (if g \<in> set gs then Some McGroupStats_init else None)
     else Some (consumer_run n (seqs_of_group g pkts)))"
  by (simp add: consumer_stream_find InitGroupStats_ok find_Init_empty consumer_run_def
      split: option.split)

section \<open>Totals\<close>

lemma fold_totals_sel:
  "TotalPackets (fold (\<lambda>(key, v) t. add_to_totals v t) m t) =
     TotalPackets t + sum_list (map (\<lambda>(k, v). Packets v) m)"
  "TotalBytes (fold (\<lambda>(key, v) t. add_to_totals v t) m t) =
     TotalBytes t + sum_list (map (\<lambda>(k, v). Bytes v) m)"
  "TotalOutOfOrder (fold (\<lambda>(key, v) t. add_to_totals v t) m t) =
     TotalOutOfOrder t + sum_list (map (\<lambda>(k, v). OutOfOrder v) m)"
  "TotalDrops (fold (\<lambda>(key, v) t. add_to_totals v t) m t) =
     TotalDrops t + sum_list (map (\<lambda>(k, v). RxDropped v) m)"
  by (induction m arbitrary: t) (auto simp: add_to_totals_def algebra_simps)

lemma GetMcTotals_sel [stats_simps]:
  "TotalPackets (GetMcTotals m) = sum_list (map (\<lambda>(k, v). Packets v) m)"
  "TotalBytes (GetMcTotals m) = sum_list (map (\<lambda>(k, v). Bytes v) m)"
  "TotalOutOfOrder (GetMcTotals m) = sum_list (map (\<lambda>(k, v). OutOfOrder v) m)"
  "TotalDrops (GetMcTotals m) = sum_list (map (\<lambda>(k, v). RxDropped v) m)"
  by (simp_all add: GetMcTotals_def fold_totals_sel TotalStats_init_def)

lemma totals_Init:
  assumes "g McGroupStats_init = (0 :: u64)"
  shows "sum_list (map (\<lambda>(k, v). g v) (InitGroupStats gs [])) = 0"
  by (subst stdmap.total_as_sum)
     (auto simp: InitGroupStats_ok find_Init_empty assms dom_def intro!: sum.neutral split: if_splits)

text \<open>
  C24: The snapshot of the totals accounts for every packet. Over any stream of packets of
  one size, spread over any groups, configured or not, \<open>GetMcTotals\<close> reports the number of
  packets, the number of bytes, and the sum over the groups seen of the losses and of the
  late packets that each group's tracker counts.
\<close>

theorem totals_account_for_all:
  "GetMcTotals (consumer_stream n pkts (InitGroupStats gs [])) =
    \<lparr>TotalPackets = of_nat (length pkts), TotalBytes = of_nat (length pkts) * n,
     TotalOutOfOrder = (\<Sum>g\<in>(s_addr \<circ> fst) ` set pkts. OutOfOrder (consumer_run n (seqs_of_group g pkts))),
     TotalDrops = (\<Sum>g\<in>(s_addr \<circ> fst) ` set pkts. RxDropped (consumer_run n (seqs_of_group g pkts)))\<rparr>"
proof -
  let ?run = "\<lambda>g. consumer_run n (seqs_of_group g pkts)"
  let ?m = "InitGroupStats gs []" and ?f = "consumer_stream n pkts (InitGroupStats gs [])"
  let ?G = "(s_addr \<circ> fst) ` set pkts"
  have ok: "std_map_ok ?m" by (simp add: InitGroupStats_ok)
  have okf: "std_map_ok ?f" by (simp add: consumer_stream_ok InitGroupStats_ok)
  have seen: "seqs_of_group g pkts = [] \<longleftrightarrow> g \<notin> ?G" for g
    by (force simp: seqs_of_group_def filter_empty_conv)
  have per_group: "sum_list (map (\<lambda>(k, v). c v) ?f) = (\<Sum>g\<in>?G. c (?run g))"
    if "c McGroupStats_init = 0" for c :: "McGroupStats_t \<Rightarrow> u64"
  proof -
    have "sum_list (map (\<lambda>(k, v). c v) ?f) =
        (\<Sum>k\<in>dom (std_map_find ?f). c (the (std_map_find ?f k)))"
      by (rule stdmap.total_as_sum [OF okf])
    also have "\<dots> = (\<Sum>g\<in>?G. c (?run g))"
    proof (rule sum.mono_neutral_cong_right)
      show "finite (dom (std_map_find ?f))"
        by (simp add: std_map_find_def finite_dom_map_of)
      show "?G \<subseteq> dom (std_map_find ?f)"
        by (auto simp only: group_isolation seen domIff split: if_splits)
    qed (use that seen in \<open>auto simp: group_isolation split: if_splits\<close>)
    finally show ?thesis .
  qed
  have "TotalPackets (GetMcTotals ?f) = of_nat (length pkts)"
    unfolding GetMcTotals_sel consumer_stream_as_fold
    by (subst consumer_stats.totals_fold [OF ok]) (simp add: totals_Init)
  moreover have "TotalBytes (GetMcTotals ?f) = of_nat (length pkts) * n"
    unfolding GetMcTotals_sel consumer_stream_as_fold
    by (subst consumer_stats.totals_fold [OF ok]) (simp add: totals_Init)
  ultimately show ?thesis
    by (intro TotalStats_t.equality) (simp_all add: GetMcTotals_sel per_group)
qed

text \<open>
  The totals line of the consumer's final report is the snapshot \<open>GetMcTotals\<close> takes of
  the same map, and the report has one row for each group, with the group's own counters.
\<close>

theorem final_report_totals:
  "snd (RioConsumer_GroupStatsPrint ntop m) =
     (TotalPackets (GetMcTotals m), TotalBytes (GetMcTotals m),
      TotalOutOfOrder (GetMcTotals m), TotalDrops (GetMcTotals m))
   \<and> length (fst (RioConsumer_GroupStatsPrint ntop m)) = length m"
proof -
  have "fold (\<lambda>(key, v) (p, b, os, d). (p + Packets v, b + Bytes v, os + OutOfOrder v, d + RxDropped v))
      m (p, b, os, d) =
    (p + sum_list (map (\<lambda>(k, v). Packets v) m), b + sum_list (map (\<lambda>(k, v). Bytes v) m),
     os + sum_list (map (\<lambda>(k, v). OutOfOrder v) m), d + sum_list (map (\<lambda>(k, v). RxDropped v) m))"
    for p b os d :: u64
    by (induction m arbitrary: p b os d) (auto simp: algebra_simps)
  then show ?thesis by (simp add: RioConsumer_GroupStatsPrint_def GetMcTotals_sel)
qed

lemma producer_run_sel:
  "Packets (fold (\<lambda>_. producer_update n) hs g) = Packets g + of_nat (length hs)"
  "hs \<noteq> [] \<Longrightarrow> Sequence (fold (\<lambda>_. producer_update n) hs g) = Packets g + of_nat (length hs) - 1"
  "Bytes (fold (\<lambda>_. producer_update n) hs g) = Bytes g + of_nat (length hs) * n"
proof -
  show "Packets (fold (\<lambda>_. producer_update n) hs g) = Packets g + of_nat (length hs)"
    by (rule producer_stats.packets_fold)
  show "Bytes (fold (\<lambda>_. producer_update n) hs g) = Bytes g + of_nat (length hs) * n"
    by (rule producer_stats.bytes_fold)
  show "Sequence (fold (\<lambda>_. producer_update n) hs g) = Packets g + of_nat (length hs) - 1"
    if "hs \<noteq> []"
    using that by (cases hs rule: rev_cases) (simp_all add: stats_simps producer_stats.packets_fold)
qed

text \<open>
  The producer's statistics: after any sequence of sends, a group's record holds the
  number of packets sent to it, their bytes, and, once one was sent, the last sequence
  number as one less than the count; the loss counters stay zero.
\<close>

theorem producer_stats_count_sends:
  assumes "std_map_find (producer_stream n addrs (InitGroupStats gs [])) g = Some st"
  shows "let k = length (filter (\<lambda>a. s_addr a = g) addrs)
    in Packets st = of_nat k \<and> Bytes st = of_nat k * n
       \<and> Sequence st = (if k = 0 then 0 else of_nat k - 1)"
proof -
  define k where "k = length (filter (\<lambda>a. s_addr a = g) addrs)"
  define us where "us = map snd (filter (\<lambda>p. fst p = g) (map (\<lambda>addr. (s_addr addr, ())) addrs))"
  have len: "length us = k"
    unfolding k_def us_def by (induction addrs) auto
  have st: "st = fold (\<lambda>_. producer_update n) us McGroupStats_init"
    using assms(1)
    by (auto simp: producer_stream_find InitGroupStats_ok find_Init_empty us_def Let_def
        split: if_splits option.splits)
  show ?thesis
    unfolding st k_def [symmetric] Let_def
    using producer_run_sel [where n = n and hs = us and g = McGroupStats_init] len
    by (cases "us = []") auto
qed

theorem producer_stats_count_sends_witness:
  "let a = \<lparr>sin_family = 2, sin_port = 0, s_addr = 5\<rparr>;
       m = producer_stream 100 [a, a] (InitGroupStats [5] []);
       st = the (std_map_find m 5)
   in std_map_find m 5 = Some st \<and> Packets st = 2 \<and> Bytes st = 200 \<and> Sequence st = 1"
proof -
  let ?a = "\<lparr>sin_family = 2, sin_port = 0, s_addr = 5\<rparr>"
  let ?m = "producer_stream 100 [?a, ?a] (InitGroupStats [5] [])"
  let ?st = "producer_update 100 (producer_update 100 McGroupStats_init)"
  have h: "std_map_find ?m 5 = Some ?st"
    by (simp add: producer_stream_def RioProducer_GroupStatsUpdate_def InitGroupStats_def
        std_map_insert_def std_map_find_def)
  from producer_stats_count_sends [OF h] show ?thesis by (simp add: h Let_def)
qed

end
