(* ===== verification/Float64.thy ===== *)
theory Float64
  imports "HOL-Library.Log_Nat" Prelude
begin

text \<open>
  The arithmetic on \<open>double\<close> that the report needs. A finite \<open>double\<close> is a rational number
  with a significand of 53 bits. An operation computes the exact result and rounds it: to
  nearest with ties to even by default, downwards after \<open>std::fesetround(FE_DOWNWARD)\<close>. The
  quantities of the program are far from the ends of the exponent range, so overflow and
  subnormal numbers are left out, as are infinities, NaN and the sign of zero, which none of
  its quotients reaches (the divisors are positive).
\<close>

type_synonym double = rat

section \<open>Rounding\<close>

definition round_even :: "rat \<Rightarrow> int" where
  "round_even y =
     (let f = \<lfloor>y\<rfloor>; d = y - of_int f
      in if d < 1 / 2 then f else if 1 / 2 < d then f + 1 else if even f then f else f + 1)"

text \<open>The exponent of a positive number: \<open>2 powi e \<le> x < 2 powi (e + 1)\<close>.\<close>

definition binade :: "rat \<Rightarrow> int" where
  "binade x = (if 1 \<le> x then bitlen \<lfloor>x\<rfloor> - 1 else - bitlen (\<lceil>1 / x\<rceil> - 1))"

definition ulp :: "rat \<Rightarrow> rat" where
  "ulp x = 2 powi (binade \<bar>x\<bar> - 52)"

definition round_to :: "(rat \<Rightarrow> int) \<Rightarrow> rat \<Rightarrow> double" where
  "round_to rnd x = (if x = 0 then 0 else of_int (rnd (x / ulp x)) * ulp x)"

definition fl :: "rat \<Rightarrow> double" where
  "fl x = round_to round_even x"

definition fl_down :: "rat \<Rightarrow> double" where
  "fl_down x = round_to floor x"

text \<open>The conversion of an unsigned counter, and the one of a \<open>double\<close> to a signed integer.\<close>

definition double_of :: "'a::len word \<Rightarrow> double" where
  "double_of v = fl (of_nat (unat v))"

definition to_int64 :: "double \<Rightarrow> int" where
  "to_int64 x = (if x < 0 then \<lceil>x\<rceil> else \<lfloor>x\<rfloor>)"

section \<open>Lemmas\<close>

lemma round_even_error: "\<bar>of_int (round_even y) - y\<bar> \<le> 1 / 2"
proof -
  have f: "of_int \<lfloor>y\<rfloor> \<le> y" "y < of_int \<lfloor>y\<rfloor> + 1" by linarith+
  show ?thesis
    unfolding round_even_def Let_def abs_le_iff using f by (simp split: if_split) linarith
qed

lemma round_even_of_int [simp]: "round_even (of_int n) = n"
  by (simp add: round_even_def)

lemma round_even_le: "y \<le> of_int n \<Longrightarrow> round_even y \<le> n"
  by (auto simp: round_even_def Let_def le_floor_iff) linarith+

lemma round_even_minus: "round_even (- y) = - round_even y"
proof (cases "y = of_int \<lfloor>y\<rfloor>")
  case True
  then show ?thesis by (metis of_int_minus round_even_of_int)
next
  case False
  then have "\<lfloor>- y\<rfloor> = - \<lfloor>y\<rfloor> - 1" by (simp add: floor_minus ceiling_altdef)
  then show ?thesis by (auto simp: round_even_def Let_def)
qed

lemma bitlen_rat:
  assumes "0 < n"
  shows "(2 :: rat) powi (bitlen n - 1) \<le> of_int n" and "of_int n < (2 :: rat) powi (bitlen n)"
proof -
  have b: "2 ^ nat (bitlen n - 1) \<le> n" "n < 2 ^ nat (bitlen n)"
    using bitlen_bounds [OF assms] by simp_all
  have pos: "0 < bitlen n" using assms by (simp add: bitlen_alt_def)
  have "(2 :: rat) powi (bitlen n - 1) = of_int (2 ^ nat (bitlen n - 1))"
    and "(2 :: rat) powi (bitlen n) = of_int (2 ^ nat (bitlen n))"
    using pos by (simp_all add: power_int_def)
  then show "(2 :: rat) powi (bitlen n - 1) \<le> of_int n" "of_int n < (2 :: rat) powi (bitlen n)"
    using b by (simp_all only: of_int_le_iff of_int_less_iff)
qed

lemma binade_bounds:
  assumes "0 < x"
  shows "2 powi (binade x) \<le> x" and "x < 2 powi (binade x + 1)"
proof -
  have "2 powi (binade x) \<le> x \<and> x < 2 powi (binade x + 1)"
  proof (cases "1 \<le> x")
    case True
    then have "0 < \<lfloor>x\<rfloor>" by simp
    moreover from True have "\<lfloor>x\<rfloor> + 1 \<le> 2 ^ nat (bitlen \<lfloor>x\<rfloor>)"
      using bitlen_bounds [of "\<lfloor>x\<rfloor>"] by simp
    then have "of_int (\<lfloor>x\<rfloor> + 1) \<le> (of_int (2 ^ nat (bitlen \<lfloor>x\<rfloor>)) :: rat)"
      by (simp only: of_int_le_iff)
    moreover have "(2 :: rat) powi (bitlen \<lfloor>x\<rfloor>) = of_int (2 ^ nat (bitlen \<lfloor>x\<rfloor>))"
      using bitlen_nonneg [of "\<lfloor>x\<rfloor>"] by (simp add: power_int_def)
    ultimately have "2 powi (bitlen \<lfloor>x\<rfloor> - 1) \<le> x" "x < 2 powi (bitlen \<lfloor>x\<rfloor>)"
      using bitlen_rat(1) [of "\<lfloor>x\<rfloor>"] by simp_all linarith+
    with True show ?thesis by (simp add: binade_def)
  next
    case False
    let ?n = "\<lceil>1 / x\<rceil> - 1"
    have inv: "1 < 1 / x" using False assms by simp
    then have n: "0 < ?n" by linarith
    have up: "?n + 1 \<le> 2 ^ nat (bitlen ?n)" using bitlen_bounds [OF n] by simp
    then have "of_int (?n + 1) \<le> (of_int (2 ^ nat (bitlen ?n)) :: rat)"
      by (simp only: of_int_le_iff)
    moreover have "of_int (?n + 1) = (of_int \<lceil>1 / x\<rceil> :: rat)" by simp
    ultimately have "1 / x \<le> of_int (2 ^ nat (bitlen ?n))" by linarith
    moreover have "(2 :: rat) powi (bitlen ?n) = of_int (2 ^ nat (bitlen ?n))"
      using bitlen_nonneg [of ?n] by (simp add: power_int_def)
    ultimately have "1 / x \<le> 2 powi (bitlen ?n)" by simp
    moreover have "2 powi (bitlen ?n - 1) < 1 / x"
      using bitlen_rat(1) [OF n] by linarith
    ultimately have "1 / 2 powi (bitlen ?n) \<le> x" "x < 1 / 2 powi (bitlen ?n - 1)"
      using assms by (simp_all add: field_simps)
    moreover have "(2 :: rat) powi (- bitlen ?n) = 1 / 2 powi (bitlen ?n)"
      "(2 :: rat) powi (- bitlen ?n + 1) = 1 / 2 powi (bitlen ?n - 1)"
      using power_int_minus_divide [of "2 :: rat" "bitlen ?n - 1"]
      by (simp_all add: power_int_minus_divide)
    ultimately show ?thesis using False by (simp add: binade_def)
  qed
  then show "2 powi (binade x) \<le> x" "x < 2 powi (binade x + 1)" by simp_all
qed

lemma powi_less_cancel:
  assumes "(2 :: rat) powi a < 2 powi b"
  shows "a < b"
proof (rule ccontr)
  assume "\<not> a < b"
  then have "(2 :: rat) powi b \<le> 2 powi a" by (intro power_int_increasing) simp_all
  with assms show False by simp
qed

lemma ulp_pos [simp]: "0 < ulp x"
  by (simp add: ulp_def)

lemma ulp_small:
  assumes "0 < x"
  shows "2 ^ 52 * ulp x \<le> x"
proof -
  have "(2 :: rat) ^ 52 * 2 powi (binade x - 52) = 2 powi (binade x)"
    using power_int_diff [of "2 :: rat" "binade x" 52] by simp
  then show ?thesis using assms binade_bounds(1) [OF assms] by (simp add: ulp_def)
qed

lemma fl_zero [simp]: "fl 0 = 0" "fl_down 0 = 0"
  by (simp_all add: fl_def fl_down_def round_to_def)

text \<open>Rounding to nearest errs by at most \<open>2 ^ -53\<close> of the number.\<close>

lemma fl_error:
  assumes "0 \<le> x"
  shows "2 ^ 53 * \<bar>fl x - x\<bar> \<le> x"
proof (cases "x = 0")
  case False
  with assms have x: "0 < x" by simp
  have "\<bar>of_int (round_even (x / ulp x)) - x / ulp x\<bar> * ulp x \<le> 1 / 2 * ulp x"
    by (rule mult_right_mono [OF round_even_error]) (simp add: less_imp_le)
  moreover have "fl x - x = (of_int (round_even (x / ulp x)) - x / ulp x) * ulp x"
    using False by (simp add: fl_def round_to_def algebra_simps less_imp_neq [OF ulp_pos, symmetric])
  then have "\<bar>fl x - x\<bar> = \<bar>of_int (round_even (x / ulp x)) - x / ulp x\<bar> * ulp x"
    by (simp only: abs_mult abs_of_pos [OF ulp_pos])
  ultimately have "\<bar>fl x - x\<bar> \<le> 1 / 2 * ulp x" by simp
  with ulp_small [OF x] show ?thesis by simp
qed simp

lemma fl_bounds:
  assumes "0 \<le> x"
  shows "(1 - 1 / 2 ^ 53) * x \<le> fl x" and "fl x \<le> (1 + 1 / 2 ^ 53) * x" and "0 \<le> fl x"
proof -
  have "\<bar>fl x - x\<bar> \<le> x / 2 ^ 53" using fl_error [OF assms] by simp
  then have "x - x / 2 ^ 53 \<le> fl x" "fl x \<le> x + x / 2 ^ 53" by linarith+
  then show lo: "(1 - 1 / 2 ^ 53) * x \<le> fl x" and "fl x \<le> (1 + 1 / 2 ^ 53) * x"
    by (simp_all add: algebra_simps)
  have "0 \<le> (1 - 1 / 2 ^ 53) * x" using assms by simp
  with lo show "0 \<le> fl x" by linarith
qed

text \<open>Integers of at most 53 bits are exact, and rounding does not cross a power of two.\<close>

lemma exact_quotient:
  assumes "binade \<bar>x\<bar> \<le> 52 + k"
  shows "2 powi k / ulp x = of_int (2 ^ nat (52 + k - binade \<bar>x\<bar>))"
proof -
  have "2 powi k / ulp x = 2 powi (k - (binade \<bar>x\<bar> - 52))"
    by (simp add: ulp_def power_int_diff)
  then show ?thesis using assms by (simp add: power_int_def algebra_simps)
qed

lemma fl_nat:
  assumes "n < 2 ^ 53"
  shows "fl (of_nat n) = of_nat n"
proof (cases "n = 0")
  case False
  then have x: "0 < (of_nat n :: rat)" by simp
  have "(2 :: rat) powi (binade (of_nat n)) < 2 powi 53"
    using binade_bounds(1) [OF x] assms by (simp add: le_less_trans)
  then have "binade (of_nat n) \<le> 52" using powi_less_cancel by fastforce
  then have "of_nat n / ulp (of_nat n) = of_int (int n * 2 ^ nat (52 - binade (of_nat n)))"
    using exact_quotient [of "of_nat n" 0] by (simp add: divide_inverse)
  then have "of_int (round_even (of_nat n / ulp (of_nat n))) = (of_nat n / ulp (of_nat n) :: rat)"
    by (simp only: round_even_of_int)
  then show ?thesis
    using False by (simp add: fl_def round_to_def less_imp_neq [OF ulp_pos, symmetric])
qed simp

lemma fl_below_power:
  assumes "0 < x" and "x \<le> 2 powi k"
  shows "fl x \<le> 2 powi k"
proof -
  have "(2 :: rat) powi (binade x) \<le> 2 powi k" using binade_bounds(1) [OF assms(1)] assms(2) by simp
  also have "(2 :: rat) powi k < 2 powi (k + 1)" by (simp add: power_int_add)
  finally have "binade x \<le> k" using powi_less_cancel [of "binade x" "k + 1"] by simp
  then have q: "2 powi k / ulp x = of_int (2 ^ nat (52 + k - binade x))"
    using exact_quotient [of x k] assms(1) by simp
  have "x / ulp x \<le> 2 powi k / ulp x" using assms(2) by (simp add: divide_right_mono less_imp_le)
  then have "round_even (x / ulp x) \<le> 2 ^ nat (52 + k - binade x)"
    unfolding q by (rule round_even_le)
  then have "of_int (round_even (x / ulp x)) \<le> 2 powi k / ulp x"
    unfolding q by (simp only: of_int_le_iff)
  then show ?thesis
    using assms(1) by (simp add: fl_def round_to_def pos_le_divide_eq)
qed

lemma fl_minus: "fl (- x) = - fl x"
  by (simp add: fl_def round_to_def ulp_def round_even_minus)

lemma fl_pos: "0 < x \<Longrightarrow> 0 < fl x"
  using fl_bounds(1) [of x] by (simp add: less_le_trans)

text \<open>Rounding down loses less than \<open>2 ^ -52\<close> of the number.\<close>

lemma fl_down_bounds:
  assumes "0 < x"
  shows "fl_down x \<le> x" and "(1 - 1 / 2 ^ 52) * x < fl_down x"
proof -
  have "of_int \<lfloor>x / ulp x\<rfloor> \<le> x / ulp x" "x / ulp x < of_int \<lfloor>x / ulp x\<rfloor> + 1" by linarith+
  then have "of_int \<lfloor>x / ulp x\<rfloor> * ulp x \<le> x" "x < (of_int \<lfloor>x / ulp x\<rfloor> + 1) * ulp x"
    by (simp_all only: pos_le_divide_eq [OF ulp_pos] pos_divide_less_eq [OF ulp_pos])
  with ulp_small [OF assms] assms
  show "fl_down x \<le> x" and "(1 - 1 / 2 ^ 52) * x < fl_down x"
    by (simp_all add: fl_down_def round_to_def algebra_simps)
qed

section \<open>Counting roundings\<close>

text \<open>
  \<open>near k a x\<close>: the number \<open>x\<close> is \<open>a\<close> after at most \<open>k\<close> roundings. Each operation adds one, a
  quotient adds those of its arguments.
\<close>

definition near :: "nat \<Rightarrow> rat \<Rightarrow> rat \<Rightarrow> bool" where
  "near k a x \<longleftrightarrow> 0 \<le> a \<and> (1 - 1 / 2 ^ 53) ^ k * a \<le> x \<and> (1 - 1 / 2 ^ 53) ^ k * x \<le> a"

lemma near_nonneg: "near k a x \<Longrightarrow> 0 \<le> x"
proof -
  assume "near k a x"
  moreover from this have "0 \<le> (1 - 1 / 2 ^ 53) ^ k * a" by (simp add: near_def)
  ultimately show ?thesis unfolding near_def by linarith
qed

lemma near_refl: "0 \<le> a \<Longrightarrow> near 0 a a"
  by (simp add: near_def)

lemma near_fl:
  assumes "near k a x"
  shows "near (Suc k) a (fl x)"
proof -
  define c :: rat where "c = 1 - 1 / 2 ^ 53"
  have c: "0 \<le> c" "c * (1 + 1 / 2 ^ 53) \<le> 1" by (simp_all add: c_def)
  have n: "0 \<le> a" "c ^ k * a \<le> x" "c ^ k * x \<le> a" and x: "0 \<le> x"
    using assms near_nonneg [OF assms] by (simp_all only: near_def c_def)
  have "c * (c ^ k * a) \<le> c * x" by (rule mult_left_mono [OF n(2) c(1)])
  also have "\<dots> \<le> fl x" unfolding c_def by (rule fl_bounds(1) [OF x])
  finally have lo: "c ^ Suc k * a \<le> fl x" by (simp add: mult.assoc)
  have "c * fl x \<le> c * ((1 + 1 / 2 ^ 53) * x)" by (rule mult_left_mono [OF fl_bounds(2) [OF x] c(1)])
  also have "\<dots> \<le> 1 * x" unfolding mult.assoc [symmetric] by (rule mult_right_mono [OF c(2) x])
  finally have "c ^ k * (c * fl x) \<le> c ^ k * x" using c(1) by (simp add: mult_left_mono)
  with n(3) have "c ^ Suc k * fl x \<le> a" by (simp add: mult.assoc mult.left_commute)
  with lo n(1) show ?thesis by (simp only: near_def c_def)
qed

lemma near_div:
  assumes "near j a x" and "near k t d" and "0 < t"
  shows "near (j + k) (a / t) (x / d)"
proof -
  let ?c = "(1 - 1 / 2 ^ 53) :: rat"
  have "0 < ?c ^ k * t" using assms(3) by simp
  then have d: "0 < d" using assms(2) unfolding near_def by linarith
  have x: "0 \<le> x" by (rule near_nonneg [OF assms(1)])
  have a: "0 \<le> a" using assms(1) by (simp add: near_def)
  have "(?c ^ j * a) * (?c ^ k * d) \<le> x * t"
    using assms(1,2) x d by (intro mult_mono) (simp_all add: near_def)
  moreover have "(?c ^ j * x) * (?c ^ k * t) \<le> a * d"
    using assms x d a by (intro mult_mono) (simp_all add: near_def)
  ultimately show ?thesis
    using d assms(3) a by (simp add: near_def power_add field_simps)
qed

lemma near_scale: "near k a x \<Longrightarrow> 0 \<le> c \<Longrightarrow> near k (a * c) (x * c)"
  unfolding near_def mult.assoc [symmetric] by (elim conjE, intro conjI mult_right_mono mult_nonneg_nonneg)

lemma near_add:
  assumes "near k a x" and "0 \<le> b"
  shows "near k (b + a) (b + x)"
proof -
  have "(1 - 1 / 2 ^ 53 :: rat) ^ k \<le> 1" by (intro power_le_one) simp_all
  then have "(1 - 1 / 2 ^ 53) ^ k * b \<le> b" using assms(2) by (intro mult_left_le_one_le) simp_all
  moreover have "0 \<le> a" "(1 - 1 / 2 ^ 53) ^ k * a \<le> x" "(1 - 1 / 2 ^ 53) ^ k * x \<le> a"
    using assms(1) unfolding near_def by blast+
  ultimately show ?thesis
    using assms(2) unfolding near_def distrib_left by (intro conjI) linarith+
qed

lemma near_double_of: "near 1 (of_nat (unat v)) (double_of v)"
  using near_fl [OF near_refl, of "of_nat (unat v)"] by (simp add: double_of_def del: of_nat_unat)

lemma near_mono:
  assumes "near j a x" and "j \<le> k"
  shows "near k a x"
proof -
  have c: "(1 - 1 / 2 ^ 53 :: rat) ^ k \<le> (1 - 1 / 2 ^ 53) ^ j"
    by (intro power_decreasing assms(2)) simp_all
  have "(1 - 1 / 2 ^ 53) ^ k * a \<le> (1 - 1 / 2 ^ 53) ^ j * a"
    and "(1 - 1 / 2 ^ 53) ^ k * x \<le> (1 - 1 / 2 ^ 53) ^ j * x"
    using near_nonneg [OF assms(1)] assms(1) by (intro mult_right_mono c; simp add: near_def)+
  with assms(1) show ?thesis unfolding near_def by linarith
qed

text \<open>Five roundings cost at most a \<open>2 ^ -50\<close> part.\<close>

lemma near_error:
  assumes "near k a x" and "k \<le> 5"
  shows "2 ^ 50 * \<bar>x - a\<bar> \<le> a"
proof -
  have "near 5 a x" by (rule near_mono [OF assms])
  then have "0 \<le> a" "(1 - 1 / 2 ^ 53) ^ 5 * a \<le> x" "(1 - 1 / 2 ^ 53) ^ 5 * x \<le> a"
    by (simp_all add: near_def)
  then have "a - x \<le> a / 2 ^ 50" "x - a \<le> a / 2 ^ 50" by (simp_all add: eval_nat_numeral)
  then have "\<bar>x - a\<bar> \<le> a / 2 ^ 50" by linarith
  then show ?thesis by simp
qed

end
