(* ===== verification/Report_Worker.thy ===== *)
theory Report_Worker
  imports Group_Stats Float64
begin

text \<open>
  The consumer's report thread (\<open>RioConsumer::ReportWorker\<close>, RioConsumer.cpp). One
  iteration of its loop is a function of the clock reading, the statistics map at that
  moment and the thread's local variables. The loop runs while \<open>ShouldStop\<close> returns true;
  the list of ticks holds the iterations in which it did.

  The guard compares the \<open>double\<close> \<open>(double)(now - prevReportTime) / (double)ONE_SECOND\<close> with
  the period; \<open>elapsed_exceeds\<close> shows that its rounding never decides the comparison. A row
  records the difference of the clock readings, from which theory Report_Format computes the
  printed rates and the text.
\<close>

section \<open>The thread\<close>

definition ONE_SECOND :: nat where "ONE_SECOND = 1000000000"

definition REPORT_PERIOD_SEC :: double where "REPORT_PERIOD_SEC = 4"

text \<open>\<open>timeDelta\<close>: two conversions and a division, each rounded to nearest.\<close>

definition elapsed :: "u64 \<Rightarrow> double" where
  "elapsed dt = fl (double_of dt / fl (of_nat ONE_SECOND))"

record ReportRow =
  rowStats :: TotalStats_t
  rxDeltaOoo :: u64
  rxDeltaDropped :: u64
  rxDeltaPackets :: u64
  rxDeltaBytes :: u64
  timeDelta :: u64

datatype report_line = Header | Row ReportRow

record ReportState =
  prevReportTime :: u64
  reportCount :: int
  prevStats :: TotalStats_t

definition ReportState_init :: ReportState where
  "ReportState_init = \<lparr>prevReportTime = 0, reportCount = 0, prevStats = TotalStats_init\<rparr>"

definition report_row :: "TotalStats_t \<Rightarrow> TotalStats_t \<Rightarrow> u64 \<Rightarrow> ReportRow" where
  "report_row prev statsNow dt =
     \<lparr>rowStats = statsNow,
      rxDeltaOoo = TotalOutOfOrder statsNow - TotalOutOfOrder prev,
      rxDeltaDropped = TotalDrops statsNow - min (TotalDrops prev) (TotalDrops statsNow),
      rxDeltaPackets = TotalPackets statsNow - TotalPackets prev,
      rxDeltaBytes = TotalBytes statsNow - TotalBytes prev,
      timeDelta = dt\<rparr>"

definition ReportWorker_step ::
    "u64 \<Rightarrow> McGroupStatsMap \<Rightarrow> ReportState \<Rightarrow> ReportState \<times> report_line list" where
  "ReportWorker_step now groups st =
     (let dt = now - prevReportTime st in
      if elapsed dt > REPORT_PERIOD_SEC then
        (let count = reportCount st + 1;
             statsNow = GetMcTotals groups
         in (\<lparr>prevReportTime = now, reportCount = count, prevStats = statsNow\<rparr>,
             (if count mod 16 = 1 then [Header] else []) @ [Row (report_row (prevStats st) statsNow dt)]))
      else (st, []))"

fun ReportWorker :: "(u64 \<times> McGroupStatsMap) list \<Rightarrow> ReportState \<Rightarrow> ReportState \<times> report_line list" where
  "ReportWorker [] st = (st, [])"
| "ReportWorker ((now, groups) # ticks) st =
     (let (st1, out1) = ReportWorker_step now groups st;
          (st2, out2) = ReportWorker ticks st1
      in (st2, out1 @ out2))"

section \<open>Lemmas\<close>

text \<open>
  Four seconds are exact, longer times round to more and shorter ones to no more: the
  floating-point guard compares the integers.
\<close>

lemma elapsed_exceeds: "REPORT_PERIOD_SEC < elapsed dt \<longleftrightarrow> 4 * ONE_SECOND < unat dt"
proof -
  obtain n where n: "unat dt = n" by simp
  have el: "elapsed dt = fl (fl (of_nat n) / 1000000000)"
    using fl_nat [of ONE_SECOND] by (simp add: elapsed_def double_of_def ONE_SECOND_def n)
  have "4 < elapsed dt \<longleftrightarrow> 4000000000 < n"
  proof (cases "4000000000 < n")
    case True
    then have "4000000001 \<le> (of_nat n :: rat)" using of_nat_mono [of 4000000001 n] by simp
    then have "4 < (1 - 1 / 2 ^ 53) * ((1 - 1 / 2 ^ 53) * (of_nat n :: rat) / 1000000000)" by simp
    also have "\<dots> \<le> (1 - 1 / 2 ^ 53) * (fl (of_nat n) / 1000000000)"
      by (intro mult_left_mono divide_right_mono fl_bounds(1)) simp_all
    also have "\<dots> \<le> elapsed dt" unfolding el by (intro fl_bounds(1)) (simp add: fl_bounds(3))
    finally show ?thesis using True by simp
  next
    case False
    then have "fl (of_nat n) = of_nat n" by (intro fl_nat) simp
    moreover from False have "(of_nat n :: rat) \<le> 4000000000" using of_nat_mono [of n 4000000000] by simp
    ultimately have "elapsed dt \<le> 4"
      using fl_below_power [of "of_nat n / 1000000000" 2] by (cases "n = 0") (simp_all add: el)
    with False show ?thesis by simp
  qed
  then show ?thesis by (simp add: REPORT_PERIOD_SEC_def ONE_SECOND_def n)
qed

lemmas ReportWorker_step_eq = ReportWorker_step_def [unfolded elapsed_exceeds]

fun rows_of :: "report_line list \<Rightarrow> ReportRow list" where
  "rows_of [] = []"
| "rows_of (Header # ls) = rows_of ls"
| "rows_of (Row r # ls) = r # rows_of ls"

lemma rows_of_append [simp]: "rows_of (xs @ ys) = rows_of xs @ rows_of ys"
  by (induction xs rule: rows_of.induct) auto

lemma report_row_sel [simp]:
  "rowStats (report_row p s dt) = s"
  "rxDeltaOoo (report_row p s dt) = TotalOutOfOrder s - TotalOutOfOrder p"
  "rxDeltaPackets (report_row p s dt) = TotalPackets s - TotalPackets p"
  "rxDeltaBytes (report_row p s dt) = TotalBytes s - TotalBytes p"
  "rxDeltaDropped (report_row p s dt) = TotalDrops s - min (TotalDrops p) (TotalDrops s)"
  "timeDelta (report_row p s dt) = dt"
  by (simp_all add: report_row_def)

lemma step_telescopes:
  assumes "ReportWorker_step now groups st = (st', out)"
  shows "sum_list (map rxDeltaPackets (rows_of out)) =
      TotalPackets (prevStats st') - TotalPackets (prevStats st)"
    and "sum_list (map rxDeltaBytes (rows_of out)) =
      TotalBytes (prevStats st') - TotalBytes (prevStats st)"
    and "sum_list (map rxDeltaOoo (rows_of out)) =
      TotalOutOfOrder (prevStats st') - TotalOutOfOrder (prevStats st)"
  using assms by (auto simp: ReportWorker_step_eq Let_def split: if_splits)

lemma worker_telescopes:
  assumes "ReportWorker ticks st = (st', out)"
  shows "sum_list (map rxDeltaPackets (rows_of out)) =
      TotalPackets (prevStats st') - TotalPackets (prevStats st)"
    and "sum_list (map rxDeltaBytes (rows_of out)) =
      TotalBytes (prevStats st') - TotalBytes (prevStats st)"
    and "sum_list (map rxDeltaOoo (rows_of out)) =
      TotalOutOfOrder (prevStats st') - TotalOutOfOrder (prevStats st)"
  using assms
  by (induction ticks st arbitrary: st' out rule: ReportWorker.induct)
     (auto simp: Let_def step_telescopes split: prod.splits)

lemma worker_last_row:
  "ReportWorker ticks st = (st', out) \<Longrightarrow>
     (if rows_of out = [] then st' = st else prevStats st' = rowStats (last (rows_of out)))"
proof (induction ticks st arbitrary: st' out rule: ReportWorker.induct)
  case (2 now groups ticks st)
  obtain st1 out1 where s1: "ReportWorker_step now groups st = (st1, out1)" by fastforce
  obtain st2 out2 where s2: "ReportWorker ticks st1 = (st2, out2)" by fastforce
  have "out = out1 @ out2" "st' = st2"
    using "2.prems" by (auto simp: s1 s2)
  moreover have "if rows_of out1 = [] then st1 = st
      else prevStats st1 = rowStats (last (rows_of out1))"
    using s1 by (auto simp: ReportWorker_step_eq Let_def split: if_splits)
  moreover note "2.IH" [OF s1 [symmetric] refl s2]
  ultimately show ?case by (auto split: if_splits)
qed simp

section \<open>Properties\<close>

text \<open>
  The periodic report loses nothing. Over any run of the report thread, the packet,
  byte and out-of-order deltas of its rows add up (as 64-bit counters) to the totals shown
  in the last row: no packet is reported twice or skipped between two reports.
\<close>

theorem report_deltas_telescope:
  assumes "ReportWorker ticks ReportState_init = (st, out)" and "rows_of out \<noteq> []"
  shows "let final = rowStats (last (rows_of out)) in
    sum_list (map rxDeltaPackets (rows_of out)) = TotalPackets final
    \<and> sum_list (map rxDeltaBytes (rows_of out)) = TotalBytes final
    \<and> sum_list (map rxDeltaOoo (rows_of out)) = TotalOutOfOrder final"
  using worker_telescopes [OF assms(1)] worker_last_row [OF assms(1)] assms(2)
  by (simp add: Let_def ReportState_init_def TotalStats_init_def)

theorem report_deltas_telescope_witness:
  "let g = McGroupStats_init\<lparr>Packets := 3, Bytes := 300\<rparr>;
       h = McGroupStats_init\<lparr>Packets := 9, Bytes := 900, OutOfOrder := 1\<rparr>;
       out = snd (ReportWorker [(5000000000, [(1, g)]), (7000000000, [(1, g)]),
         (10000000000, [(1, h)])] ReportState_init)
   in sum_list (map rxDeltaPackets (rows_of out)) = 9 \<and> length (rows_of out) = 2"
proof -
  let ?g = "McGroupStats_init\<lparr>Packets := 3, Bytes := 300\<rparr>"
  let ?h = "McGroupStats_init\<lparr>Packets := 9, Bytes := 900, OutOfOrder := 1\<rparr>"
  let ?ticks = "[(5000000000, [(1, ?g)]), (7000000000, [(1, ?g)]), (10000000000, [(1, ?h)])]"
  obtain st out where run: "ReportWorker ?ticks ReportState_init = (st, out)" by fastforce
  then have rows: "length (rows_of out) = 2" "TotalPackets (rowStats (last (rows_of out))) = 9"
    by (auto simp: ReportWorker_step_eq ReportState_init_def REPORT_PERIOD_SEC_def
        ONE_SECOND_def Let_def stats_simps)
  then have "rows_of out \<noteq> []" by auto
  from report_deltas_telescope [OF run this] rows show ?thesis
    by (simp add: run Let_def del: ReportWorker.simps)
qed

text \<open>
  A report row never shows a negative loss. The losses of a period are the increase of
  the drop total since the previous report, and zero when late packets have lowered it,
  never a wrapped-around value; a row is printed only when more than four seconds have
  passed on the clock, and the next period starts at that reading.
\<close>

theorem report_missing_saturates:
  "case ReportWorker_step now groups st of (st', out) \<Rightarrow>
    (if unat (now - prevReportTime st) > 4 * 10 ^ 9
     then rows_of out = [report_row (prevStats st) (GetMcTotals groups) (now - prevReportTime st)]
       \<and> unat (rxDeltaDropped (hd (rows_of out))) =
           unat (TotalDrops (GetMcTotals groups)) - unat (TotalDrops (prevStats st))
       \<and> prevStats st' = GetMcTotals groups \<and> prevReportTime st' = now
       \<and> reportCount st' = reportCount st + 1
       \<and> (Header \<in> set out \<longleftrightarrow> reportCount st mod 16 = 0)
     else out = [] \<and> st' = st)"
proof -
  have m: "(reportCount st + 1) mod 16 = 1 \<longleftrightarrow> reportCount st mod 16 = 0" by presburger
  have d: "unat (a - min b a) = unat a - unat b" for a b :: u64
    by (auto simp: min_def unat_diff_le word_le_nat_alt)
  show ?thesis
    by (auto simp: ReportWorker_step_eq Let_def REPORT_PERIOD_SEC_def ONE_SECOND_def d m)
qed

end
