(* ===== verification/Report_Format.thy ===== *)
theory Report_Format
  imports Float64 Cpp_Std Report_Worker
begin

text \<open>
  The text of the periodic report: \<open>FormatValueToSI\<close> (StringUtils.cpp), \<open>Percent\<close>
  (StringUtils.hpp), and \<open>PrintReportHeader\<close> and \<open>PrintReportRow\<close> of the consumer with the
  rates \<open>ReportWorker\<close> hands to the latter (RioConsumer.cpp). Lines are strings without their
  newline. Printing a \<open>double\<close> with a fixed number of decimals rounds its exact value in the
  current rounding direction, as the C standard says of a conforming \<open>printf\<close>.
\<close>

section \<open>Fixed-point text\<close>

text \<open>\<open>std::setw\<close> and the width of \<open>printf\<close>: blanks on the left, never a cut.\<close>

definition pad :: "nat \<Rightarrow> string \<Rightarrow> string" where
  "pad w s = replicate (w - length s) CHR '' '' @ s"

text \<open>The number \<open>m / 10 ^ p\<close> with \<open>p\<close> decimals.\<close>

definition decimals :: "nat \<Rightarrow> nat \<Rightarrow> string" where
  "decimals p m =
     (if p = 0 then dec_of_nat m
      else let f = dec_of_nat (m mod 10 ^ p)
           in dec_of_nat (m div 10 ^ p) @ ''.'' @ replicate (p - length f) CHR ''0'' @ f)"

definition fixed_text :: "(rat \<Rightarrow> int) \<Rightarrow> nat \<Rightarrow> double \<Rightarrow> string" where
  "fixed_text rnd p x =
     (if x < 0 then ''-'' else '''') @ decimals p (nat \<bar>rnd (x * 10 ^ p)\<bar>)"

section \<open>FormatValueToSI\<close>

text \<open>
  From \<open>std::fesetround(FE_DOWNWARD)\<close> to the restoring call both the division and the printing
  round down. The precision is a number of decimals; negative ones do not occur.
\<close>

definition FormatValueToSI :: "double \<Rightarrow> nat \<Rightarrow> string" where
  "FormatValueToSI value presision =
     (let BaseWidth = 4 + presision
      in if value < 1000 then pad BaseWidth (fixed_text floor 0 value)
         else if value < 1000000 then
           pad (BaseWidth - 1) (fixed_text floor (if value < 100000 then presision else 0)
             (fl_down (value / 1000))) @ ''K''
         else if value < 1000000000 then
           pad (BaseWidth - 1) (fixed_text floor (if value < 100000000 then presision else 0)
             (fl_down (value / 1000000))) @ ''M''
         else
           pad (BaseWidth - 1) (fixed_text floor (if value < 100000000000 then presision else 0)
             (fl_down (value / 1000000000))) @ ''G'')"

section \<open>Percent\<close>

text \<open>
  The format \<open>%*.*f\<close>: a negative width aligns to the left, a negative precision counts as
  absent, which means six. The buffer holds 127 characters and the terminator.
\<close>

record Percent =
  ratio :: double
  len :: int
  dec :: int

definition Percent_of :: "double \<Rightarrow> Percent" where
  "Percent_of r = \<lparr>ratio = r, len = 5, dec = 2\<rparr>"

definition Percent_put :: "string \<Rightarrow> Percent \<Rightarrow> string" where
  "Percent_put os p =
     (let t = fixed_text round_even (if dec p < 0 then 6 else nat (dec p)) (fl (ratio p * 100));
          field = (if len p < 0 then t @ replicate (nat (- len p) - length t) CHR '' ''
                   else pad (nat (len p)) t)
      in os @ take 127 (field @ '' %''))"

section \<open>The report\<close>

definition rxPps :: "ReportRow \<Rightarrow> double" where
  "rxPps r = fl (double_of (rxDeltaPackets r) / elapsed (timeDelta r))"

definition rxBps :: "ReportRow \<Rightarrow> double" where
  "rxBps r = fl (fl (double_of (rxDeltaBytes r) * 8) / elapsed (timeDelta r))"

definition PrintReportHeader :: "string list" where
  "PrintReportHeader =
    [''|               TOTALS                 |               THIS PERIOD                   |'',
     ''|------------|------------|------------|------------|------------|-----------|-------|'',
     ''|    PKTS    |     OOO    |   MISSING  |     OOO    |   MISSING  |    PPS    |  BPS  |'',
     ''|------------|------------|------------|------------|------------|-----------|-------|'']"

definition llu :: "nat \<Rightarrow> u64 \<Rightarrow> string" where
  "llu w v = pad w (dec_of_nat (unat v))"

definition PrintReportRow ::
    "TotalStats_t \<Rightarrow> u64 \<Rightarrow> u64 \<Rightarrow> double \<Rightarrow> double \<Rightarrow> string" where
  "PrintReportRow stats oooNow missNow pps bps =
     ''| '' @ llu 10 (TotalPackets stats) @ '' | '' @ llu 10 (TotalOutOfOrder stats)
     @ '' | '' @ llu 10 (TotalDrops stats) @ '' | '' @ llu 10 oooNow @ '' | '' @ llu 10 missNow
     @ '' | '' @ pad 9 (fixed_text round_even 2 pps) @ '' | '' @ FormatValueToSI bps 1 @ '' |''"

fun print_line :: "report_line \<Rightarrow> string list" where
  "print_line Header = PrintReportHeader"
| "print_line (Row r) =
     [PrintReportRow (rowStats r) (rxDeltaOoo r) (rxDeltaDropped r) (rxPps r) (rxBps r)]"

section \<open>Lemmas\<close>

lemma length_pad: "length (pad w s) = max w (length s)"
  by (simp add: pad_def)

lemma length_dec_of_nat: "n < 10 ^ k \<Longrightarrow> 0 < k \<Longrightarrow> length (dec_of_nat n) \<le> k"
proof (induction k arbitrary: n)
  case (Suc k)
  show ?case
  proof (cases "n < 10")
    case False
    have "0 < k" using Suc.prems False by (cases k) auto
    moreover have "n div 10 < 10 ^ k" using Suc.prems(1) by simp
    ultimately have "length (dec_of_nat (n div 10)) \<le> k" by (intro Suc.IH)
    with False show ?thesis by (subst dec_of_nat.simps) simp
  qed (subst dec_of_nat.simps, simp)
qed simp

lemma length_decimals:
  assumes "m < 10 ^ (k + p)" and "0 < k"
  shows "length (decimals p m) \<le> k + (if p = 0 then 0 else p + 1)"
proof -
  have "m div 10 ^ p < 10 ^ k" using assms(1) by (simp add: power_add less_mult_imp_div_less)
  then have "length (dec_of_nat (m div 10 ^ p)) \<le> k" using assms(2) by (rule length_dec_of_nat)
  moreover have "length (dec_of_nat (m mod 10 ^ p)) \<le> p" if "p \<noteq> 0"
    using that by (intro length_dec_of_nat) simp_all
  ultimately show ?thesis
    using length_dec_of_nat [of m k] assms by (cases "p = 0") (simp_all add: decimals_def Let_def)
qed

lemma length_llu: "unat v < 10 ^ 10 \<Longrightarrow> length (llu 10 v) = 10"
  using length_dec_of_nat [of "unat v" 10] by (simp add: llu_def length_pad)

text \<open>A number below \<open>10 ^ k\<close>, printed downwards, has at most \<open>k\<close> digits before the point.\<close>

lemma length_fixed_down:
  assumes "0 \<le> x" and "x < 10 ^ k" and "0 < k"
  shows "length (fixed_text floor p x) \<le> k + (if p = 0 then 0 else p + 1)"
proof -
  have "x * 10 ^ p < 10 ^ (k + p)" using assms(2) by (simp add: power_add)
  then have "\<lfloor>x * 10 ^ p\<rfloor> < 10 ^ (k + p)" by (simp add: floor_less_iff)
  then have "nat \<bar>\<lfloor>x * 10 ^ p\<rfloor>\<bar> < 10 ^ (k + p)"
    using assms(1) by (simp add: nat_less_iff)
  from length_decimals [OF this assms(3)] show ?thesis
    using assms(1) by (simp add: fixed_text_def)
qed

text \<open>What is printed downwards is at most the number and less than one unit below it.\<close>

lemma fixed_down:
  assumes "0 \<le> x"
  shows "\<exists>m. fixed_text floor p x = decimals p m \<and> of_nat m \<le> x * 10 ^ p \<and> x * 10 ^ p < of_nat m + 1"
proof -
  have "0 \<le> \<lfloor>x * 10 ^ p\<rfloor>" using assms by simp
  then have "of_nat (nat \<bar>\<lfloor>x * 10 ^ p\<rfloor>\<bar>) = (of_int \<lfloor>x * 10 ^ p\<rfloor> :: rat)" by simp
  moreover have "of_int \<lfloor>x * 10 ^ p\<rfloor> \<le> x * 10 ^ p" "x * 10 ^ p < of_int \<lfloor>x * 10 ^ p\<rfloor> + 1"
    by linarith+
  moreover have "fixed_text floor p x = decimals p (nat \<bar>\<lfloor>x * 10 ^ p\<rfloor>\<bar>)"
    using assms by (simp add: fixed_text_def)
  ultimately show ?thesis by metis
qed

text \<open>The scaled branches: the quotient is rounded down, then printed downwards.\<close>

lemma scaled_down:
  assumes "0 < v" and "0 < s"
  shows "\<exists>m. fixed_text floor d (fl_down (v / s)) = decimals d m
    \<and> of_nat m * s / 10 ^ d \<le> v \<and> v < (of_nat m + 1) * s / 10 ^ d + v / 2 ^ 52"
proof -
  let ?x = "fl_down (v / s)"
  have x: "?x \<le> v / s" "(1 - 1 / 2 ^ 52) * (v / s) < ?x"
    using fl_down_bounds [of "v / s"] assms by simp_all
  moreover have "0 < (1 - 1 / 2 ^ 52) * (v / s)" using assms by simp
  ultimately have "0 \<le> ?x" by linarith
  from fixed_down [OF this, of d] obtain m where m: "fixed_text floor d ?x = decimals d m"
    "of_nat m \<le> ?x * 10 ^ d" "?x * 10 ^ d < of_nat m + 1" by blast
  have "of_nat m * s \<le> ?x * 10 ^ d * s" "?x * 10 ^ d * s < (of_nat m + 1) * s"
    using m(2,3) assms(2) by simp_all
  then have "of_nat m * s / 10 ^ d \<le> ?x * s" "?x * s < (of_nat m + 1) * s / 10 ^ d"
    by (simp_all add: pos_divide_le_eq pos_less_divide_eq mult.assoc mult.commute [of s])
  moreover have "?x * s \<le> v" using x(1) assms(2) by (simp add: pos_le_divide_eq)
  moreover have "(1 - 1 / 2 ^ 52) * v < ?x * s"
    using x(2) assms(2) by (simp add: pos_divide_less_eq)
  then have "v < ?x * s + v / 2 ^ 52" by (simp add: algebra_simps)
  ultimately show ?thesis using m(1) by (intro exI [of _ m] conjI) linarith+
qed

lemma scaled_width:
  assumes "0 < v" and "0 < s" and "v < 10 ^ k * s" and "0 < k"
    and "k + (if d = 0 then 0 else d + 1) \<le> w"
  shows "length (pad w (fixed_text floor d (fl_down (v / s)))) = w"
proof -
  have "fl_down (v / s) < 10 ^ k"
    using fl_down_bounds(1) [of "v / s"] assms(1-3) by (simp add: le_less_trans pos_divide_less_eq)
  moreover have "0 < (1 - 1 / 2 ^ 52) * (v / s)" using assms(1,2) by simp
  then have "0 \<le> fl_down (v / s)" using fl_down_bounds(2) [of "v / s"] assms(1,2) by (meson divide_pos_pos less_le_trans less_imp_le less_trans)
  ultimately have "length (fixed_text floor d (fl_down (v / s))) \<le> w"
    using length_fixed_down [of _ k d] assms(4,5) by fastforce
  then show ?thesis by (simp add: length_pad)
qed

lemma SI_width:
  assumes "0 \<le> v" and "v < 10 ^ (12 + presision)"
  shows "length (FormatValueToSI v presision) = 4 + presision"
proof (cases "v < 1000")
  case True
  then have "length (fixed_text floor 0 v) \<le> 3"
    using length_fixed_down [of v 3 0] assms(1) by simp
  with True show ?thesis by (simp add: FormatValueToSI_def Let_def length_pad)
next
  case False
  then have pos: "0 < v" by simp
  have G: "v < 10 ^ (3 + presision) * 1000000000"
    using assms(2) by (simp add: power_add)
  show ?thesis
    using False pos G
      scaled_width [of v 1000 2 presision "3 + presision"]
      scaled_width [of v 1000 3 0 "3 + presision"]
      scaled_width [of v 1000000 2 presision "3 + presision"]
      scaled_width [of v 1000000 3 0 "3 + presision"]
      scaled_width [of v 1000000000 2 presision "3 + presision"]
      scaled_width [of v 1000000000 "3 + presision" 0 "3 + presision"]
    by (simp add: FormatValueToSI_def Let_def)
qed

section \<open>Properties of FormatValueToSI\<close>

text \<open>
  \<open>FormatValueToSI\<close> keeps its column: every value from zero up to \<open>10 ^ (12 + presision)\<close>
  is shown with exactly \<open>4 + presision\<close> characters. Rounding down is what makes this true:
  99.96K would become 100.0K when rounded to nearest.
\<close>

theorem FormatValueToSI_width:
  assumes "0 \<le> v" and "v < 10 ^ (12 + presision)"
  shows "length (FormatValueToSI v presision) = 4 + presision"
  using assms by (rule SI_width)

theorem FormatValueToSI_width_witness:
  "length (FormatValueToSI 99960 1) = 5"
  using FormatValueToSI_width [of 99960 1] by simp

text \<open>
  What \<open>FormatValueToSI\<close> shows is a lower bound of the value in the unit of its suffix,
  and less than one unit of the last shown decimal below it, apart from the rounding of the
  division (a \<open>2 ^ -52\<close> part of the value). The suffix fits the magnitude.
\<close>

theorem FormatValueToSI_value:
  assumes "0 \<le> v"
  shows "\<exists>w m d s unit. FormatValueToSI v presision = pad w (decimals d m) @ unit
    \<and> (s, unit) = (if v < 10 ^ 3 then (1, '''') else if v < 10 ^ 6 then (10 ^ 3, ''K'')
        else if v < 10 ^ 9 then (10 ^ 6, ''M'') else (10 ^ 9, ''G''))
    \<and> (d = presision \<or> d = 0)
    \<and> of_nat m * s / 10 ^ d \<le> v \<and> v < (of_nat m + 1) * s / 10 ^ d + v / 2 ^ 52"
proof (cases "v < 1000")
  case True
  obtain m where m: "fixed_text floor 0 v = decimals 0 m" "of_nat m \<le> v" "v < of_nat m + 1"
    using fixed_down [OF assms, of 0] by auto
  have "v < of_nat m + 1 + v / 2 ^ 52" using m(3) assms by simp
  with True m show ?thesis
    by (intro exI [of _ "4 + presision"] exI [of _ m] exI [of _ 0] exI [of _ 1] exI [of _ "''''"])
       (simp add: FormatValueToSI_def Let_def)
next
  case False
  then have pos: "0 < v" by simp
  define s :: rat where "s = (if v < 10 ^ 6 then 10 ^ 3 else if v < 10 ^ 9 then 10 ^ 6 else 10 ^ 9)"
  define unit where "unit = (if v < 10 ^ 6 then ''K'' else if v < 10 ^ 9 then ''M'' else ''G'')"
  define d where "d = (if v < 100 * s then presision else 0)"
  have "0 < s" by (simp add: s_def)
  from scaled_down [OF pos this, of d] obtain m where
    m: "fixed_text floor d (fl_down (v / s)) = decimals d m"
      "of_nat m * s / 10 ^ d \<le> v" "v < (of_nat m + 1) * s / 10 ^ d + v / 2 ^ 52" by blast
  have shown: "FormatValueToSI v presision =
      pad (3 + presision) (fixed_text floor d (fl_down (v / s))) @ unit"
    using False by (simp add: FormatValueToSI_def Let_def s_def unit_def d_def)
  have "(s, unit) = (if v < 10 ^ 3 then (1, '''') else if v < 10 ^ 6 then (10 ^ 3, ''K'')
        else if v < 10 ^ 9 then (10 ^ 6, ''M'') else (10 ^ 9, ''G''))"
    using False by (simp add: s_def unit_def)
  moreover have "d = presision \<or> d = 0" by (simp add: d_def)
  ultimately show ?thesis
    unfolding shown m(1) using m(2,3)
    by (intro exI [of _ "3 + presision"] exI [of _ m] exI [of _ d] exI [of _ s] exI [of _ unit] conjI) simp_all
qed

theorem FormatValueToSI_value_witness:
  "\<exists>w m d. FormatValueToSI 1130 1 = pad w (decimals d m) @ ''K''
    \<and> of_nat m * 1000 / 10 ^ d \<le> (1130 :: rat)"
  using FormatValueToSI_value [of 1130 1] by auto

text \<open>
  A value that is exactly a number of tenths in its unit can be shown one tenth too low: the
  quotient 1.1 is not a \<open>double\<close>, the division rounds it below 1.1, and the printing cuts it.
\<close>

lemma FormatValueToSI_low:
  "FormatValueToSI 1100 1 = '' 1.0K''" "FormatValueToSI 1125 1 = '' 1.1K''"
  "FormatValueToSI 99960 1 = ''99.9K''" "FormatValueToSI 2000 1 = '' 2.0K''"
  by code_simp+

section \<open>The rates\<close>

lemma near_elapsed: "near (Suc 1) (of_nat (unat dt) / 10 ^ 9) (elapsed dt)"
proof -
  have "near 1 (of_nat (unat dt) / 10 ^ 9) (double_of dt / 10 ^ 9)"
    using near_div [OF near_double_of near_refl, of "10 ^ 9" dt] by simp
  then show ?thesis
    using near_fl [of 1] fl_nat [of ONE_SECOND]
    by (simp add: elapsed_def ONE_SECOND_def)
qed

lemma rxPps_error:
  assumes "0 < unat (timeDelta r)" and "t = of_nat (unat (timeDelta r)) / 10 ^ 9"
    and "n = of_nat (unat (rxDeltaPackets r))"
  shows "2 ^ 50 * \<bar>rxPps r - n / t\<bar> \<le> n / t"
proof -
  have "0 < t" using assms(1,2) by (simp del: of_nat_unat)
  then have "near (Suc (1 + Suc 1)) (n / t) (rxPps r)"
    unfolding rxPps_def assms(2,3) by (intro near_fl near_div near_double_of near_elapsed)
  then show ?thesis by (rule near_error) simp
qed

lemma rxBps_error:
  assumes "0 < unat (timeDelta r)" and "t = of_nat (unat (timeDelta r)) / 10 ^ 9"
    and "n = 8 * of_nat (unat (rxDeltaBytes r))"
  shows "2 ^ 50 * \<bar>rxBps r - n / t\<bar> \<le> n / t"
proof -
  have n: "n = of_nat (unat (rxDeltaBytes r)) * 8" using assms(3) by simp
  have "0 < t" using assms(1,2) by (simp del: of_nat_unat)
  then have "near (Suc (Suc 1 + Suc 1)) (n / t) (rxBps r)"
    unfolding rxBps_def assms(2) n
    by (intro near_fl near_div near_scale near_double_of near_elapsed) simp_all
  then show ?thesis by (rule near_error) simp
qed

lemma worker_rows_elapsed:
  "ReportWorker ticks st = (st', out) \<Longrightarrow> r \<in> set (rows_of out) \<Longrightarrow> 4 * ONE_SECOND < unat (timeDelta r)"
proof (induction ticks st arbitrary: st' out rule: ReportWorker.induct)
  case (2 now groups ticks st)
  obtain st1 out1 where s1: "ReportWorker_step now groups st = (st1, out1)" by fastforce
  obtain st2 out2 where s2: "ReportWorker ticks st1 = (st2, out2)" by fastforce
  have "out = out1 @ out2" using "2.prems" by (auto simp: s1 s2)
  moreover have "r \<in> set (rows_of out1) \<Longrightarrow> 4 * ONE_SECOND < unat (timeDelta r)"
    using s1 by (auto simp: ReportWorker_step_eq Let_def split: if_splits)
  moreover note "2.IH" [OF s1 [symmetric] refl s2]
  ultimately show ?case using "2.prems"(2) by auto
qed simp

section \<open>Properties of the report\<close>

text \<open>
  C26: The rates of the report are right. In every row the report thread prints, the packet and
  bit rates differ from the exact quotients of the period's counts by its length (more than
  four seconds) by at most a \<open>2 ^ -50\<close> part, whatever the counters are.
\<close>

theorem report_rates_accurate:
  assumes "ReportWorker ticks st = (st', out)" and "r \<in> set (rows_of out)"
  shows "let t = of_nat (unat (timeDelta r)) / 10 ^ 9;
      pps = of_nat (unat (rxDeltaPackets r)) / t; bps = 8 * of_nat (unat (rxDeltaBytes r)) / t
    in 4 < t \<and> 2 ^ 50 * \<bar>rxPps r - pps\<bar> \<le> pps \<and> 2 ^ 50 * \<bar>rxBps r - bps\<bar> \<le> bps"
proof -
  have dt: "4000000000 < unat (timeDelta r)"
    using worker_rows_elapsed [OF assms] by (simp add: ONE_SECOND_def)
  then have "(of_nat 4000000000 :: rat) < of_nat (unat (timeDelta r))" by (simp only: of_nat_less_iff)
  then have "4 < (of_nat (unat (timeDelta r)) / 10 ^ 9 :: rat)" by simp
  moreover have "0 < unat (timeDelta r)" using dt by linarith
  ultimately show ?thesis
    unfolding Let_def using rxPps_error [OF _ refl refl, of r] rxBps_error [OF _ refl refl, of r] by blast
qed

theorem report_rates_accurate_witness:
  "let out = snd (ReportWorker [(5000000000, [(1, McGroupStats_init\<lparr>Packets := 3, Bytes := 300\<rparr>)])]
        ReportState_init);
      r = hd (rows_of out)
    in 2 ^ 50 * \<bar>rxPps r - 3 / 5\<bar> \<le> 3 / 5 \<and> 2 ^ 50 * \<bar>rxBps r - 480\<bar> \<le> 480"
proof -
  let ?ticks = "[(5000000000, [(1, McGroupStats_init\<lparr>Packets := 3, Bytes := 300\<rparr>)])]"
  obtain st out where run: "ReportWorker ?ticks ReportState_init = (st, out)" by fastforce
  then obtain r where r: "rows_of out = [r]" "unat (timeDelta r) = 5000000000"
      "unat (rxDeltaPackets r) = 3" "unat (rxDeltaBytes r) = 300"
    by (auto simp: ReportWorker_step_eq ReportState_init_def TotalStats_init_def ONE_SECOND_def
        Let_def stats_simps)
  then have "r \<in> set (rows_of out)" by simp
  from report_rates_accurate [OF run this] show ?thesis
    unfolding run Let_def snd_conv r list.sel by simp
qed

text \<open>What fits the columns: counters below \<open>10 ^ 10\<close> and rates below a million packets and
  \<open>9999\<close> gigabits per second.\<close>

definition row_fits :: "ReportRow \<Rightarrow> bool" where
  "row_fits r \<longleftrightarrow>
     list_all (\<lambda>v. unat v < 10 ^ 10)
       [TotalPackets (rowStats r), TotalOutOfOrder (rowStats r), TotalDrops (rowStats r),
        rxDeltaOoo r, rxDeltaDropped r]
     \<and> unat (rxDeltaPackets r) * ONE_SECOND \<le> 999999 * unat (timeDelta r)
     \<and> 8 * unat (rxDeltaBytes r) * ONE_SECOND \<le> 9999 * 10 ^ 9 * unat (timeDelta r)
     \<and> 0 < unat (timeDelta r)"

lemma rate_limit:
  fixes x q :: rat
  assumes "m * ONE_SECOND \<le> k * dt" and "0 < dt" and q: "q = of_nat m / (of_nat dt / 10 ^ 9)"
    and "2 ^ 50 * \<bar>x - q\<bar> \<le> q"
  shows "0 \<le> x" and "x \<le> (1 + 1 / 2 ^ 50) * of_nat k"
proof -
  have "of_nat (m * ONE_SECOND) \<le> (of_nat (k * dt) :: rat)" by (simp only: of_nat_le_iff assms(1))
  then have k: "q \<le> of_nat k" and q0: "0 \<le> q"
    using assms(2) by (simp_all add: q ONE_SECOND_def pos_divide_le_eq)
  have "\<bar>x - q\<bar> \<le> q / 2 ^ 50" using assms(4) by simp
  then have "q - q / 2 ^ 50 \<le> x" "x \<le> q + q / 2 ^ 50" by linarith+
  moreover have "0 \<le> q - q / 2 ^ 50" using q0 by simp
  ultimately show "0 \<le> x" "x \<le> (1 + 1 / 2 ^ 50) * of_nat k" using k by simp_all
qed

lemma length_two_decimals:
  assumes "0 \<le> x" and "x \<le> (1 + 1 / 2 ^ 50) * 999999"
  shows "length (pad 9 (fixed_text round_even 2 x)) = 9"
proof -
  have "round_even (x * 100) \<le> 99999999" using assms(2) by (intro round_even_le) simp
  moreover have "0 \<le> round_even (x * 100)" using assms(1) by (simp add: round_even_def Let_def)
  ultimately have "nat \<bar>round_even (x * 100)\<bar> < 10 ^ (6 + 2)" by (simp add: nat_less_iff)
  from length_decimals [OF this] show ?thesis
    using assms(1) by (simp add: length_pad fixed_text_def)
qed

text \<open>
  C27: The report is a table. The four header lines and every row whose quantities fit their
  columns have exactly 86 characters, so the bars stay aligned however the counters grow
  within these bounds.
\<close>

theorem report_lines_aligned:
  assumes "\<forall>r \<in> set (rows_of out). row_fits r" and "l \<in> set out" and "s \<in> set (print_line l)"
  shows "length s = 86"
proof (cases l)
  case Header
  with assms(3) show ?thesis by (auto simp: PrintReportHeader_def)
next
  case (Row r)
  with assms(2) have "r \<in> set (rows_of out)" by (induction out rule: rows_of.induct) auto
  with assms(1) have fits: "row_fits r" by simp
  then have dt: "0 < unat (timeDelta r)" by (simp add: row_fits_def)
  have pps: "length (pad 9 (fixed_text round_even 2 (rxPps r))) = 9"
    using rate_limit [of "unat (rxDeltaPackets r)" 999999 "unat (timeDelta r)" _ "rxPps r", OF _ _ refl]
      rxPps_error [OF dt refl refl] fits by (intro length_two_decimals) (simp_all add: row_fits_def)
  have "0 \<le> rxBps r" "rxBps r < 10 ^ (12 + 1)"
    using rate_limit [of "8 * unat (rxDeltaBytes r)" "9999 * 10 ^ 9" "unat (timeDelta r)" _ "rxBps r", OF _ _ refl]
      rxBps_error [OF dt refl refl] fits by (simp_all add: row_fits_def)
  then have "length (FormatValueToSI (rxBps r) 1) = 5" using SI_width [of "rxBps r" 1] by simp
  with pps Row assms(3) fits show ?thesis
    by (simp add: PrintReportRow_def length_llu row_fits_def)
qed

theorem report_lines_aligned_witness:
  "length (PrintReportRow TotalStats_init 0 0 0 0) = 86"
proof -
  let ?r = "report_row TotalStats_init TotalStats_init 5000000000"
  have "row_fits ?r" and "rxPps ?r = 0" and "rxBps ?r = 0"
    by (simp_all add: row_fits_def TotalStats_init_def ONE_SECOND_def rxPps_def rxBps_def double_of_def)
  then have "\<forall>r \<in> set (rows_of [Row ?r]). row_fits r"
    and "PrintReportRow TotalStats_init 0 0 0 0 \<in> set (print_line (Row ?r))"
    by (simp_all add: TotalStats_init_def)
  from report_lines_aligned [OF this(1) _ this(2)] show ?thesis by simp
qed

section \<open>Properties of Percent\<close>

text \<open>
  With a precision that is not negative the shown number is within half a unit of its last
  decimal of 100 times the ratio, apart from the rounding of the product, and the text ends
  with the sign when it fits the buffer.
\<close>

lemma Percent_near:
  assumes "0 \<le> ratio p" and "0 \<le> dec p" and "0 \<le> len p" and "d = nat (dec p)"
    and "length (decimals d (nat (round_even (fl (ratio p * 100) * 10 ^ d)))) \<le> 125" and "len p \<le> 125"
  shows "\<exists>m. Percent_put os p = os @ pad (nat (len p)) (decimals d m) @ '' %''
    \<and> \<bar>of_nat m / 10 ^ d - 100 * ratio p\<bar> \<le> 1 / (2 * 10 ^ d) + 100 * ratio p / 2 ^ 53"
proof -
  let ?x = "fl (ratio p * 100)"
  let ?n = "round_even (?x * 10 ^ d)"
  have x: "0 \<le> ?x" using fl_bounds(3) [of "ratio p * 100"] assms(1) by simp
  then have n: "0 \<le> ?n" by (simp add: round_even_def Let_def)
  have "nat (len p) \<le> 125" using assms(6) by simp
  then have "max (nat (len p)) (length (decimals d (nat ?n))) \<le> 125" using assms(5) by simp
  then have fits: "2 \<le> 127 - max (nat (len p)) (length (decimals d (nat ?n)))" by linarith
  have put: "Percent_put os p = os @ pad (nat (len p)) (decimals d (nat ?n)) @ '' %''"
    using assms(2,3,5,6) x n fits
    by (simp add: Percent_put_def fixed_text_def Let_def length_pad assms(4) [symmetric])
  have "\<bar>of_int ?n - ?x * 10 ^ d\<bar> \<le> 1 / 2" by (rule round_even_error)
  then have "\<bar>(of_int ?n - ?x * 10 ^ d) / 10 ^ d\<bar> \<le> 1 / 2 / 10 ^ d"
    unfolding abs_divide by (intro frac_le) simp_all
  then have "\<bar>of_int ?n / 10 ^ d - ?x\<bar> \<le> 1 / (2 * 10 ^ d)" by (simp add: diff_divide_distrib)
  moreover have "\<bar>?x - ratio p * 100\<bar> \<le> ratio p * 100 / 2 ^ 53"
    using fl_error [of "ratio p * 100"] assms(1) by simp
  ultimately have "\<bar>of_int ?n / 10 ^ d - 100 * ratio p\<bar> \<le> 1 / (2 * 10 ^ d) + 100 * ratio p / 2 ^ 53"
    by linarith
  with put n show ?thesis by (intro exI [of _ "nat ?n"]) simp
qed

end
