(* ===== verification/Report_Run.thy ===== *)
theory Report_Run
  imports Report_Format
begin

text \<open>
  The receiver and its report thread together: the packets the main loop counts and the passes
  of the report thread, in the order in which they happen (RioConsumer.cpp). A pass that reads
  the counters while they change is treated in theory Report_Race. The rows refine an abstract
  report that keeps natural numbers: how many packets came, how many were already reported,
  and when.
\<close>

section \<open>The two threads in one order\<close>

text \<open>A packet of the expected size, or a pass of the report thread with its clock reading.\<close>

datatype rx_event = Packet SOCKADDR_INET ProtocolHeader_t | Tick u64

fun rx_step :: "rx_event \<Rightarrow> McGroupStatsMap \<times> ReportState \<Rightarrow>
    (McGroupStatsMap \<times> ReportState) \<times> report_line list" where
  "rx_step (Packet addr hdr) (m, st) = ((RioConsumer_GroupStatsUpdate addr 100 hdr m, st), [])"
| "rx_step (Tick now) (m, st) = (let (st, out) = ReportWorker_step now m st in ((m, st), out))"

fun rx_run :: "rx_event list \<Rightarrow> McGroupStatsMap \<times> ReportState \<Rightarrow>
    (McGroupStatsMap \<times> ReportState) \<times> report_line list" where
  "rx_run [] c = (c, [])"
| "rx_run (e # es) c =
     (let (c1, out1) = rx_step e c; (c2, out2) = rx_run es c1 in (c2, out1 @ out2))"

section \<open>The abstract report\<close>

record rx_spec =
  seen :: nat
  reported :: nat
  since :: u64

fun spec_step :: "rx_event \<Rightarrow> rx_spec \<Rightarrow> rx_spec \<times> (nat \<times> nat \<times> u64) list" where
  "spec_step (Packet _ _) a = (a\<lparr>seen := seen a + 1\<rparr>, [])"
| "spec_step (Tick now) a =
     (if 4 * 10 ^ 9 < unat (now - since a)
      then (a\<lparr>reported := seen a, since := now\<rparr>, [(seen a, seen a - reported a, now - since a)])
      else (a, []))"

fun spec_run :: "rx_event list \<Rightarrow> rx_spec \<Rightarrow> rx_spec \<times> (nat \<times> nat \<times> u64) list" where
  "spec_run [] a = (a, [])"
| "spec_run (e # es) a =
     (let (a1, out1) = spec_step e a; (a2, out2) = spec_run es a1 in (a2, out1 @ out2))"

text \<open>What a row must show of its abstract counterpart; late packets are packets.\<close>

definition row_shows :: "ReportRow \<Rightarrow> nat \<times> nat \<times> u64 \<Rightarrow> bool" where
  "row_shows r x \<longleftrightarrow> (case x of (n, k, dt) \<Rightarrow>
     unat (TotalPackets (rowStats r)) = n \<and> unat (rxDeltaPackets r) = k
     \<and> unat (TotalBytes (rowStats r)) = 100 * n \<and> unat (rxDeltaBytes r) = 100 * k
     \<and> unat (rxDeltaOoo r) \<le> k \<and> timeDelta r = dt)"

section \<open>The refinement relation\<close>

fun packets_in :: "rx_event list \<Rightarrow> nat" where
  "packets_in [] = 0"
| "packets_in (Packet _ _ # es) = Suc (packets_in es)"
| "packets_in (Tick _ # es) = packets_in es"

definition counted :: "TotalStats_t \<Rightarrow> nat \<Rightarrow> nat \<Rightarrow> bool" where
  "counted t n q \<longleftrightarrow> TotalPackets t = of_nat n \<and> TotalBytes t = of_nat (100 * n)
     \<and> TotalOutOfOrder t = of_nat q"

definition abstracts :: "McGroupStatsMap \<times> ReportState \<Rightarrow> rx_spec \<Rightarrow> bool" where
  "abstracts c a \<longleftrightarrow> (case c of (m, st) \<Rightarrow>
     std_map_ok m \<and> prevReportTime st = since a \<and> reported a \<le> seen a
     \<and> (\<exists>q q0. q \<le> seen a \<and> counted (GetMcTotals m) (seen a) q \<and> counted (prevStats st) (reported a) q0
          \<and> q0 \<le> q \<and> q - q0 \<le> seen a - reported a))"

lemma update_totals:
  assumes "std_map_ok m" and "counted (GetMcTotals m) n q"
  shows "\<exists>q'. counted (GetMcTotals (RioConsumer_GroupStatsUpdate addr 100 hdr m)) (Suc n) q'
    \<and> q \<le> q' \<and> q' \<le> Suc q"
proof -
  let ?old = "case std_map_find m (s_addr addr) of None \<Rightarrow> McGroupStats_init | Some v \<Rightarrow> v"
  let ?new = "consumer_update 100 (Seq hdr) ?old"
  note total = stdmap.total_modify [OF assms(1), of _ McGroupStats_init "s_addr addr" "consumer_update 100 (Seq hdr)"]
  define d :: nat where "d = (if Seq hdr < ExpectedSequence ?old then 1 else 0)"
  have "OutOfOrder ?new - OutOfOrder ?old = of_nat d"
    by (auto simp: consumer_update_def Let_def d_def not_less)
  moreover have "Packets ?new - Packets ?old = 1" "Bytes ?new - Bytes ?old = 100"
    by (simp_all add: stats_simps)
  ultimately have "counted (GetMcTotals (RioConsumer_GroupStatsUpdate addr 100 hdr m)) (Suc n) (q + d)"
    using assms(2)
    by (simp add: counted_def GetMcTotals_sel RioConsumer_GroupStatsUpdate_def total stats_simps algebra_simps)
  moreover have "d \<le> 1" by (simp add: d_def)
  ultimately show ?thesis by (intro exI [of _ "q + d"]) simp
qed

lemma unat_of_difference:
  assumes "b \<le> a" and "a < 2 ^ 64"
  shows "unat (of_nat a - of_nat b :: u64) = a - b"
proof -
  have "(of_nat a - of_nat b :: u64) = of_nat (a - b)" using assms(1) by (simp add: of_nat_diff)
  moreover have "a - b < 2 ^ LENGTH(64)" using assms(2) by simp
  ultimately show ?thesis by (simp only: unat_of_nat_less)
qed

lemma counted_difference:
  assumes "counted t n q" and "counted t0 n0 q0" and "n0 \<le> n" and "n < 2 ^ 57"
    and "q0 \<le> q" and "q \<le> n" and "q - q0 \<le> n - n0"
  shows "row_shows (report_row t0 t dt) (n, n - n0, dt)"
proof -
  have big: "100 * n < 2 ^ 64" "n < 2 ^ 64" "q < 2 ^ 64" using assms(4,6) by simp_all
  have "unat (of_nat (100 * n) - of_nat (100 * n0) :: u64) = 100 * n - 100 * n0"
    by (rule unat_of_difference) (use assms(3) big in simp_all)
  moreover have "unat (of_nat n - of_nat n0 :: u64) = n - n0" "unat (of_nat q - of_nat q0 :: u64) = q - q0"
    by (rule unat_of_difference; use assms(3,5) big in simp)+
  moreover have "unat (of_nat n :: u64) = n" "unat (of_nat (100 * n) :: u64) = 100 * n"
    using big by (intro unat_of_nat_less; simp)+
  ultimately show ?thesis
    using assms(1,2,7) by (simp add: row_shows_def counted_def diff_mult_distrib2 del: of_nat_mult)
qed

text \<open>One event keeps the relation, and the rows it prints show what the abstract report says.\<close>

lemma step_refines:
  assumes "abstracts c a" and "seen a < 2 ^ 57"
    and "rx_step e c = (c', out)" and "spec_step e a = (a', outa)"
  shows "abstracts c' a' \<and> list_all2 row_shows (rows_of out) outa"
proof -
  obtain m st where c: "c = (m, st)" by (cases c)
  from assms(1) obtain q q0 where ok: "std_map_ok m" "prevReportTime st = since a" "reported a \<le> seen a"
    and q: "counted (GetMcTotals m) (seen a) q" "counted (prevStats st) (reported a) q0"
      "q0 \<le> q" "q \<le> seen a" "q - q0 \<le> seen a - reported a"
    by (auto simp: abstracts_def c)
  show ?thesis
  proof (cases e)
    case (Packet addr hdr)
    from update_totals [OF ok(1) q(1), of addr hdr] obtain q'
      where q': "counted (GetMcTotals (RioConsumer_GroupStatsUpdate addr 100 hdr m)) (Suc (seen a)) q'"
        "q \<le> q'" "q' \<le> Suc q" by blast
    have "std_map_ok (RioConsumer_GroupStatsUpdate addr 100 hdr m)"
      using ok(1) by (simp add: RioConsumer_GroupStatsUpdate_def std_map_modify_ok)
    moreover have "q0 \<le> q'" "q' \<le> Suc (seen a)" "q' - q0 \<le> Suc (seen a) - reported a" using q q' ok(3) by linarith+
    ultimately have "abstracts (RioConsumer_GroupStatsUpdate addr 100 hdr m, st) (a\<lparr>seen := seen a + 1\<rparr>)"
      unfolding abstracts_def using q'(1) q(2) ok by auto
    then show ?thesis using assms(3,4) by (auto simp: Packet c)
  next
    case (Tick now)
    show ?thesis
    proof (cases "4 * 10 ^ 9 < unat (now - since a)")
      case True
      then have "out = (if reportCount st mod 16 = 0 then [Header] else [])
          @ [Row (report_row (prevStats st) (GetMcTotals m) (now - since a))]"
        and c': "c' = (m, \<lparr>prevReportTime = now, reportCount = reportCount st + 1, prevStats = GetMcTotals m\<rparr>)"
        using assms(3) ok(2)
        by (auto simp: c Tick ReportWorker_step_eq ONE_SECOND_def Let_def) presburger+
      then have rows: "rows_of out = [report_row (prevStats st) (GetMcTotals m) (now - since a)]" by simp
      have a': "a' = a\<lparr>reported := seen a, since := now\<rparr>"
        "outa = [(seen a, seen a - reported a, now - since a)]"
        using assms(4) True by (auto simp: Tick)
      have "abstracts c' a'" unfolding abstracts_def c' a'(1)
        using ok q(1,4) by (auto intro!: exI [of _ q])
      then show ?thesis
        unfolding rows a'(2) using counted_difference [OF q(1,2) ok(3) assms(2) q(3-5)] by simp
    next
      case False
      then have "c' = c" "out = []" "a' = a" "outa = []"
        using assms(3,4) ok(2) by (auto simp: c Tick ReportWorker_step_eq ONE_SECOND_def Let_def)
      with assms(1) show ?thesis by simp
    qed
  qed
qed

lemma spec_step_seen: "spec_step e a = (a', outa) \<Longrightarrow> seen a' = seen a + packets_in [e]"
  by (cases e) (auto split: if_splits)

lemma packets_in_Cons: "packets_in (e # es) = packets_in [e] + packets_in es"
  by (cases e) simp_all

lemma run_refines:
  "abstracts c a \<Longrightarrow> seen a + packets_in es < 2 ^ 57 \<Longrightarrow>
     rx_run es c = (c', out) \<Longrightarrow> spec_run es a = (a', outa) \<Longrightarrow>
     abstracts c' a' \<and> list_all2 row_shows (rows_of out) outa \<and> seen a' = seen a + packets_in es"
proof (induction es arbitrary: c a c' a' out outa)
  case (Cons e es)
  obtain c1 out1 where s: "rx_step e c = (c1, out1)" by fastforce
  obtain c2 out2 where r: "rx_run es c1 = (c2, out2)" by fastforce
  obtain a1 outa1 where sa: "spec_step e a = (a1, outa1)" by fastforce
  obtain a2 outa2 where ra: "spec_run es a1 = (a2, outa2)" by fastforce
  have e: "c' = c2" "out = out1 @ out2" "a' = a2" "outa = outa1 @ outa2"
    using Cons.prems(3,4) by (auto simp: s r sa ra)
  have n: "seen a1 + packets_in es = seen a + packets_in (e # es)"
    using spec_step_seen [OF sa] packets_in_Cons [of e es] by simp
  have "seen a < 2 ^ 57" using Cons.prems(2) by simp
  from step_refines [OF Cons.prems(1) this s sa]
  have ab: "abstracts c1 a1" and rows: "list_all2 row_shows (rows_of out1) outa1" by blast+
  have "seen a1 + packets_in es < 2 ^ 57" using Cons.prems(2) n by simp
  from Cons.IH [OF ab this r ra] n
  have "abstracts c2 a2 \<and> list_all2 row_shows (rows_of out2) outa2 \<and> seen a2 = seen a1 + packets_in es"
    by simp
  with rows n show ?case unfolding e by (auto intro: list_all2_appendI)
qed simp

lemma abstracts_init:
  "abstracts (InitGroupStats gs [], ReportState_init) \<lparr>seen = 0, reported = 0, since = 0\<rparr>"
proof -
  have "counted (GetMcTotals (InitGroupStats gs [])) 0 0"
    by (simp add: counted_def GetMcTotals_sel totals_Init)
  then show ?thesis
    by (auto simp: abstracts_def InitGroupStats_ok ReportState_init_def TotalStats_init_def counted_def
        intro!: exI [of _ 0])
qed

section \<open>Properties\<close>

text \<open>
  C25: The periodic report implements its abstract specification. However packets and passes of
  the report thread follow each other (fewer than \<open>2 ^ 57\<close> packets), the printed rows are those of
  a reporter with natural numbers: each shows the packets and bytes that arrived so far, and as
  the period's exactly those since the previous row, with no wrap-around; the late packets of
  a period are never more than its packets.
\<close>

theorem report_refines_specification:
  assumes "packets_in es < 2 ^ 57"
  shows "list_all2 row_shows
    (rows_of (snd (rx_run es (InitGroupStats gs [], ReportState_init))))
    (snd (spec_run es \<lparr>seen = 0, reported = 0, since = 0\<rparr>))"
  using run_refines [OF abstracts_init, of es gs] assms
  by (cases "rx_run es (InitGroupStats gs [], ReportState_init)";
      cases "spec_run es \<lparr>seen = 0, reported = 0, since = 0\<rparr>") simp

lemma ref_events:
  "spec_run [Packet a h, Tick 5000000000, Packet a h, Packet a h, Tick 6000000000, Tick 9000000001]
     \<lparr>seen = 0, reported = 0, since = 0\<rparr> =
   (\<lparr>seen = 3, reported = 3, since = 9000000001\<rparr>, [(1, 1, 5000000000), (3, 2, 4000000001)])"
  by simp

theorem report_refines_specification_witness:
  "let a = \<lparr>sin_family = 2, sin_port = 0, s_addr = 7\<rparr>;
       h = \<lparr>Token = 0, CmdType = 0, Tag = 0, Seq = 4, Timestamp = 0\<rparr>
   in list_all2 row_shows
     (rows_of (snd (rx_run [Packet a h, Tick 5000000000, Packet a h, Packet a h, Tick 6000000000,
        Tick 9000000001] (InitGroupStats [7] [], ReportState_init))))
     [(1, 1, 5000000000), (3, 2, 4000000001)]"
proof -
  let ?a = "\<lparr>sin_family = 2, sin_port = 0, s_addr = 7\<rparr>"
  let ?h = "\<lparr>Token = 0, CmdType = 0, Tag = 0, Seq = 4, Timestamp = 0\<rparr>"
  let ?es = "[Packet ?a ?h, Tick 5000000000, Packet ?a ?h, Packet ?a ?h, Tick 6000000000, Tick 9000000001]"
  have "packets_in ?es < 2 ^ 57" by simp
  from report_refines_specification [OF this, of "[7]"] show ?thesis
    unfolding ref_events snd_conv Let_def .
qed

text \<open>
  The first row never shows a rate. The thread starts with \<open>prevReportTime\<close> 0, so its first
  pass divides the packets so far by the time since 1970: with fewer than five million packets
  by then the printed rate is 0.00, however fast they arrive.
\<close>

theorem first_row_shows_no_rate:
  assumes "10 ^ 18 \<le> unat now" and "unat (TotalPackets t) < 5000000"
    and "rxDeltaPackets r = TotalPackets t" and "timeDelta r = now"
  shows "pad 9 (fixed_text round_even 2 (rxPps r)) = ''     0.00''"
proof -
  have dt: "0 < unat (timeDelta r)" using assms(1,4) by simp
  define n where "n = unat (rxDeltaPackets r)"
  define d where "d = unat (timeDelta r)"
  have n: "n \<le> 4999999" and d: "10 ^ 18 \<le> d" using assms by (simp_all add: n_def d_def)
  have q: "2 ^ 50 * \<bar>rxPps r - of_nat n / (of_nat d / 10 ^ 9)\<bar> \<le> of_nat n / (of_nat d / 10 ^ 9)"
    unfolding n_def d_def by (rule rxPps_error [OF dt refl refl])
  have "of_nat (10 ^ 18) \<le> (of_nat d :: rat)" using d by (simp only: of_nat_le_iff)
  moreover have "(of_nat n :: rat) \<le> 4999999" using n of_nat_mono [of n 4999999] by simp
  ultimately have "of_nat n * 10 ^ 9 \<le> (4999999 / 10 ^ 9 :: rat) * of_nat d" by simp
  then have small: "of_nat n / (of_nat d / 10 ^ 9) \<le> (4999999 / 10 ^ 9 :: rat)"
    using d by (simp add: pos_divide_le_eq)
  obtain z where z: "z = of_nat n / (of_nat d / 10 ^ 9 :: rat)" by simp
  have z0: "0 \<le> z" by (simp add: z)
  have "\<bar>rxPps r - z\<bar> \<le> z / 2 ^ 50" using q unfolding z [symmetric] by simp
  then have "z - z / 2 ^ 50 \<le> rxPps r" "rxPps r \<le> z + z / 2 ^ 50" by linarith+
  moreover have "0 \<le> z - z / 2 ^ 50" "z + z / 2 ^ 50 < 1 / 200"
    using z0 small unfolding z [symmetric] by simp_all
  ultimately have "0 \<le> rxPps r" "rxPps r * 100 < 1 / 2" by linarith+
  moreover from this have "\<lfloor>rxPps r * 100\<rfloor> = 0" by (simp add: floor_eq_iff)
  ultimately have "fixed_text round_even 2 (rxPps r) = ''0.00''"
    by (simp add: fixed_text_def round_even_def decimals_def dec_eval)
  then show ?thesis by (simp add: pad_def eval_nat_numeral)
qed

theorem first_row_shows_no_rate_witness:
  "let r = report_row TotalStats_init (TotalStats_init\<lparr>TotalPackets := 100000\<rparr>) 1700000000000000000
   in pad 9 (fixed_text round_even 2 (rxPps r)) = ''     0.00''"
  unfolding Let_def
  by (rule first_row_shows_no_rate [of 1700000000000000000 "TotalStats_init\<lparr>TotalPackets := 100000\<rparr>"])
     (simp_all add: TotalStats_init_def)

end
