(* ===== verification/Report_Race.thy ===== *)
theory Report_Race
  imports Group_Stats
begin

text \<open>
  The consumer's two threads on the statistics: the main thread runs \<open>GroupStatsUpdate\<close> for
  one packet after another, the report thread runs \<open>GetMcTotals\<close>. Every access to a counter is
  one atomic operation, and the accesses of the threads interleave. The main thread is the only
  one that writes, so what it loads is what it stored. Configured groups only: a new group
  would insert into the map while the other thread iterates, which is undefined behaviour.
\<close>

section \<open>The accesses\<close>

datatype counter = CPackets | CBytes | COutOfOrder | CDrops

datatype atomic_op =
    IncExpected | StoreExpected u64 | StoreSequence u64 | AddDropped u64 | DecDropped
  | IncOutOfOrder | IncPackets | AddBytes u64

fun apply_op :: "atomic_op \<Rightarrow> McGroupStats_t \<Rightarrow> McGroupStats_t" where
  "apply_op IncExpected g = g\<lparr>ExpectedSequence := ExpectedSequence g + 1\<rparr>"
| "apply_op (StoreExpected v) g = g\<lparr>ExpectedSequence := v\<rparr>"
| "apply_op (StoreSequence v) g = g\<lparr>Sequence := v\<rparr>"
| "apply_op (AddDropped v) g = g\<lparr>RxDropped := RxDropped g + v\<rparr>"
| "apply_op DecDropped g = g\<lparr>RxDropped := RxDropped g - 1\<rparr>"
| "apply_op IncOutOfOrder g = g\<lparr>OutOfOrder := OutOfOrder g + 1\<rparr>"
| "apply_op IncPackets g = g\<lparr>Packets := Packets g + 1\<rparr>"
| "apply_op (AddBytes n) g = g\<lparr>Bytes := Bytes g + n\<rparr>"

text \<open>The writes of \<open>GroupStatsUpdate\<close> in the order of the code.\<close>

definition update_ops :: "u64 \<Rightarrow> u64 \<Rightarrow> McGroupStats_t \<Rightarrow> atomic_op list" where
  "update_ops pktSize seq gmc =
     (if seq = ExpectedSequence gmc then [IncExpected, StoreSequence seq]
      else if seq > ExpectedSequence gmc then
        (if Packets gmc \<noteq> 0 then [AddDropped (seq - ExpectedSequence gmc)] else [])
          @ [StoreExpected (seq + 1), StoreSequence seq]
      else (if RxDropped gmc > 0 then [DecDropped] else []) @ [IncOutOfOrder])
     @ [IncPackets, AddBytes pktSize]"

text \<open>The loads of \<open>GetMcTotals\<close>, in order, and what one of them adds to the result.\<close>

definition scan_reads :: "McGroupStatsMap \<Rightarrow> (u32 \<times> counter) list" where
  "scan_reads m = concat (map (\<lambda>(k, v). [(k, CPackets), (k, CBytes), (k, COutOfOrder), (k, CDrops)]) m)"

fun counter_of :: "counter \<Rightarrow> McGroupStats_t \<Rightarrow> u64" where
  "counter_of CPackets g = Packets g"
| "counter_of CBytes g = Bytes g"
| "counter_of COutOfOrder g = OutOfOrder g"
| "counter_of CDrops g = RxDropped g"

fun add_counter :: "counter \<Rightarrow> u64 \<Rightarrow> TotalStats_t \<Rightarrow> TotalStats_t" where
  "add_counter CPackets v t = t\<lparr>TotalPackets := TotalPackets t + v\<rparr>"
| "add_counter CBytes v t = t\<lparr>TotalBytes := TotalBytes t + v\<rparr>"
| "add_counter COutOfOrder v t = t\<lparr>TotalOutOfOrder := TotalOutOfOrder t + v\<rparr>"
| "add_counter CDrops v t = t\<lparr>TotalDrops := TotalDrops t + v\<rparr>"

section \<open>Interleaving\<close>

record race =
  shared :: McGroupStatsMap
  todo :: "(u32 \<times> atomic_op) list"
  reads :: "(u32 \<times> counter) list"
  acc :: TotalStats_t

datatype race_event = Began u32 | Wrote atomic_op | Loaded counter

text \<open>
  The main thread takes the next packet, or performs its next write; the report thread
  performs its next load.
\<close>

inductive race_step :: "race \<Rightarrow> race_event \<Rightarrow> race \<Rightarrow> bool" where
  take_packet: "todo s = [] \<Longrightarrow> std_map_find (shared s) k = Some g \<Longrightarrow>
     race_step s (Began k) (s\<lparr>todo := map (Pair k) (update_ops pktSize seq g)\<rparr>)"
| write_op: "todo s = (k, op) # ops \<Longrightarrow> std_map_find (shared s) k = Some g \<Longrightarrow>
     race_step s (Wrote op)
       (s\<lparr>shared := std_map_modify McGroupStats_init k (apply_op op) (shared s), todo := ops\<rparr>)"
| load_counter: "reads s = (k, c) # rs \<Longrightarrow> std_map_find (shared s) k = Some g \<Longrightarrow>
     race_step s (Loaded c) (s\<lparr>reads := rs, acc := add_counter c (counter_of c g) (acc s)\<rparr>)"

inductive race_run :: "race \<Rightarrow> race_event list \<Rightarrow> race \<Rightarrow> bool" where
  run_nil: "race_run s [] s"
| run_snoc: "race_run s es s' \<Longrightarrow> race_step s' e s'' \<Longrightarrow> race_run s (es @ [e]) s''"

definition scan_start :: "McGroupStatsMap \<Rightarrow> (u32 \<times> atomic_op) list \<Rightarrow> race" where
  "scan_start m ops = \<lparr>shared = m, todo = ops, reads = scan_reads m, acc = TotalStats_init\<rparr>"

section \<open>The writes of one packet\<close>

text \<open>
  The writes of one packet, performed one by one on the group's record, have the effect of
  \<open>GroupStatsUpdate\<close> as a whole, whatever the record.
\<close>

theorem update_ops_refine:
  "fold apply_op (update_ops pktSize seq g) g = consumer_update pktSize seq g"
  by (simp add: update_ops_def consumer_update_def Let_def)

section \<open>What a scan sees\<close>

fun total_of :: "counter \<Rightarrow> TotalStats_t \<Rightarrow> u64" where
  "total_of CPackets t = TotalPackets t"
| "total_of CBytes t = TotalBytes t"
| "total_of COutOfOrder t = TotalOutOfOrder t"
| "total_of CDrops t = TotalDrops t"

text \<open>By how much a write raises a counter; the drop counter is not monotone and left out.\<close>

fun raise_of :: "counter \<Rightarrow> atomic_op \<Rightarrow> u64" where
  "raise_of CPackets IncPackets = 1"
| "raise_of CBytes (AddBytes n) = n"
| "raise_of COutOfOrder IncOutOfOrder = 1"
| "raise_of _ _ = 0"

fun written :: "counter \<Rightarrow> race_event list \<Rightarrow> nat" where
  "written c [] = 0"
| "written c (Wrote op # es) = unat (raise_of c op) + written c es"
| "written c (_ # es) = written c es"

lemma written_append [simp]: "written c (es @ es') = written c es + written c es'"
  by (induction c es rule: written.induct) auto

lemma counter_apply: "c \<noteq> CDrops \<Longrightarrow> counter_of c (apply_op op g) = counter_of c g + raise_of c op"
  by (cases c; cases op) simp_all

lemma total_of_add: "total_of c (add_counter c' v t) = total_of c t + (if c' = c then v else 0)"
  by (cases c; cases c') simp_all

lemma total_of_totals: "total_of c (GetMcTotals m) = sum_list (map (\<lambda>(k, v). counter_of c v) m)"
  by (cases c) (simp_all add: GetMcTotals_sel)

lemma counter_init [simp]: "counter_of c McGroupStats_init = 0"
  by (cases c) (simp_all add: McGroupStats_init_def)

lemma total_of_init: "total_of c TotalStats_init = 0"
  by (cases c) (simp_all add: TotalStats_init_def)

text \<open>What the loads that are still to come would add now.\<close>

definition pending :: "counter \<Rightarrow> McGroupStatsMap \<Rightarrow> (u32 \<times> counter) list \<Rightarrow> u64" where
  "pending c m rs =
     sum_list (map (\<lambda>(k, c'). if c' = c then counter_of c (the (std_map_find m k)) else 0) rs)"

lemma pending_simps [simp]:
  "pending c m [] = 0"
  "pending c m ((k, c') # rs) =
     (if c' = c then counter_of c (the (std_map_find m k)) else 0) + pending c m rs"
  by (simp_all add: pending_def)

lemma total_write:
  assumes "std_map_ok m" and "std_map_find m k = Some g" and "c \<noteq> CDrops"
  shows "total_of c (GetMcTotals (std_map_modify McGroupStats_init k (apply_op op) m)) =
    total_of c (GetMcTotals m) + raise_of c op"
  using stdmap.total_modify [OF assms(1), of "counter_of c" McGroupStats_init k "apply_op op"] assms(2)
  by (simp add: total_of_totals counter_apply [OF assms(3)])

lemma pending_write:
  assumes "std_map_ok m" and "std_map_find m k = Some g" and "c \<noteq> CDrops" and "distinct rs"
  shows "pending c (std_map_modify McGroupStats_init k (apply_op op) m) rs =
    pending c m rs + (if (k, c) \<in> set rs then raise_of c op else 0)"
  using assms(4)
proof (induction rs)
  case (Cons r rs)
  obtain k' c' where r: "r = (k', c')" by (cases r)
  from Cons show ?case
    using assms(1-3) by (auto simp: r std_map_find_modify counter_apply)
qed simp

lemma scan_reads_distinct: "std_map_ok m \<Longrightarrow> distinct (scan_reads m)"
proof -
  assume "std_map_ok m"
  then have "distinct (map fst m)" by (simp add: stdmap.entries_distinct)
  then show ?thesis by (induction m) (auto simp: scan_reads_def intro: rev_image_eqI)
qed

lemma pending_start: "std_map_ok m \<Longrightarrow> pending c m (scan_reads m) = total_of c (GetMcTotals m)"
proof -
  assume "std_map_ok m"
  then have "distinct (map fst m)" by (simp add: stdmap.entries_distinct)
  then have find: "(k, v) \<in> set m \<Longrightarrow> std_map_find m k = Some v" for k v
    by (simp add: std_map_find_def)
  have "pending c m (scan_reads xs) = sum_list (map (\<lambda>(k, v). counter_of c v) xs)" if "set xs \<subseteq> set m" for xs
    using that
  proof (induction xs)
    case (Cons x xs)
    obtain k v where x: "x = (k, v)" by (cases x)
    have "std_map_find m k = Some v" using Cons.prems by (simp add: x find)
    with Cons show ?case by (cases c) (simp_all add: x scan_reads_def pending_def)
  qed (simp add: scan_reads_def)
  then show ?thesis by (simp add: total_of_totals)
qed

text \<open>
  The invariant of an interleaved scan: what was added and what is still pending exceed the
  totals at the start by some of what was written since, the totals in the map by all of it.
\<close>

definition scan_inv :: "counter \<Rightarrow> u64 \<Rightarrow> race_event list \<Rightarrow> race \<Rightarrow> bool" where
  "scan_inv c t0 es s \<longleftrightarrow> std_map_ok (shared s) \<and> distinct (reads s)
     \<and> total_of c (GetMcTotals (shared s)) = t0 + of_nat (written c es)
     \<and> (\<exists>d \<le> written c es. total_of c (acc s) + pending c (shared s) (reads s) = t0 + of_nat d)"

lemma scan_inv_step:
  assumes inv: "scan_inv c t0 es s" and step: "race_step s e s'" and c: "c \<noteq> CDrops"
  shows "scan_inv c t0 (es @ [e]) s'"
  using step
proof cases
  case (take_packet k g pktSize seq)
  with inv show ?thesis by (simp add: scan_inv_def)
next
  case (write_op k op ops g)
  let ?m = "shared s" and ?x = "unat (raise_of c op)"
  from inv obtain d where ok: "std_map_ok ?m" and dist: "distinct (reads s)"
    and tot: "total_of c (GetMcTotals ?m) = t0 + of_nat (written c es)" and d: "d \<le> written c es"
    and pend: "total_of c (acc s) + pending c ?m (reads s) = t0 + of_nat d"
    by (auto simp: scan_inv_def)
  note w = total_write [OF ok write_op(4) c, of op] pending_write [OF ok write_op(4) c dist, of op]
  let ?d = "if (k, c) \<in> set (reads s) then d + ?x else d"
  have "?d \<le> written c (es @ [e])" using d by (simp add: write_op(1))
  moreover have "total_of c (acc s') + pending c (shared s') (reads s') = t0 + of_nat ?d"
    using pend by (simp add: write_op(2) w(2) flip: add.assoc)
  moreover have "total_of c (GetMcTotals (shared s')) = t0 + of_nat (written c (es @ [e]))"
    by (simp add: write_op(1,2) w(1) tot add.assoc)
  ultimately show ?thesis
    using ok dist unfolding scan_inv_def by (auto simp: write_op(2) std_map_modify_ok)
next
  case (load_counter k c' rs g)
  with inv show ?thesis
    by (auto simp: scan_inv_def total_of_add add.assoc)
qed

lemma scan_inv_run:
  assumes "race_run (scan_start m ops) es s" and "std_map_ok m" and "c \<noteq> CDrops"
  shows "scan_inv c (total_of c (GetMcTotals m)) es s"
  using assms(1)
proof (induction "scan_start m ops" es s rule: race_run.induct)
  case run_nil
  then show ?case
    using assms(2) by (simp add: scan_inv_def scan_start_def pending_start scan_reads_distinct
        total_of_init)
next
  case (run_snoc es s' e s'')
  from run_snoc(2,3) show ?case by (rule scan_inv_step) (rule assms(3))
qed

text \<open>
  C6: A report is never ahead of the counters and never behind their state when the scan
  began. However the report thread's loads interleave with the main thread's writes, the
  total that \<open>GetMcTotals\<close> returns for packets, bytes or late packets is the total at the start
  of the scan plus some of what was written during the scan; the counters themselves have
  grown by all of it.
\<close>

theorem scan_totals_between:
  assumes "race_run (scan_start m ops) es s" and "std_map_ok m" and "reads s = []"
    and "c \<noteq> CDrops"
  shows "\<exists>d \<le> written c es. total_of c (acc s) = total_of c (GetMcTotals m) + of_nat d
    \<and> total_of c (GetMcTotals (shared s)) = total_of c (GetMcTotals m) + of_nat (written c es)"
  using scan_inv_run [OF assms(1,2,4)] assms(3) by (auto simp: scan_inv_def)

section \<open>Playing a schedule\<close>

datatype turn = Take u32 u64 u64 | Write | Load

fun turn_step :: "turn \<Rightarrow> race \<Rightarrow> (race_event \<times> race) option" where
  "turn_step (Take k pktSize seq) s =
     (case (todo s, std_map_find (shared s) k) of
        ([], Some g) \<Rightarrow> Some (Began k, s\<lparr>todo := map (Pair k) (update_ops pktSize seq g)\<rparr>)
      | _ \<Rightarrow> None)"
| "turn_step Write s =
     (case todo s of
        [] \<Rightarrow> None
      | (k, op) # ops \<Rightarrow>
          (case std_map_find (shared s) k of
             None \<Rightarrow> None
           | Some g \<Rightarrow> Some (Wrote op,
               s\<lparr>shared := std_map_modify McGroupStats_init k (apply_op op) (shared s), todo := ops\<rparr>)))"
| "turn_step Load s =
     (case reads s of
        [] \<Rightarrow> None
      | (k, c) # rs \<Rightarrow>
          (case std_map_find (shared s) k of
             None \<Rightarrow> None
           | Some g \<Rightarrow> Some (Loaded c,
               s\<lparr>reads := rs, acc := add_counter c (counter_of c g) (acc s)\<rparr>)))"

fun play :: "turn list \<Rightarrow> race \<Rightarrow> (race_event list \<times> race) option" where
  "play [] s = Some ([], s)"
| "play (t # ts) s =
     (case turn_step t s of
        None \<Rightarrow> None
      | Some (e, s1) \<Rightarrow> map_option (\<lambda>(es, s2). (e # es, s2)) (play ts s1))"

lemma turn_step_race: "turn_step t s = Some (e, s') \<Longrightarrow> race_step s e s'"
  by (cases t) (auto split: list.splits option.splits intro: race_step.intros)

lemma race_run_Cons:
  assumes "race_run s1 es s2" and "race_step s e s1"
  shows "race_run s (e # es) s2"
  using assms
proof (induction rule: race_run.induct)
  case (run_nil s1)
  then show ?case using race_run.run_snoc [OF race_run.run_nil] by fastforce
next
  case (run_snoc s1 es s' e' s'')
  from race_run.run_snoc [OF run_snoc.IH [OF run_snoc.prems] run_snoc.hyps(2)] show ?case by simp
qed

lemma play_run: "play ts s = Some (es, s') \<Longrightarrow> race_run s es s'"
proof (induction ts arbitrary: s es)
  case Nil
  then show ?case by (auto intro: race_run.run_nil)
next
  case (Cons t ts)
  then obtain e s1 es1 where t: "turn_step t s = Some (e, s1)" and p: "play ts s1 = Some (es1, s')"
    and es: "es = e # es1"
    by (auto split: option.splits)
  from race_run_Cons [OF Cons.IH [OF p] turn_step_race [OF t]] show ?case by (simp add: es)
qed

text \<open>One packet arrives between the load of the first counter and that of the second.\<close>

definition split_scan :: "turn list" where
  "split_scan = [Load, Take 5 100 0, Write, Write, Write, Write, Load, Load, Load]"

definition split_end :: "race_event list \<times> race" where
  "split_end = the (play split_scan (scan_start [(5, McGroupStats_init)] []))"

lemma split_run:
  "race_run (scan_start [(5, McGroupStats_init)] []) (fst split_end) (snd split_end)"
  "reads (snd split_end) = []" "todo (snd split_end) = []"
  "acc (snd split_end) = \<lparr>TotalPackets = 0, TotalBytes = 100, TotalOutOfOrder = 0, TotalDrops = 0\<rparr>"
  "fst split_end = [Loaded CPackets, Began 5, Wrote IncExpected, Wrote (StoreSequence 0),
     Wrote IncPackets, Wrote (AddBytes 100), Loaded CBytes, Loaded COutOfOrder, Loaded CDrops]"
proof -
  have "play split_scan (scan_start [(5, McGroupStats_init)] []) = Some split_end"
    by (simp add: split_end_def split_scan_def scan_start_def scan_reads_def std_map_find_def
        update_ops_def McGroupStats_init_def)
  then show "race_run (scan_start [(5, McGroupStats_init)] []) (fst split_end) (snd split_end)"
    by (intro play_run [of split_scan]) simp
  show "reads (snd split_end) = []" "todo (snd split_end) = []"
    "acc (snd split_end) = \<lparr>TotalPackets = 0, TotalBytes = 100, TotalOutOfOrder = 0, TotalDrops = 0\<rparr>"
    "fst split_end = [Loaded CPackets, Began 5, Wrote IncExpected, Wrote (StoreSequence 0),
       Wrote IncPackets, Wrote (AddBytes 100), Loaded CBytes, Loaded COutOfOrder, Loaded CDrops]"
    by (simp_all add: split_end_def split_scan_def scan_start_def scan_reads_def std_map_find_def
        update_ops_def McGroupStats_init_def TotalStats_init_def)
qed

theorem scan_totals_between_witness:
  "\<exists>d\<le>100. total_of CBytes (acc (snd split_end)) = of_nat d
    \<and> total_of CBytes (GetMcTotals (shared (snd split_end))) = 100"
proof -
  have "std_map_ok [(5 :: u32, McGroupStats_init)]" by (simp add: std_map_ok_def)
  from scan_totals_between [OF split_run(1) this split_run(2), of CBytes] show ?thesis
    by (simp add: split_run(5) total_of_totals)
qed

text \<open>
  A report is not a snapshot, although the comment of \<open>GetMcTotals\<close> says the totals are
  those of an instant. A packet that arrives between two loads gives totals that the counters
  never had together: here no packet but its hundred bytes.
\<close>

theorem report_is_no_snapshot:
  "\<exists>es s. race_run (scan_start [(5, McGroupStats_init)] []) es s \<and> reads s = [] \<and> todo s = []
    \<and> TotalPackets (acc s) = 0 \<and> TotalBytes (acc s) = 100
    \<and> (\<forall>k. GetMcTotals [(5, fold apply_op (take k (update_ops 100 0 McGroupStats_init))
          McGroupStats_init)] \<noteq> acc s)"
proof -
  let ?g = "\<lambda>k. fold apply_op (take k (update_ops 100 0 McGroupStats_init)) McGroupStats_init"
  have "Packets (?g k) \<noteq> 0 \<or> Bytes (?g k) \<noteq> 100" for k
    by (cases k rule: nat.exhaust; simp add: update_ops_def McGroupStats_init_def take_Cons'
        split: nat.split)
  then have "GetMcTotals [(5, ?g k)] \<noteq> acc (snd split_end)" for k
    using GetMcTotals_sel [of "[(5, ?g k)]"] by (auto simp: split_run(4))
  with split_run show ?thesis
    by (intro exI [of _ "fst split_end"] exI [of _ "snd split_end"]) simp
qed

section \<open>Groups that are not configured\<close>

text \<open>
  The interleavings above need the groups of the map to stay the same. They do exactly as long
  as packets carry the address of a group that is in it: the socket is bound to an address
  and a port, so a datagram sent to that address directly arrives too, and \<open>operator[]\<close> then
  inserts a group for it, while the report thread may be iterating over the map.
\<close>

theorem update_keeps_groups_iff:
  assumes "std_map_ok m"
  shows "(\<forall>k. std_map_find (RioConsumer_GroupStatsUpdate addr pktSize hdr m) k = None
        \<longleftrightarrow> std_map_find m k = None)
    \<longleftrightarrow> std_map_find m (s_addr addr) \<noteq> None"
  using assms by (auto simp: RioConsumer_GroupStatsUpdate_def std_map_find_modify)

theorem update_keeps_groups_iff_witness:
  "\<exists>k. (std_map_find (RioConsumer_GroupStatsUpdate \<lparr>sin_family = 2, sin_port = 0, s_addr = 9\<rparr> 100
       \<lparr>Token = 0, CmdType = 0, Tag = 0, Seq = 0, Timestamp = 0\<rparr> [(5, McGroupStats_init)]) k = None)
     \<noteq> (std_map_find [(5, McGroupStats_init)] k = None)"
proof -
  have "std_map_ok [(5 :: u32, McGroupStats_init)]" by (simp add: std_map_ok_def)
  from update_keeps_groups_iff [OF this, of "\<lparr>sin_family = 2, sin_port = 0, s_addr = 9\<rparr>" 100
      "\<lparr>Token = 0, CmdType = 0, Tag = 0, Seq = 0, Timestamp = 0\<rparr>"]
  show ?thesis by (auto simp: std_map_find_def)
qed

end
