(* ===== verification/Str_Utils.thy ===== *)
theory Str_Utils
  imports Cpp_Std
begin

text \<open>
  String helpers of StringUtils.cpp: the two \<open>split\<close> functions, the case-insensitive
  comparison, the trimming functions, and \<open>join\<close> of StringUtils.hpp. Strings are lists of
  characters; a position is a natural number and \<open>npos\<close> is \<open>None\<close>, with \<open>npos + 1\<close> written
  out as the 0 it wraps to.
\<close>

section \<open>split on a character\<close>

text \<open>
  \<open>std::getline(ss, item, delim)\<close> extracts up to the delimiter and drops it; it fails once
  nothing is left to extract. The loop of \<open>split\<close> collects the items until then.
\<close>

definition getline :: "char \<Rightarrow> string \<Rightarrow> (string \<times> string) option" where
  "getline delim s =
     (if s = [] then None
      else Some (takeWhile (\<lambda>c. c \<noteq> delim) s, drop 1 (dropWhile (\<lambda>c. c \<noteq> delim) s)))"

lemma getline_shorter:
  "getline delim s = Some (item, rest) \<Longrightarrow> length rest < length s"
  by (auto simp: getline_def length_dropWhile_le less_Suc_eq_le split: if_splits)
     (metis diff_Suc_less diff_less_mono2 le_imp_less_Suc length_dropWhile_le length_greater_0_conv
       less_imp_diff_less nat_less_le diff_is_0_eq diff_le_self)

function split :: "string \<Rightarrow> char \<Rightarrow> string list" where
  "split s delim =
     (case getline delim s of None \<Rightarrow> [] | Some (item, rest) \<Rightarrow> item # split rest delim)"
  by pat_completeness auto
termination
  by (relation "measure (\<lambda>(s, delim). length s)") (auto dest: getline_shorter)

declare split.simps [simp del]

lemma split_Nil [simp]: "split [] d = []"
  by (subst split.simps) (simp add: getline_def)

lemma split_nonempty:
  "s \<noteq> [] \<Longrightarrow> split s d = takeWhile (\<lambda>c. c \<noteq> d) s # split (drop 1 (dropWhile (\<lambda>c. c \<noteq> d) s)) d"
  by (subst split.simps) (simp add: getline_def)

lemma split_append_delim:
  "d \<notin> set xs \<Longrightarrow> split (xs @ d # ys) d = xs # split ys d"
  by (subst split_nonempty) (auto simp: takeWhile_append dropWhile_append)

lemma split_no_delim:
  assumes "d \<notin> set xs" and "xs \<noteq> []"
  shows "split xs d = [xs]"
proof -
  have "takeWhile (\<lambda>c. c \<noteq> d) xs = xs" "dropWhile (\<lambda>c. c \<noteq> d) xs = []"
    using assms(1) by (auto simp: takeWhile_eq_all_conv)
  then show ?thesis
    by (simp only: split_nonempty [OF assms(2)] drop_Nil split_Nil)
qed

text \<open>
  \<open>split\<close> on a character is correct: no piece contains the delimiter, and joining the
  pieces with it gives back the input, less one trailing delimiter (a string that ends in
  the delimiter has no empty last piece, and the empty string has no piece at all).
\<close>

theorem split_char_correct:
  "(\<forall>item\<in>set (split s d). d \<notin> set item)
   \<and> intercalate [d] (split s d) = (if s \<noteq> [] \<and> last s = d then butlast s else s)"
proof (induction "length s" arbitrary: s rule: less_induct)
  case less
  show ?case
  proof (cases "s = [] \<or> d \<notin> set s")
    case True
    then show ?thesis by (cases "s = []") (auto simp: split_no_delim)
  next
    case False
    then obtain xs ys where s: "s = xs @ d # ys" and xs: "d \<notin> set xs"
      by (metis split_list_first)
    have "length ys < length s" by (simp add: s)
    from less [OF this] show ?thesis
      by (cases ys) (auto simp: s split_append_delim [OF xs] xs intercalate_Cons split_nonempty
          butlast_append split: if_splits)
  qed
qed

theorem split_char_correct_witness:
  "split ''10,20,'' CHR '','' = [''10'', ''20'']
   \<and> intercalate '','' [''10'', ''20''] = butlast ''10,20,''"
proof -
  have "split ''10,20,'' CHR '','' = [''10'', ''20'']" by code_simp
  with split_char_correct [of "''10,20,''" "CHR '',''"] show ?thesis by simp
qed

section \<open>split on a string\<close>

text \<open>\<open>s.find(delimiter, pos)\<close>: the first position at or after \<open>pos\<close>; none beyond the end.\<close>

fun find_str :: "string \<Rightarrow> string \<Rightarrow> nat option" where
  "find_str delim s =
     (if take (length delim) s = delim then Some 0
      else case s of [] \<Rightarrow> None | c # r \<Rightarrow> map_option Suc (find_str delim r))"

declare find_str.simps [simp del]

definition find_str_from :: "string \<Rightarrow> string \<Rightarrow> nat \<Rightarrow> nat option" where
  "find_str_from delim s pos =
     (if pos \<le> length s then map_option (\<lambda>i. pos + i) (find_str delim (drop pos s)) else None)"

text \<open>
  The loop of the second \<open>split\<close>. With an empty delimiter the search always succeeds at
  \<open>pos_start\<close> and the position never moves, so the loop does not end: not returning is the
  value \<open>None\<close>.
\<close>

partial_function (option) split_str_loop ::
    "string \<Rightarrow> string \<Rightarrow> nat \<Rightarrow> string list \<Rightarrow> string list option" where
  "split_str_loop s delim pos_start res =
     (case find_str_from delim s pos_start of
        None \<Rightarrow> Some (res @ [drop pos_start s])
      | Some pos_end \<Rightarrow>
          split_str_loop s delim (pos_end + length delim)
            (res @ [take (pos_end - pos_start) (drop pos_start s)]))"

definition split_str :: "string \<Rightarrow> string \<Rightarrow> string list option" where
  "split_str s delim = split_str_loop s delim 0 []"

lemma take_eq_length: "take (length d) s = d \<Longrightarrow> length d \<le> length s"
  by (metis length_take min.cobounded1)

lemma find_str_Some:
  "find_str delim s = Some i \<Longrightarrow> i + length delim \<le> length s \<and> take (length delim) (drop i s) = delim"
proof (induction s arbitrary: i)
  case Nil
  then show ?case by (subst (asm) find_str.simps) (auto split: if_splits)
next
  case (Cons c s)
  show ?case
  proof (cases "take (length delim) (c # s) = delim")
    case True
    with Cons.prems have "i = 0" by (subst (asm) find_str.simps) simp
    with True take_eq_length [OF True] show ?thesis by simp
  next
    case False
    with Cons.prems obtain j where "find_str delim s = Some j" "i = Suc j"
      by (subst (asm) find_str.simps) auto
    with Cons.IH [of j] show ?thesis by simp
  qed
qed

lemma find_str_from_Some:
  assumes "find_str_from delim s pos = Some e"
  shows "pos \<le> e" and "e + length delim \<le> length s"
    and "drop pos s = take (e - pos) (drop pos s) @ delim @ drop (e + length delim) s"
proof -
  from assms obtain i where p: "pos \<le> length s" and i: "find_str delim (drop pos s) = Some i"
    and e: "e = pos + i"
    by (auto simp: find_str_from_def split: if_splits)
  from find_str_Some [OF i] have l: "i + length delim \<le> length (drop pos s)"
    and t: "take (length delim) (drop i (drop pos s)) = delim" by auto
  show "pos \<le> e" and "e + length delim \<le> length s" using l p by (auto simp: e)
  have "drop pos s = take i (drop pos s) @ drop i (drop pos s)"
    by (simp only: append_take_drop_id)
  also have "drop i (drop pos s) = delim @ drop (length delim) (drop i (drop pos s))"
    using t by (metis append_take_drop_id)
  finally show "drop pos s = take (e - pos) (drop pos s) @ delim @ drop (e + length delim) s"
    by (simp add: e add.commute add.left_commute)
qed

lemma intercalate_snoc:
  "res \<noteq> [] \<Longrightarrow> intercalate sep (res @ [x]) = intercalate sep res @ sep @ x"
  by (induction res) (auto simp: intercalate_Cons)

lemma split_str_loop_returns:
  assumes "delim \<noteq> []" and "pos \<le> length s"
  shows "\<exists>ps. split_str_loop s delim pos res = Some (res @ ps) \<and> ps \<noteq> []
    \<and> intercalate delim ps = drop pos s"
  using assms(2)
proof (induction "length s - pos" arbitrary: pos res rule: less_induct)
  case less
  show ?case
  proof (cases "find_str_from delim s pos")
    case None
    then show ?thesis by (subst split_str_loop.simps) simp
  next
    case (Some e)
    note f = find_str_from_Some [OF Some]
    have "length s - (e + length delim) < length s - pos"
      using f(1,2) assms(1) by (cases delim) auto
    from less.hyps [OF this, of "res @ [take (e - pos) (drop pos s)]"] f(2)
    obtain ps where "split_str_loop s delim (e + length delim)
          (res @ [take (e - pos) (drop pos s)]) = Some ((res @ [take (e - pos) (drop pos s)]) @ ps)"
      and ps: "ps \<noteq> []" "intercalate delim ps = drop (e + length delim) s"
      by blast
    then have "split_str_loop s delim pos res = Some (res @ take (e - pos) (drop pos s) # ps)"
      by (subst split_str_loop.simps) (simp add: Some)
    moreover have "intercalate delim (take (e - pos) (drop pos s) # ps) = drop pos s"
      using ps f(3) by (simp add: intercalate_Cons)
    ultimately show ?thesis by blast
  qed
qed

lemma find_str_empty [simp]: "find_str [] s = Some 0"
  by (subst find_str.simps) simp

text \<open>
  C40: \<open>split\<close> on a string terminates for every delimiter that is not empty, and joining
  its pieces with the delimiter gives back the input exactly.
\<close>

theorem split_str_terminates:
  assumes "delim \<noteq> []"
  shows "\<exists>res. split_str s delim = Some res \<and> res \<noteq> [] \<and> intercalate delim res = s"
  using split_str_loop_returns [OF assms, of 0 s "[]"] by (simp add: split_str_def)

theorem split_str_terminates_witness:
  "\<exists>res. split_str ''a, b'' '', '' = Some res \<and> res \<noteq> [] \<and> intercalate '', '' res = ''a, b''"
  by (rule split_str_terminates) simp

text \<open>
  With an empty delimiter \<open>split\<close> on a string never returns.
\<close>

theorem split_str_empty_delimiter_diverges: "split_str s [] = None"
proof -
  have never: "split_str_loop s delim pos res \<noteq> Some r" if "delim = []" "pos = 0" for delim pos res r
  proof
    assume ret: "split_str_loop s delim pos res = Some r"
    have "delim = [] \<and> pos = 0 \<longrightarrow> False"
      by (rule split_str_loop.raw_induct [where P = "\<lambda>s d p res r. d = [] \<and> p = 0 \<longrightarrow> False", OF _ ret])
         (auto simp: find_str_from_def split: if_splits)
    with that show False by simp
  qed
  show ?thesis
    unfolding split_str_def using never [of "[]" 0 "[]"]
    by (cases "split_str_loop s [] 0 []") auto
qed

section \<open>Case-insensitive comparison\<close>

text \<open>\<open>tolower\<close> in the "C" locale; \<open>std::equal\<close> on two ranges also compares the lengths.\<close>

definition tolower :: "char \<Rightarrow> char" where
  "tolower c = (if 65 \<le> (of_char c :: nat) \<and> (of_char c :: nat) \<le> 90
     then char_of ((of_char c :: nat) + 32) else c)"

definition IsEqualCaseInsensitive :: "string \<Rightarrow> string \<Rightarrow> bool" where
  "IsEqualCaseInsensitive a b = list_all2 (\<lambda>a b. tolower a = tolower b) a b"

lemma IsEqualCaseInsensitive_iff:
  "IsEqualCaseInsensitive a b \<longleftrightarrow> map tolower a = map tolower b"
  by (auto simp: IsEqualCaseInsensitive_def list_all2_conv_all_nth list_eq_iff_nth_eq)

lemma IsEqualCaseInsensitive_equiv: "equivp IsEqualCaseInsensitive"
  by (rule equivpI) (auto simp: reflp_def symp_def transp_def IsEqualCaseInsensitive_iff)

section \<open>Trimming\<close>

text \<open>
  \<open>find_last_not_of\<close> and \<open>find_first_not_of\<close>; \<open>erase(pos)\<close> drops everything from a position
  on and \<open>erase(0, n)\<close> the first \<open>n\<close> characters, all of them when \<open>n\<close> is \<open>npos\<close>.
\<close>

fun find_first_not_of :: "string \<Rightarrow> string \<Rightarrow> nat option" where
  "find_first_not_of [] t = None"
| "find_first_not_of (c # s) t =
     (if c \<notin> set t then Some 0 else map_option Suc (find_first_not_of s t))"

definition find_last_not_of :: "string \<Rightarrow> string \<Rightarrow> nat option" where
  "find_last_not_of s t = map_option (\<lambda>i. length s - 1 - i) (find_first_not_of (rev s) t)"

definition rtrim :: "string \<Rightarrow> string \<Rightarrow> string" where
  "rtrim s t = take (case find_last_not_of s t of None \<Rightarrow> 0 | Some i \<Rightarrow> i + 1) s"

definition ltrim :: "string \<Rightarrow> string \<Rightarrow> string" where
  "ltrim s t = (case find_first_not_of s t of None \<Rightarrow> [] | Some i \<Rightarrow> drop i s)"

definition trim :: "string \<Rightarrow> string \<Rightarrow> string" where
  "trim s t = ltrim (rtrim s t) t"

lemma find_first_not_of_dropWhile:
  "(case find_first_not_of s t of None \<Rightarrow> [] | Some i \<Rightarrow> drop i s) = dropWhile (\<lambda>c. c \<in> set t) s"
  "find_first_not_of s t = Some i \<Longrightarrow> i < length s"
  by (induction s arbitrary: i) (auto split: option.splits if_splits)

lemma ltrim_dropWhile: "ltrim s t = dropWhile (\<lambda>c. c \<in> set t) s"
  by (simp add: ltrim_def find_first_not_of_dropWhile)

lemma rtrim_dropWhile: "rtrim s t = rev (dropWhile (\<lambda>c. c \<in> set t) (rev s))"
proof (cases "find_first_not_of (rev s) t")
  case None
  then show ?thesis
    using find_first_not_of_dropWhile(1) [of "rev s" t]
    by (simp add: rtrim_def find_last_not_of_def)
next
  case (Some i)
  then have "i < length s" using find_first_not_of_dropWhile(2) [OF Some] by simp
  then have i: "length s - 1 - i + 1 = length s - i" by arith
  have "rev (dropWhile (\<lambda>c. c \<in> set t) (rev s)) = rev (drop i (rev s))"
    using find_first_not_of_dropWhile(1) [of "rev s" t] Some by simp
  also have "\<dots> = take (length s - i) s" by (simp add: rev_drop)
  finally show ?thesis
    by (simp only: rtrim_def find_last_not_of_def Some option.map option.case i)
qed

text \<open>
  \<open>trim\<close> removes exactly the characters of the set at both ends: the input is the
  result between two runs of trimmed characters, and the result neither starts nor ends
  with one (it is empty when every character of the input is in the set).
\<close>

theorem trim_correct:
  "\<exists>pre post. s = pre @ trim s t @ post \<and> set pre \<subseteq> set t \<and> set post \<subseteq> set t
    \<and> (trim s t = [] \<or> hd (trim s t) \<notin> set t \<and> last (trim s t) \<notin> set t)"
proof -
  let ?P = "\<lambda>c. c \<in> set t"
  let ?r = "rtrim s t"
  have r: "?r = rev (dropWhile ?P (rev s))" by (rule rtrim_dropWhile)
  have "s = rev (takeWhile ?P (rev s) @ dropWhile ?P (rev s))" by simp
  then have s: "s = ?r @ rev (takeWhile ?P (rev s))" unfolding r rev_append .
  have t: "trim s t = dropWhile ?P ?r" by (simp add: trim_def ltrim_dropWhile)
  have "?r = takeWhile ?P ?r @ trim s t" unfolding t by simp
  with s have "s = takeWhile ?P ?r @ trim s t @ rev (takeWhile ?P (rev s))"
    by (metis append.assoc)
  moreover have "set (takeWhile ?P xs) \<subseteq> set t" for xs
    by (auto dest: set_takeWhileD)
  moreover have "hd (trim s t) \<notin> set t \<and> last (trim s t) \<notin> set t" if ne: "trim s t \<noteq> []"
  proof
    show "hd (trim s t) \<notin> set t" using ne hd_dropWhile [of ?P ?r] by (simp add: t)
    from ne have "?r \<noteq> []" by (auto simp: t)
    then have d: "dropWhile ?P (rev s) \<noteq> []" by (simp add: r)
    have "last (trim s t) = last ?r"
      using ne \<open>?r = takeWhile ?P ?r @ trim s t\<close> by (metis last_appendR)
    also have "\<dots> = hd (dropWhile ?P (rev s))" using d by (simp add: r last_rev)
    finally show "last (trim s t) \<notin> set t" using hd_dropWhile [OF d] by simp
  qed
  ultimately show ?thesis by (metis set_rev)
qed

theorem trim_correct_witness:
  "\<exists>pre post. '' 239.5 '' = pre @ ''239.5'' @ post \<and> set pre \<subseteq> {CHR '' ''} \<and> set post \<subseteq> {CHR '' ''}"
proof -
  have "trim '' 239.5 '' '' '' = ''239.5''" by code_simp
  with trim_correct [of "'' 239.5 ''" "'' ''"] show ?thesis by simp
qed

section \<open>join\<close>

text \<open>
  The parameters of \<open>join\<close> are string views; \<open>None\<close> is a view without data, which prints
  nothing. An empty sequence prints the \<open>empty\<close> parameter if it has data, otherwise
  \<open>start\<close> and \<open>end\<close>.
\<close>

record join_params =
  sep :: "string option"
  start :: "string option"
  end' :: "string option"
  before :: "string option"
  after :: "string option"
  empty :: "string option"

definition sv :: "string option \<Rightarrow> string" where
  "sv v = (case v of None \<Rightarrow> [] | Some s \<Rightarrow> s)"

definition join_params_default :: join_params where
  "join_params_default = \<lparr>sep = Some '' '', start = None, end' = None, before = None,
     after = None, empty = None\<rparr>"

definition array_sep :: join_params where
  "array_sep = \<lparr>sep = Some '', '', start = Some ''['', end' = Some '']'', before = Some [],
     after = Some [], empty = Some []\<rparr>"

definition string_sep_with_coma :: join_params where
  "string_sep_with_coma = \<lparr>sep = Some '', '', start = Some [], end' = Some [],
     before = Some [CHR 0x22], after = Some [CHR 0x22], empty = Some []\<rparr>"

definition huge_array_sep :: join_params where
  "huge_array_sep = \<lparr>sep = Some '', '', start = Some ''['', end' = Some '']'',
     before = Some (CHR 0x0A # ''    ''), after = Some [], empty = Some []\<rparr>"

fun join_rest :: "string \<Rightarrow> string list \<Rightarrow> join_params \<Rightarrow> string" where
  "join_rest os [] p = os"
| "join_rest os (x # xs) p = join_rest (os @ sv (sep p) @ sv (before p) @ x @ sv (after p)) xs p"

definition join :: "string \<Rightarrow> string list \<Rightarrow> join_params \<Rightarrow> string" where
  "join os xs p =
     (case xs of
        [] \<Rightarrow> (case empty p of Some e \<Rightarrow> os @ e | None \<Rightarrow> os @ sv (start p) @ sv (end' p))
      | x # r \<Rightarrow> join_rest (os @ sv (start p) @ sv (before p) @ x @ sv (after p)) r p @ sv (end' p))"

lemma join_rest_eq:
  "join_rest os xs p =
     os @ concat (map (\<lambda>x. sv (sep p) @ sv (before p) @ x @ sv (after p)) xs)"
  by (induction xs arbitrary: os) simp_all

lemma concat_intercalate:
  "x @ concat (map (\<lambda>y. s @ y) ys) = intercalate s (x # ys)"
  by (induction ys arbitrary: x) (simp_all add: intercalate_Cons)

text \<open>
  \<open>join\<close> appends to the stream the start text, the items, each between \<open>before\<close> and
  \<open>after\<close>, with the separator exactly between two of them, and the end text; for no items
  it appends the \<open>empty\<close> text if there is one and otherwise start and end.
\<close>

theorem join_correct:
  "join os xs p = os @
     (if xs = [] \<and> empty p \<noteq> None then sv (empty p)
      else sv (start p)
        @ intercalate (sv (sep p)) (map (\<lambda>x. sv (before p) @ x @ sv (after p)) xs)
        @ sv (end' p))"
proof (cases xs)
  case Nil
  then show ?thesis by (auto simp: join_def sv_def split: option.split)
next
  case (Cons y ys)
  let ?w = "\<lambda>x. sv (before p) @ x @ sv (after p)"
  have "join os xs p = os @ sv (start p) @ (?w y @ concat (map (\<lambda>z. sv (sep p) @ z) (map ?w ys)))
      @ sv (end' p)"
    by (simp add: join_def Cons join_rest_eq comp_def)
  then show ?thesis by (simp only: concat_intercalate) (simp add: Cons)
qed

end
