(* ===== verification/Ipv4_Addr.thy ===== *)
theory Ipv4_Addr
  imports Str_Utils
begin

unbundle bit_operations_syntax

text \<open>
  IPv4 addresses (\<open>swxtch::net::Ipv4Addr_t\<close>, NetworkUtils.hpp). The address is kept in
  network byte order; arithmetic is done in host order. The Winsock functions it calls are
  not part of the program: they are the fields of the record \<open>winsock\<close>, an argument of the
  definitions, and the locale \<open>winsock_doc\<close> states what their documentation promises.
\<close>

section \<open>The Winsock functions\<close>

record winsock =
  htonl :: "u32 \<Rightarrow> u32"
  ntohl :: "u32 \<Rightarrow> u32"
  inet_pton4 :: "string \<Rightarrow> u32 option"
  inet_ntop4 :: "u32 \<Rightarrow> string"

text \<open>
  \<open>inet_pton4\<close> is \<open>inet_pton(AF_INET, ...)\<close>: \<open>Some\<close> of the address in network order when it
  returns 1, \<open>None\<close> otherwise. The text form of an address is its four octets in decimal,
  most significant first, separated by dots.
\<close>

definition octet :: "nat \<Rightarrow> u32 \<Rightarrow> nat" where
  "octet i h = unat h div 256 ^ i mod 256"

definition dotted :: "u32 \<Rightarrow> string" where
  "dotted h = dec_of_nat (octet 3 h) @ ''.'' @ dec_of_nat (octet 2 h) @ ''.''
     @ dec_of_nat (octet 1 h) @ ''.'' @ dec_of_nat (octet 0 h)"

text \<open>Exchanging the four bytes of a word, as a little-endian host does.\<close>

definition bswap32 :: "u32 \<Rightarrow> u32" where
  "bswap32 x = of_nat (octet 0 x * 2 ^ 24 + octet 1 x * 2 ^ 16 + octet 2 x * 2 ^ 8 + octet 3 x)"

locale winsock_doc =
  fixes ws :: winsock
  assumes ntohl_htonl: "ntohl ws (htonl ws x) = x"
    and htonl_ntohl: "htonl ws (ntohl ws x) = x"
    and ntop_dotted: "inet_ntop4 ws a = dotted (ntohl ws a)"
    and pton_dotted: "inet_pton4 ws (dotted h) = Some (htonl ws h)"
begin

lemma htonl_inj: "htonl ws x = htonl ws y \<longleftrightarrow> x = y"
  by (metis ntohl_htonl)

lemma pton_ntop: "inet_pton4 ws (inet_ntop4 ws a) = Some a"
  by (simp add: ntop_dotted pton_dotted htonl_ntohl)

end

text \<open>The hosts the program is built for (Windows on x64) are little-endian.\<close>

locale winsock_le = winsock_doc +
  assumes htonl_bswap: "htonl ws x = bswap32 x"

section \<open>Ipv4Addr\_t\<close>

datatype Ipv4Addr_t = Ipv4Addr (ip_be: u32)

text \<open>\<open>operator>\<close> compares the stored words, that is, the addresses in network byte order.\<close>

instantiation Ipv4Addr_t :: linorder
begin

definition less_eq_Ipv4Addr_t :: "Ipv4Addr_t \<Rightarrow> Ipv4Addr_t \<Rightarrow> bool" where
  "less_eq_Ipv4Addr_t a b \<longleftrightarrow> ip_be a \<le> ip_be b"

definition less_Ipv4Addr_t :: "Ipv4Addr_t \<Rightarrow> Ipv4Addr_t \<Rightarrow> bool" where
  "less_Ipv4Addr_t a b \<longleftrightarrow> ip_be a < ip_be b"

instance
  by standard
     (auto simp: less_eq_Ipv4Addr_t_def less_Ipv4Addr_t_def Ipv4Addr_t.expand not_le not_less)

end

definition Ipv4_gt :: "Ipv4Addr_t \<Rightarrow> Ipv4Addr_t \<Rightarrow> bool" where
  "Ipv4_gt a v \<longleftrightarrow> ip_be a > ip_be v"

definition Ipv4_ne :: "Ipv4Addr_t \<Rightarrow> Ipv4Addr_t \<Rightarrow> bool" where
  "Ipv4_ne a v \<longleftrightarrow> ip_be a \<noteq> ip_be v"

definition Ipv4_empty :: "Ipv4Addr_t \<Rightarrow> bool" where
  "Ipv4_empty a \<longleftrightarrow> ip_be a = 0"

definition Ipv4_default :: Ipv4Addr_t where
  "Ipv4_default = Ipv4Addr 0"

text \<open>\<open>operator=(const std::string&)\<close>, which the string constructor calls.\<close>

definition Ipv4_of_string :: "winsock \<Rightarrow> string \<Rightarrow> Ipv4Addr_t result" where
  "Ipv4_of_string ws v =
     (if v = [] then Inr (Ipv4Addr 0)
      else case inet_pton4 ws v of
        None \<Rightarrow> Inl (Throw (invalid_argument ''Ipv4Addr_t: Invalid IP Address''))
      | Some ip_be_temp \<Rightarrow> Inr (Ipv4Addr ip_be_temp))"

definition setNetOrder :: "u32 \<Rightarrow> Ipv4Addr_t \<Rightarrow> Ipv4Addr_t" where
  "setNetOrder v a = Ipv4Addr v"

definition setHostOrder :: "winsock \<Rightarrow> u32 \<Rightarrow> Ipv4Addr_t \<Rightarrow> Ipv4Addr_t" where
  "setHostOrder ws v a = Ipv4Addr (htonl ws v)"

definition ipNetOrder :: "Ipv4Addr_t \<Rightarrow> u32" where
  "ipNetOrder a = ip_be a"

definition ipHostOrder :: "winsock \<Rightarrow> Ipv4Addr_t \<Rightarrow> u32" where
  "ipHostOrder ws a = ntohl ws (ip_be a)"

text \<open>\<open>operator+\<close> takes the number to add and adds one.\<close>

definition Ipv4_plus :: "winsock \<Rightarrow> Ipv4Addr_t \<Rightarrow> u32 \<Rightarrow> Ipv4Addr_t" where
  "Ipv4_plus ws a i = setHostOrder ws (ipHostOrder ws a + 1) a"

definition setLowerBits :: "winsock \<Rightarrow> Ipv4Addr_t \<Rightarrow> u32 \<Rightarrow> Ipv4Addr_t \<Rightarrow> Ipv4Addr_t" where
  "setLowerBits ws subnet v a = setHostOrder ws
     ((ipHostOrder ws a AND ipHostOrder ws subnet) OR (v AND NOT (ipHostOrder ws subnet))) a"

definition lowerBits :: "winsock \<Rightarrow> Ipv4Addr_t \<Rightarrow> Ipv4Addr_t \<Rightarrow> u32" where
  "lowerBits ws subnet a = ipHostOrder ws a AND NOT (ipHostOrder ws subnet)"

definition Ipv4_str :: "winsock \<Rightarrow> Ipv4Addr_t \<Rightarrow> string" where
  "Ipv4_str ws a = inet_ntop4 ws (ip_be a)"

lemmas Ipv4_defs = Ipv4_gt_def Ipv4_ne_def Ipv4_empty_def Ipv4_of_string_def setNetOrder_def
  setHostOrder_def ipNetOrder_def ipHostOrder_def Ipv4_plus_def setLowerBits_def
  lowerBits_def Ipv4_str_def

lemma Ipv4_gt_less: "Ipv4_gt a v \<longleftrightarrow> v < a"
  by (simp add: Ipv4_gt_def less_Ipv4Addr_t_def)

section \<open>A reference implementation of the Winsock functions\<close>

text \<open>
  The documented behaviour, computed: byte exchange, dotted-decimal printing, and a parser
  that wants exactly four decimal octets of one to three digits. The locales are
  interpreted on it, and the witnesses of the properties use it.
\<close>

fun split_on :: "char \<Rightarrow> string \<Rightarrow> string list" where
  "split_on c [] = [[]]"
| "split_on c (x # xs) =
     (if x = c then [] # split_on c xs
      else case split_on c xs of [] \<Rightarrow> [[x]] | y # ys \<Rightarrow> (x # y) # ys)"

definition parse_octet :: "string \<Rightarrow> nat option" where
  "parse_octet s =
     (if s \<noteq> [] \<and> length s \<le> 3 \<and> list_all is_digit s \<and> nat_of_digits s \<le> 255
      then Some (nat_of_digits s) else None)"

definition parse_dotted :: "string \<Rightarrow> u32 option" where
  "parse_dotted s =
     (case map parse_octet (split_on CHR ''.'' s) of
        [Some a, Some b, Some c, Some d] \<Rightarrow>
          Some (of_nat (a * 2 ^ 24 + b * 2 ^ 16 + c * 2 ^ 8 + d))
      | _ \<Rightarrow> None)"

definition ref_winsock :: winsock where
  "ref_winsock = \<lparr>htonl = bswap32, ntohl = bswap32,
     inet_pton4 = (\<lambda>s. map_option bswap32 (parse_dotted s)),
     inet_ntop4 = (\<lambda>a. dotted (bswap32 a))\<rparr>"

subsection \<open>Octets of a word\<close>

lemma octet_less [simp]: "octet i h < 256" by (simp add: octet_def)

lemma div_steps:
  fixes n :: nat
  shows "n div 256 ^ 2 = n div 256 div 256" "n div 256 ^ 3 = n div 256 div 256 div 256"
  by (simp_all add: div_mult2_eq [symmetric])

lemma byte_digits:
  fixes a b c d :: nat
  assumes "a < 256" "b < 256" "c < 256" "d < 256"
  shows "(a * 2 ^ 24 + b * 2 ^ 16 + c * 2 ^ 8 + d) mod 256 = d"
    "(a * 2 ^ 24 + b * 2 ^ 16 + c * 2 ^ 8 + d) div 256 mod 256 = c"
    "(a * 2 ^ 24 + b * 2 ^ 16 + c * 2 ^ 8 + d) div 256 ^ 2 mod 256 = b"
    "(a * 2 ^ 24 + b * 2 ^ 16 + c * 2 ^ 8 + d) div 256 ^ 3 mod 256 = a"
    "a * 2 ^ 24 + b * 2 ^ 16 + c * 2 ^ 8 + d < 2 ^ 32"
proof -
  let ?n = "a * 2 ^ 24 + b * 2 ^ 16 + c * 2 ^ 8 + d"
  have step: "r < 256 \<Longrightarrow> (m * 256 + r) div 256 = m" "r < 256 \<Longrightarrow> (m * 256 + r) mod 256 = r" for m r :: nat
    by simp_all
  have n: "?n = ((a * 256 + b) * 256 + c) * 256 + d" by simp
  have 1: "?n div 256 = (a * 256 + b) * 256 + c" "?n mod 256 = d"
    unfolding n using assms(4) by (rule step)+
  have 2: "?n div 256 div 256 = a * 256 + b" "?n div 256 mod 256 = c"
    unfolding 1 using assms(3) by (rule step)+
  have 3: "?n div 256 div 256 div 256 = a" "?n div 256 div 256 mod 256 = b"
    unfolding 2 using assms(2) by (rule step)+
  show "?n mod 256 = d" "?n div 256 mod 256 = c" by fact+
  show "?n div 256 ^ 2 mod 256 = b" unfolding div_steps by fact
  show "?n div 256 ^ 3 mod 256 = a" unfolding div_steps 3 using assms(1) by simp
  show "?n < 2 ^ 32" using assms by simp
qed

lemma octets_sum:
  "octet 3 h * 2 ^ 24 + octet 2 h * 2 ^ 16 + octet 1 h * 2 ^ 8 + octet 0 h = unat h"
proof -
  let ?u = "unat h"
  have o2: "octet 2 h = ?u div 256 div 256 mod 256" "octet 1 h = ?u div 256 mod 256" "octet 0 h = ?u mod 256"
    by (simp_all only: octet_def div_steps) simp_all
  have "?u div 256 div 256 div 256 < 256"
    using unat_below [of h] by (simp add: div_mult2_eq [symmetric] less_mult_imp_div_less)
  then have o3: "octet 3 h = ?u div 256 div 256 div 256"
    by (simp only: octet_def div_steps) simp
  have key: "q3 * 2 ^ 24 + r2 * 2 ^ 16 + r1 * 2 ^ 8 + r0 = u"
    if "u = q1 * 256 + r0" "q1 = q2 * 256 + r1" "q2 = q3 * 256 + r2" for u q1 q2 q3 r0 r1 r2 :: nat
    using that by simp
  show ?thesis unfolding o3 o2 by (rule key) (rule div_mult_mod_eq [symmetric])+
qed

lemma octet_of_bytes:
  assumes "a < 256" "b < 256" "c < 256" "d < 256"
  defines "w \<equiv> of_nat (a * 2 ^ 24 + b * 2 ^ 16 + c * 2 ^ 8 + d) :: u32"
  shows "octet 3 w = a" "octet 2 w = b" "octet 1 w = c" "octet 0 w = d"
    "unat w = a * 2 ^ 24 + b * 2 ^ 16 + c * 2 ^ 8 + d"
proof -
  note bd = byte_digits [OF assms(1-4)]
  show u: "unat w = a * 2 ^ 24 + b * 2 ^ 16 + c * 2 ^ 8 + d"
    unfolding w_def by (rule unat_of_nat_less) (use bd(5) in simp)
  show "octet 3 w = a" "octet 2 w = b" unfolding octet_def u by (rule bd)+
  show "octet 1 w = c" "octet 0 w = d" unfolding octet_def u using bd(1,2) by simp_all
qed

lemma octets_eqI:
  "octet 3 x = octet 3 y \<Longrightarrow> octet 2 x = octet 2 y \<Longrightarrow> octet 1 x = octet 1 y \<Longrightarrow> octet 0 x = octet 0 y \<Longrightarrow> x = y"
  using octets_sum [of x] octets_sum [of y] by (simp add: word_eq_unat)

lemma octet_bswap [simp]:
  "octet 3 (bswap32 x) = octet 0 x" "octet 2 (bswap32 x) = octet 1 x"
  "octet 1 (bswap32 x) = octet 2 x" "octet 0 (bswap32 x) = octet 3 x"
  unfolding bswap32_def by (rule octet_of_bytes; simp)+

lemma bswap32_involution [simp]: "bswap32 (bswap32 x) = x"
  by (rule octets_eqI) (simp_all del: One_nat_def)

lemma dotted_nonempty [simp]: "dotted h \<noteq> []"
  by (simp add: dotted_def)

lemma split_on_append: "c \<notin> set xs \<Longrightarrow> split_on c (xs @ c # ys) = xs # split_on c ys"
  by (induction xs) (auto split: list.splits)

lemma split_on_no: "c \<notin> set xs \<Longrightarrow> split_on c xs = [xs]"
  by (induction xs) auto

lemma dot_notin_dec [simp]: "CHR ''.'' \<notin> set (dec_of_nat n)" "CHR ''-'' \<notin> set (dec_of_nat n)"
  by (metis dec_of_nat_digits is_digit_not(3)) (metis dec_of_nat_digits is_digit_not(1))

lemma split_dotted:
  "split_on CHR ''.'' (dotted h) = map (\<lambda>i. dec_of_nat (octet i h)) [3, 2, 1, 0]"
  by (simp add: dotted_def split_on_append split_on_no del: One_nat_def)

lemma length_dec_256: "n < 256 \<Longrightarrow> length (dec_of_nat n) \<le> 3"
proof -
  assume "n < 256"
  then have "n div 10 div 10 < 10" by simp
  then show ?thesis
    by (subst dec_of_nat.simps, subst dec_of_nat.simps, subst dec_of_nat.simps) simp
qed

lemma parse_octet_dec: "n < 256 \<Longrightarrow> parse_octet (dec_of_nat n) = Some n"
  using dec_of_nat_digits [of n] length_dec_256 [of n]
  by (simp add: parse_octet_def list_all_iff)

lemma parse_dotted_dotted: "parse_dotted (dotted h) = Some h"
proof -
  have "parse_octet (dec_of_nat (octet i h)) = Some (octet i h)" for i
    by (rule parse_octet_dec) simp
  moreover have "(of_nat (unat h) :: u32) = h" by simp
  ultimately show ?thesis
    by (simp only: parse_dotted_def split_dotted list.map option.case list.case octets_sum)
qed

interpretation refws: winsock_le ref_winsock
  by unfold_locales (simp_all add: ref_winsock_def parse_dotted_dotted)

lemma ref_host [simp]: "ipHostOrder ref_winsock (Ipv4Addr (bswap32 h)) = h"
  by (simp add: ipHostOrder_def ref_winsock_def)

lemma ref_of_dotted:
  "Ipv4_of_string ref_winsock (dotted h) = Inr (Ipv4Addr (bswap32 h))"
  by (simp add: Ipv4_of_string_def ref_winsock_def parse_dotted_dotted)

section \<open>Lemmas on addresses\<close>

context winsock_doc
begin

lemma of_string_str: "Ipv4_of_string ws (Ipv4_str ws a) = Inr a"
  by (simp add: Ipv4_of_string_def Ipv4_str_def pton_ntop) (simp add: ntop_dotted)

lemma of_string_dotted: "Ipv4_of_string ws (dotted h) = Inr (Ipv4Addr (htonl ws h))"
  by (simp add: Ipv4_of_string_def pton_dotted)

lemma host_plus: "ipHostOrder ws (Ipv4_plus ws a i) = ipHostOrder ws a + 1"
  by (simp add: Ipv4_defs ntohl_htonl)

lemma host_inj: "ipHostOrder ws a = ipHostOrder ws b \<longleftrightarrow> a = b"
  by (metis Ipv4Addr_t.expand htonl_ntohl ipHostOrder_def)

lemma host_of_htonl [simp]: "ipHostOrder ws (Ipv4Addr (htonl ws h)) = h"
  by (simp add: ipHostOrder_def ntohl_htonl)

lemma str_dotted: "Ipv4_str ws a = dotted (ipHostOrder ws a)"
  by (simp add: Ipv4_str_def ntop_dotted ipHostOrder_def)

end

end
