(* ===== verification/Ip_Range.thy ===== *)
theory Ip_Range
  imports Ipv4_Addr
begin

text \<open>
  The template \<open>swxtch::utils::Range\<close> and its factories (Range.hpp). The template's
  requirement on its argument (comparable and addable) is the locale \<open>range_elem\<close>: the
  elements are numbered cyclically and adding one moves to the next number. The iteration
  of a range is proved once in that locale and used for ports and for addresses.
\<close>

section \<open>Range\<close>

record 'a Range =
  from_of :: 'a
  till_of :: 'a

text \<open>
  The constructor throws when \<open>from > till\<close>; \<open>gt\<close> is the element type's \<open>operator>\<close> and
  \<open>shw\<close> its stream output.
\<close>

definition mk_Range ::
    "('a \<Rightarrow> 'a \<Rightarrow> bool) \<Rightarrow> ('a \<Rightarrow> string) \<Rightarrow> 'a \<Rightarrow> 'a \<Rightarrow> 'a Range result" where
  "mk_Range gt shw from till =
     (if gt from till
      then Inl (Throw (invalid_argument (''from: '' @ shw from @ '' > '' @ ''till: '' @ shw till)))
      else Inr \<lparr>from_of = from, till_of = till\<rparr>)"

definition mk_Range_single ::
    "('a \<Rightarrow> 'a \<Rightarrow> bool) \<Rightarrow> ('a \<Rightarrow> string) \<Rightarrow> 'a \<Rightarrow> 'a Range result" where
  "mk_Range_single gt shw value = mk_Range gt shw value value"

text \<open>
  The loop \<open>for (x : range)\<close>: from \<open>begin()\<close> while the iterator differs from \<open>end()\<close>, which
  is one past \<open>till\<close>. Whether it ends depends on the element type; not ending is \<open>None\<close>.
\<close>

partial_function (option) range_iterate ::
    "('a \<Rightarrow> 'a \<Rightarrow> bool) \<Rightarrow> ('a \<Rightarrow> 'a) \<Rightarrow> 'a \<Rightarrow> 'a \<Rightarrow> 'a list option" where
  "range_iterate ne inc cur stop =
     (if ne cur stop
      then Option.bind (range_iterate ne inc (inc cur) stop) (\<lambda>xs. Some (cur # xs))
      else Some [])"

definition range_elems ::
    "('a \<Rightarrow> 'a \<Rightarrow> bool) \<Rightarrow> ('a \<Rightarrow> 'a) \<Rightarrow> 'a Range \<Rightarrow> 'a list option" where
  "range_elems ne inc r = range_iterate ne inc (from_of r) (inc (till_of r))"

text \<open>The cyclic distance from one position to another, modulo \<open>N\<close>.\<close>

definition cyc_dist :: "nat \<Rightarrow> nat \<Rightarrow> nat \<Rightarrow> nat" where
  "cyc_dist N p q = (if p \<le> q then q - p else N + q - p)"

locale range_elem =
  fixes ne :: "'a \<Rightarrow> 'a \<Rightarrow> bool" and inc :: "'a \<Rightarrow> 'a" and pos :: "'a \<Rightarrow> nat" and N :: nat
  assumes ne_iff: "ne x y \<longleftrightarrow> x \<noteq> y"
    and pos_less: "pos x < N"
    and pos_inj: "pos x = pos y \<longleftrightarrow> x = y"
    and pos_inc: "pos (inc x) = Suc (pos x) mod N"
begin

lemma iterate_returns:
  "\<exists>xs. range_iterate ne inc cur stop = Some xs \<and> length xs = cyc_dist N (pos cur) (pos stop)
     \<and> (\<forall>i<length xs. pos (xs ! i) = (pos cur + i) mod N)"
proof (induction "cyc_dist N (pos cur) (pos stop)" arbitrary: cur)
  case 0
  then have "pos cur = pos stop"
    using pos_less [of cur] by (auto simp: cyc_dist_def split: if_splits)
  then show ?case
    by (subst range_iterate.simps) (simp add: ne_iff pos_inj cyc_dist_def)
next
  case (Suc k)
  then have ne: "pos cur \<noteq> pos stop" by (auto simp: cyc_dist_def)
  have d: "k = cyc_dist N (pos (inc cur)) (pos stop)"
    using Suc.hyps(2) ne pos_less [of cur] pos_less [of stop]
    by (auto simp: pos_inc cyc_dist_def mod_Suc split: if_splits)
  from Suc.hyps(1) [OF this] obtain xs
    where xs: "range_iterate ne inc (inc cur) stop = Some xs"
      and len: "length xs = cyc_dist N (pos (inc cur)) (pos stop)"
      and p: "\<forall>i<length xs. pos (xs ! i) = (pos (inc cur) + i) mod N"
    by blast
  have len': "length xs = k" using len d by simp
  have "range_iterate ne inc cur stop = Some (cur # xs)"
    using ne by (subst range_iterate.simps) (auto simp: ne_iff xs pos_inj [symmetric])
  moreover have "pos ((cur # xs) ! i) = (pos cur + i) mod N" if "i < Suc k" for i
    using that p len' pos_less [of cur] by (cases i) (auto simp: pos_inc mod_simps)
  ultimately show ?case using Suc.hyps(2) len' by auto
qed

lemma iterate_upto:
  assumes "pos cur \<le> pos stop"
  shows "\<exists>xs. range_iterate ne inc cur stop = Some xs \<and> map pos xs = [pos cur..<pos stop]"
proof -
  obtain xs where xs: "range_iterate ne inc cur stop = Some xs"
    and len: "length xs = pos stop - pos cur"
    and p: "\<forall>i<length xs. pos (xs ! i) = (pos cur + i) mod N"
    using iterate_returns [of cur stop] assms by (auto simp: cyc_dist_def)
  have "map pos xs = [pos cur..<pos stop]"
    using p len pos_less [of stop] by (auto intro!: nth_equalityI)
  with xs show ?thesis by blast
qed

text \<open>A range whose ends are in order, unless it covers the whole type.\<close>

lemma elems_in_order:
  assumes "pos (from_of r) \<le> pos (till_of r)" and "\<not> (pos (from_of r) = 0 \<and> Suc (pos (till_of r)) = N)"
  shows "\<exists>xs. range_elems ne inc r = Some xs
    \<and> map pos xs = [pos (from_of r)..<Suc (pos (till_of r))]"
proof (cases "Suc (pos (till_of r)) = N")
  case False
  then have "Suc (pos (till_of r)) < N" using pos_less [of "till_of r"] by simp
  then have e: "pos (inc (till_of r)) = Suc (pos (till_of r))" by (simp add: pos_inc)
  with iterate_upto [of "from_of r" "inc (till_of r)"] assms(1) show ?thesis
    by (simp add: range_elems_def)
next
  case True
  then have e: "pos (inc (till_of r)) = 0" by (simp add: pos_inc)
  obtain xs where xs: "range_elems ne inc r = Some xs"
    and len: "length xs = N - pos (from_of r)"
    and p: "\<forall>i<length xs. pos (xs ! i) = (pos (from_of r) + i) mod N"
    using iterate_returns [of "from_of r" "inc (till_of r)"] assms(2) True
    by (auto simp: range_elems_def e cyc_dist_def)
  have "map pos xs = [pos (from_of r)..<N]"
    using p len by (auto intro!: nth_equalityI)
  with xs True show ?thesis by auto
qed

text \<open>The range over the whole type: its end is its beginning, and it is empty.\<close>

lemma elems_full:
  "pos (from_of r) = 0 \<Longrightarrow> Suc (pos (till_of r)) = N \<Longrightarrow> range_elems ne inc r = Some []"
  by (subst range_elems_def, subst range_iterate.simps)
     (simp add: ne_iff pos_inj [symmetric] pos_inc)

text \<open>A range whose ends are out of order wraps around the type.\<close>

lemma elems_length:
  "\<exists>xs. range_elems ne inc r = Some xs
     \<and> length xs = cyc_dist N (pos (from_of r)) (Suc (pos (till_of r)) mod N)"
  using iterate_returns [of "from_of r" "inc (till_of r)"]
  by (auto simp: range_elems_def pos_inc)

end

section \<open>The factories\<close>

type_synonym parseStr_t = "string \<Rightarrow> string \<Rightarrow> string"

definition MakeRange ::
    "('a \<Rightarrow> 'a \<Rightarrow> bool) \<Rightarrow> ('a \<Rightarrow> string) \<Rightarrow> string \<Rightarrow> (string \<Rightarrow> 'a result)
       \<Rightarrow> parseStr_t option \<Rightarrow> parseStr_t option \<Rightarrow> 'a Range result" where
  "MakeRange gt shw rng fromString parseFrom parseTill =
     (let parts0 = split rng CHR ''-'';
          parts = (if length parts0 = 1 then [parts0 ! 0, parts0 ! 0] else parts0)
      in if length parts \<noteq> 2
         then Inl (Throw (invalid_argument (''invalid range format: '' @ rng)))
         else
           (let from = (case parseFrom of Some f \<Rightarrow> f (parts ! 0) (parts ! 1) | None \<Rightarrow> parts ! 0);
                till = (case parseTill of Some f \<Rightarrow> f (parts ! 0) (parts ! 1) | None \<Rightarrow> parts ! 1)
            in bind_res (fromString from) (\<lambda>f. bind_res (fromString till) (\<lambda>t. mk_Range gt shw f t))))"

text \<open>\<open>from.find('.', pos)\<close>, with \<open>npos + 1\<close> written out as 0.\<close>

definition find_from_plus_1 :: "string \<Rightarrow> char \<Rightarrow> nat \<Rightarrow> nat" where
  "find_from_plus_1 s c pos =
     (if pos \<le> length s
      then (case find_char (drop pos s) c of None \<Rightarrow> 0 | Some i \<Rightarrow> pos + i + 1)
      else 0)"

fun completeIp_loop :: "string \<Rightarrow> nat \<Rightarrow> nat \<Rightarrow> nat" where
  "completeIp_loop from 0 pos = pos"
| "completeIp_loop from (Suc dots) pos =
     completeIp_loop from dots (find_from_plus_1 from CHR ''.'' pos)"

text \<open>
  The lambda of \<open>MakeIpv4Range\<close>: one step for each dot that \<open>till\<close> lacks. The bound
  \<open>3 - count\<close> is signed, so a \<open>till\<close> with three dots or more takes no step.
\<close>

definition completeIp :: parseStr_t where
  "completeIp from till =
     (let pos = completeIp_loop from (3 - count_list till CHR ''.'') 0
      in take pos from @ till)"

definition MakeIpv4Range :: "winsock \<Rightarrow> string \<Rightarrow> Ipv4Addr_t Range result" where
  "MakeIpv4Range ws rng =
     MakeRange Ipv4_gt (Ipv4_str ws) rng (Ipv4_of_string ws) None (Some completeIp)"

definition u16_of_string :: "string \<Rightarrow> u16 result" where
  "u16_of_string val = (case stoi val of Inl e \<Rightarrow> Inl (Throw e) | Inr v \<Rightarrow> Inr (word_of_int v))"

definition MakePortRange :: "string \<Rightarrow> u16 Range result" where
  "MakePortRange rng =
     MakeRange (\<lambda>a b. a > b) (\<lambda>v. dec_of_nat (unat v)) rng u16_of_string None None"

text \<open>The two element types: addresses step in host order, ports with 16-bit wrap-around.\<close>

definition ipv4_inc :: "winsock \<Rightarrow> Ipv4Addr_t \<Rightarrow> Ipv4Addr_t" where
  "ipv4_inc ws a = Ipv4_plus ws a 1"

definition port_inc :: "u16 \<Rightarrow> u16" where
  "port_inc p = p + 1"

lemma unat_inc_mod: "unat (x + 1 :: 'a::len word) = Suc (unat x) mod 2 ^ LENGTH('a)"
  by (simp add: unat_word_ariths)

interpretation ports: range_elem "\<lambda>a b :: u16. a \<noteq> b" port_inc unat "2 ^ 16"
proof unfold_locales
  fix x y :: u16
  show "unat x < 2 ^ 16" using unat_below [of x] by simp
  show "unat (port_inc x) = Suc (unat x) mod 2 ^ 16"
    using unat_inc_mod [of x] by (simp add: port_inc_def)
qed (simp_all add: unat_cancel)

sublocale winsock_doc \<subseteq> ipv4: range_elem Ipv4_ne "ipv4_inc ws" "\<lambda>a. unat (ipHostOrder ws a)" "2 ^ 32"
proof unfold_locales
  fix x y :: Ipv4Addr_t
  show "Ipv4_ne x y \<longleftrightarrow> x \<noteq> y" by (simp add: Ipv4_ne_def Ipv4Addr_t.expand) (metis Ipv4Addr_t.expand)
  show "unat (ipHostOrder ws x) < 2 ^ 32" using unat_below [of "ipHostOrder ws x"] by simp
  show "unat (ipHostOrder ws x) = unat (ipHostOrder ws y) \<longleftrightarrow> x = y"
    by (simp add: unat_cancel host_inj)
  show "unat (ipHostOrder ws (ipv4_inc ws x)) = Suc (unat (ipHostOrder ws x)) mod 2 ^ 32"
    using unat_inc_mod [of "ipHostOrder ws x"] by (simp add: ipv4_inc_def host_plus)
qed

section \<open>Completing a partial address\<close>

definition dots :: "string list \<Rightarrow> string" where
  "dots xs = intercalate ''.'' xs"

lemma dots_Cons: "dots (x # xs) = (if xs = [] then x else x @ CHR ''.'' # dots xs)"
  by (simp add: dots_def intercalate_Cons)

lemma dotted_dots: "dotted h = dots (map (\<lambda>i. dec_of_nat (octet i h)) [3, 2, 1, 0])"
  by (simp add: dotted_def dots_Cons del: One_nat_def)

lemma find_from_plus_1_dot:
  "CHR ''.'' \<notin> set x \<Longrightarrow>
     find_from_plus_1 (p @ x @ CHR ''.'' # r) CHR ''.'' (length p) = length p + length x + 1"
  by (simp add: find_from_plus_1_def find_char_append)

lemma completeIp_loop_dots:
  assumes "n < length xs" and "\<forall>x\<in>set xs. CHR ''.'' \<notin> set x"
  shows "completeIp_loop (p @ dots xs) n (length p) =
    length (p @ concat (map (\<lambda>x. x @ ''.'') (take n xs)))"
  using assms
proof (induction n arbitrary: p xs)
  case (Suc n)
  then obtain x ys where xs: "xs = x # ys" by (cases xs) auto
  with Suc.prems have "ys \<noteq> []" by auto
  have "completeIp_loop (p @ dots xs) (Suc n) (length p) =
      completeIp_loop ((p @ x @ ''.'') @ dots ys) n (length (p @ x @ ''.''))"
    using Suc.prems xs \<open>ys \<noteq> []\<close> find_from_plus_1_dot [of x p "dots ys"] by (simp add: dots_Cons)
  also have "\<dots> = length ((p @ x @ ''.'') @ concat (map (\<lambda>x. x @ ''.'') (take n ys)))"
    using Suc.prems xs by (intro Suc.IH) auto
  finally show ?case by (simp add: xs)
qed simp

lemma dots_split: "n < length xs \<Longrightarrow>
    dots xs = concat (map (\<lambda>x. x @ ''.'') (take n xs)) @ dots (drop n xs)"
proof (induction n arbitrary: xs)
  case (Suc n)
  then obtain x ys where xs: "xs = x # ys" by (cases xs) auto
  with Suc.prems have "ys \<noteq> []" by auto
  with Suc xs show ?case by (simp add: dots_Cons)
qed simp

lemma count_dots:
  "\<forall>x\<in>set ys. CHR ''.'' \<notin> set x \<Longrightarrow> count_list (dots ys) CHR ''.'' = length ys - 1"
proof (induction ys)
  case (Cons y ys)
  then show ?case by (cases ys) (auto simp: dots_Cons count_list_0_iff)
qed (simp add: dots_def)

lemma dots_append: "ys \<noteq> [] \<Longrightarrow> dots (xs @ ys) = concat (map (\<lambda>x. x @ ''.'') xs) @ dots ys"
  by (induction xs) (auto simp: dots_Cons)

text \<open>
  The short form of a range end is completed from the start, octet by octet: with a
  start of four parts and an end of one to four parts, the completed end consists of the
  leading parts of the start that the end lacks, followed by the parts of the end.
\<close>

theorem completeIp_correct:
  assumes "length xs = 4" and "1 \<le> length ys" and "length ys \<le> 4"
    and "\<forall>x\<in>set xs \<union> set ys. CHR ''.'' \<notin> set x"
  shows "completeIp (dots xs) (dots ys) = dots (take (4 - length ys) xs @ ys)"
proof -
  let ?n = "4 - length ys"
  have n: "?n < length xs" "3 - count_list (dots ys) CHR ''.'' = ?n"
    using assms by (auto simp: count_dots)
  have "completeIp_loop (dots xs) ?n 0 = length (concat (map (\<lambda>x. x @ ''.'') (take ?n xs)))"
    using completeIp_loop_dots [OF n(1), of "[]"] assms(4) by simp
  then have "completeIp (dots xs) (dots ys) = concat (map (\<lambda>x. x @ ''.'') (take ?n xs)) @ dots ys"
    by (simp add: completeIp_def n(2)) (simp add: dots_split [OF n(1)])
  moreover have "ys \<noteq> []" using assms(2) by auto
  ultimately show ?thesis by (simp add: dots_append)
qed

theorem completeIp_correct_witness:
  "completeIp (dots [''192'', ''168'', ''1'', ''3'']) (dots [''2'', ''1'']) =
     dots [''192'', ''168'', ''2'', ''1'']"
  using completeIp_correct [of "[''192'', ''168'', ''1'', ''3'']" "[''2'', ''1'']"] by simp

section \<open>Ranges of addresses\<close>

lemma dotted_no_dash [simp]: "CHR ''-'' \<notin> set (dotted h)"
  by (simp add: dotted_def)

lemma dec_shape [simp]: "dec_of_nat e \<noteq> []" by simp

text \<open>A range string of two parts without a dash in either.\<close>

lemma MakeRange_two:
  assumes "CHR ''-'' \<notin> set a" and "CHR ''-'' \<notin> set b" and "b \<noteq> []"
  shows "MakeRange gt shw (a @ CHR ''-'' # b) f g k =
    bind_res (f (case g of Some g \<Rightarrow> g a b | None \<Rightarrow> a)) (\<lambda>x.
      bind_res (f (case k of Some k \<Rightarrow> k a b | None \<Rightarrow> b)) (\<lambda>y. mk_Range gt shw x y))"
  using assms
  by (simp add: MakeRange_def split_append_delim split_no_delim Let_def split: option.split)

lemma completeIp_full:
  "completeIp (dotted h) (dotted g) = dotted g"
  unfolding dotted_dots
  by (subst completeIp_correct) (auto simp del: One_nat_def)

text \<open>The address with the last octet replaced.\<close>

definition with_last_octet :: "u32 \<Rightarrow> nat \<Rightarrow> u32" where
  "with_last_octet h e = of_nat (octet 3 h * 2 ^ 24 + octet 2 h * 2 ^ 16 + octet 1 h * 2 ^ 8 + e)"

lemma octet_with_last:
  assumes "e < 256"
  shows "octet 3 (with_last_octet h e) = octet 3 h" "octet 2 (with_last_octet h e) = octet 2 h"
    "octet 1 (with_last_octet h e) = octet 1 h" "octet 0 (with_last_octet h e) = e"
  unfolding with_last_octet_def by (rule octet_of_bytes; simp add: assms)+

lemma completeIp_last:
  "e < 256 \<Longrightarrow> completeIp (dotted h) (dec_of_nat e) = dotted (with_last_octet h e)"
  using completeIp_correct [of "map (\<lambda>i. dec_of_nat (octet i h)) [3, 2, 1, 0]" "[dec_of_nat e]"]
  by (simp add: dotted_dots octet_with_last dots_def del: One_nat_def)

lemma with_last_octet_unat:
  assumes "e < 256"
  shows "unat (with_last_octet h e) + octet 0 h = unat h + e"
  using octets_sum [of h] octets_sum [of "with_last_octet h e"]
  by (simp add: octet_with_last [OF assms] del: One_nat_def)

context winsock_le
begin

lemma gt_swapped:
  "Ipv4_gt (Ipv4Addr (htonl ws h)) (Ipv4Addr (htonl ws g)) \<longleftrightarrow> unat (bswap32 g) < unat (bswap32 h)"
  by (simp add: Ipv4_gt_def htonl_bswap word_less_nat_alt)

lemma swapped_sum:
  "unat (bswap32 h) = octet 0 h * 2 ^ 24 + octet 1 h * 2 ^ 16 + octet 2 h * 2 ^ 8 + octet 3 h"
  using octets_sum [of "bswap32 h"] by (simp del: One_nat_def)

lemma gt_last_octet:
  assumes "octet 0 g < octet 0 h"
  shows "unat (bswap32 g) < unat (bswap32 h)"
proof -
  have key: "a < 256 \<Longrightarrow> b < 256 \<Longrightarrow> c < 256 \<Longrightarrow> a * 2 ^ 16 + b * 2 ^ 8 + c < 2 ^ 24"
    for a b c :: nat by simp
  have "octet 1 g * 2 ^ 16 + octet 2 g * 2 ^ 8 + octet 3 g < 2 ^ 24"
    by (rule key; simp)
  moreover have "Suc (octet 0 g) * 2 ^ 24 \<le> octet 0 h * 2 ^ 24" using assms by simp
  ultimately show ?thesis unfolding swapped_sum by simp
qed

lemma make_full:
  "MakeIpv4Range ws (dotted h @ CHR ''-'' # dotted g) =
     mk_Range Ipv4_gt (Ipv4_str ws) (Ipv4Addr (htonl ws h)) (Ipv4Addr (htonl ws g))"
  by (simp add: MakeIpv4Range_def MakeRange_two completeIp_full of_string_dotted)

lemma make_last:
  assumes "e < 256"
  shows "MakeIpv4Range ws (dotted h @ CHR ''-'' # dec_of_nat e) =
    mk_Range Ipv4_gt (Ipv4_str ws) (Ipv4Addr (htonl ws h))
      (Ipv4Addr (htonl ws (with_last_octet h e)))"
  by (simp add: MakeIpv4Range_def MakeRange_two completeIp_last [OF assms] of_string_dotted)

lemma elems_by_host:
  assumes "range_elems Ipv4_ne (ipv4_inc ws) r = Some xs"
    and "map (\<lambda>a. unat (ipHostOrder ws a)) xs = [unat h..<unat h + k]"
  shows "xs = map (\<lambda>i. Ipv4Addr (htonl ws (h + of_nat i))) [0..<k]"
proof (rule nth_equalityI)
  show len: "length xs = length (map (\<lambda>i. Ipv4Addr (htonl ws (h + of_nat i))) [0..<k])"
    using arg_cong [OF assms(2), of length] by simp
  fix i assume i: "i < length xs"
  then have "unat (ipHostOrder ws (xs ! i)) = unat h + i"
    using len arg_cong [OF assms(2), of "\<lambda>l. l ! i"] by simp
  then have "ipHostOrder ws (xs ! i) = of_nat (unat h + i)"
    by (metis of_nat_unat ucast_id word_unat_eq_iff unat_cancel word_of_nat_eq_iff)
  then have "ipHostOrder ws (xs ! i) = h + of_nat i" by simp
  then have "xs ! i = Ipv4Addr (htonl ws (h + of_nat i))"
    by (metis host_inj host_of_htonl)
  then show "xs ! i = map (\<lambda>i. Ipv4Addr (htonl ws (h + of_nat i))) [0..<k] ! i"
    using i len by simp
qed

text \<open>The range from an address to a last octet, in order.\<close>

lemma range_last:
  assumes "octet 0 h \<le> e" and e: "e < 256"
  shows "\<exists>r. MakeIpv4Range ws (dotted h @ ''-'' @ dec_of_nat e) = Inr r
    \<and> range_elems Ipv4_ne (ipv4_inc ws) r =
        Some (map (\<lambda>i. Ipv4Addr (htonl ws (h + of_nat i))) [0..<Suc (e - octet 0 h)])"
proof -
  let ?g = "with_last_octet h e"
  let ?r = "\<lparr>from_of = Ipv4Addr (htonl ws h), till_of = Ipv4Addr (htonl ws ?g)\<rparr>"
  have g: "unat ?g = unat h + (e - octet 0 h)"
    using with_last_octet_unat [OF e, of h] assms(1) by simp
  have "\<not> Ipv4_gt (from_of ?r) (till_of ?r)"
    using assms(1) by (simp add: gt_swapped swapped_sum octet_with_last [OF e] del: One_nat_def)
  then have "MakeIpv4Range ws (dotted h @ ''-'' @ dec_of_nat e) = Inr ?r"
    by (simp add: make_last [OF e] mk_Range_def)
  moreover
  have "\<not> (unat h = 0 \<and> Suc (unat ?g) = 2 ^ 32)" using g e by auto
  with ipv4.elems_in_order [of ?r] g
  obtain xs where xs: "range_elems Ipv4_ne (ipv4_inc ws) ?r = Some xs"
    and "map (\<lambda>a. unat (ipHostOrder ws a)) xs = [unat h..<Suc (unat ?g)]"
    by auto
  then have "xs = map (\<lambda>i. Ipv4Addr (htonl ws (h + of_nat i))) [0..<Suc (e - octet 0 h)]"
    by (intro elems_by_host) (simp_all add: g)
  ultimately show ?thesis using xs by blast
qed

text \<open>Full addresses at both ends: the order is decided by the swapped words.\<close>

lemma range_rejected:
  assumes "octet 0 g < octet 0 h"
  shows "MakeIpv4Range ws (dotted h @ ''-'' @ dotted g) =
    Inl (Throw (invalid_argument (''from: '' @ dotted h @ '' > '' @ ''till: '' @ dotted g)))"
  using gt_last_octet [OF assms]
  by (simp add: make_full mk_Range_def gt_swapped str_dotted)

lemma range_accepted:
  assumes "octet 0 h < octet 0 g"
  shows "\<exists>r xs. MakeIpv4Range ws (dotted h @ ''-'' @ dotted g) = Inr r
    \<and> range_elems Ipv4_ne (ipv4_inc ws) r = Some xs
    \<and> length xs = cyc_dist (2 ^ 32) (unat h) (Suc (unat g) mod 2 ^ 32)"
proof -
  let ?r = "\<lparr>from_of = Ipv4Addr (htonl ws h), till_of = Ipv4Addr (htonl ws g)\<rparr>"
  have "MakeIpv4Range ws (dotted h @ ''-'' @ dotted g) = Inr ?r"
    using gt_last_octet [OF assms]
    by (simp add: make_full mk_Range_def gt_swapped)
  with ipv4.elems_length [of ?r] show ?thesis by auto
qed

end

section \<open>Properties\<close>

text \<open>
  C20: The documented short form works. On a little-endian host, a range written as an
  address, a dash and a last octet not below the address's own yields exactly the
  addresses from the first to the last, in increasing order (for example
  239.5.69.0-31 is the 32 groups 239.5.69.0 to 239.5.69.31).
\<close>

theorem range_last_octet:
  assumes "winsock_le ws" and "octet 0 h \<le> e" and "e < 256"
  shows "\<exists>r. MakeIpv4Range ws (dotted h @ ''-'' @ dec_of_nat e) = Inr r
    \<and> range_elems Ipv4_ne (ipv4_inc ws) r =
        Some (map (\<lambda>i. Ipv4Addr (htonl ws (h + of_nat i))) [0..<Suc (e - octet 0 h)])"
  using assms by (rule winsock_le.range_last)

theorem range_last_octet_witness:
  "\<exists>r. MakeIpv4Range ref_winsock (dotted 0xEF054500 @ ''-'' @ dec_of_nat 31) = Inr r
    \<and> range_elems Ipv4_ne (ipv4_inc ref_winsock) r =
        Some (map (\<lambda>i. Ipv4Addr (htonl ref_winsock (0xEF054500 + of_nat i))) [0..<32])"
  using range_last_octet [OF refws.winsock_le_axioms, of "0xEF054500" 31]
  by (simp add: octet_def)

text \<open>
  C37: The order check of a range compares addresses in network byte order. On a
  little-endian host a range whose last octet decreases is rejected, whatever the other
  octets are, also when the first address is below the second (for example
  239.5.69.255-239.5.70.0).
\<close>

theorem range_rejected_by_last_octet:
  assumes "winsock_le ws" and "octet 0 g < octet 0 h"
  shows "MakeIpv4Range ws (dotted h @ ''-'' @ dotted g) =
    Inl (Throw (invalid_argument (''from: '' @ dotted h @ '' > '' @ ''till: '' @ dotted g)))"
  using assms by (rule winsock_le.range_rejected)

theorem range_rejected_by_last_octet_witness:
  "(0xEF0545FF :: u32) < 0xEF054600
   \<and> MakeIpv4Range ref_winsock (dotted 0xEF0545FF @ ''-'' @ dotted 0xEF054600) =
      Inl (Throw (invalid_argument (''from: '' @ dotted 0xEF0545FF @ '' > '' @ ''till: ''
        @ dotted 0xEF054600)))"
  using range_rejected_by_last_octet [OF refws.winsock_le_axioms, of "0xEF054600" "0xEF0545FF"]
  by (simp add: octet_def)

text \<open>
  For the same reason a range whose ends are out of order is accepted when its last
  octet increases, and iterating it wraps around the whole address space: it yields
  \<open>2 ^ 32 + g + 1 - h\<close> addresses, modulo \<open>2 ^ 32\<close> (none for 239.5.70.0-239.5.69.255,
  four billion for 239.5.70.0-239.5.69.254).
\<close>

theorem range_out_of_order_wraps:
  assumes "winsock_le ws" and "g < h" and "octet 0 h < octet 0 g"
  shows "\<exists>r xs. MakeIpv4Range ws (dotted h @ ''-'' @ dotted g) = Inr r
    \<and> range_elems Ipv4_ne (ipv4_inc ws) r = Some xs
    \<and> length xs = (2 ^ 32 + unat g + 1 - unat h) mod 2 ^ 32"
proof -
  have h: "Suc (unat g) \<le> unat h" "unat h < 2 ^ 32"
    using assms(2) unat_below [of h] by (simp_all add: word_less_nat_alt)
  then have m: "Suc (unat g) mod 2 ^ 32 = Suc (unat g)" by simp
  have "cyc_dist (2 ^ 32) (unat h) (Suc (unat g)) = (2 ^ 32 + unat g + 1 - unat h) mod 2 ^ 32"
  proof (cases "Suc (unat g) = unat h")
    case True
    then have "2 ^ 32 + unat g + 1 - unat h = 2 ^ 32" by arith
    with True show ?thesis by (simp add: cyc_dist_def)
  next
    case False
    with h show ?thesis by (simp add: cyc_dist_def)
  qed
  with winsock_le.range_accepted [OF assms(1,3)] m show ?thesis by simp
qed

theorem range_out_of_order_wraps_witness:
  "\<exists>r xs. MakeIpv4Range ref_winsock (dotted 0xEF054600 @ ''-'' @ dotted 0xEF0545FE) = Inr r
    \<and> range_elems Ipv4_ne (ipv4_inc ref_winsock) r = Some xs \<and> length xs = 4294967295"
  using range_out_of_order_wraps [OF refws.winsock_le_axioms, of "0xEF0545FE" "0xEF054600"]
  by (simp add: octet_def)

lemma u16_of_dec: "a < 2 ^ 16 \<Longrightarrow> u16_of_string (dec_of_nat a) = Inr (of_nat a)"
  by (simp add: u16_of_string_def stoi_dec_of_nat)

text \<open>
  Port ranges: "a-b" with a not above b yields every port from a to b once, in order,
  but the range over all ports, 0-65535, yields none, because the end marker \<open>till + 1\<close>
  wraps around to the start.
\<close>

theorem port_range_elements:
  assumes "a \<le> b" and "b < 2 ^ 16"
  shows "MakePortRange (dec_of_nat a @ ''-'' @ dec_of_nat b) =
      Inr \<lparr>from_of = of_nat a, till_of = of_nat b\<rparr>
    \<and> (\<exists>ps. range_elems (\<lambda>a b. a \<noteq> b) port_inc \<lparr>from_of = of_nat a, till_of = of_nat b\<rparr> = Some ps
        \<and> map unat ps = (if a = 0 \<and> b = 65535 then [] else [a..<Suc b]))"
proof
  let ?r = "\<lparr>from_of = of_nat a :: u16, till_of = of_nat b\<rparr>"
  have u: "unat (of_nat a :: u16) = a" "unat (of_nat b :: u16) = b"
    using assms by (simp_all add: unat_of_nat_less)
  show "MakePortRange (dec_of_nat a @ ''-'' @ dec_of_nat b) = Inr ?r"
    using assms u by (simp add: MakePortRange_def MakeRange_two u16_of_dec mk_Range_def word_less_nat_alt)
  show "\<exists>ps. range_elems (\<lambda>a b. a \<noteq> b) port_inc ?r = Some ps
      \<and> map unat ps = (if a = 0 \<and> b = 65535 then [] else [a..<Suc b])"
  proof (cases "a = 0 \<and> b = 65535")
    case True
    then show ?thesis using ports.elems_full [of ?r] u by simp
  next
    case False
    then show ?thesis using ports.elems_in_order [of ?r] u assms by auto
  qed
qed

theorem port_range_elements_witness:
  "MakePortRange (dec_of_nat 1024 @ ''-'' @ dec_of_nat 1030) =
      Inr \<lparr>from_of = of_nat 1024, till_of = of_nat 1030\<rparr>
    \<and> (\<exists>ps. range_elems (\<lambda>a b. a \<noteq> b) port_inc \<lparr>from_of = of_nat 1024, till_of = of_nat 1030\<rparr> = Some ps
        \<and> map unat ps = [1024..<1031])"
  using port_range_elements [of 1024 1030] by simp

text \<open>
  \<open>operator+\<close> on an address moves to the next address in host order, wrapping at the
  end of the space, whatever number it is given: its argument has no influence.
\<close>

theorem address_plus_is_successor:
  assumes "winsock_doc ws"
  shows "ipHostOrder ws (Ipv4_plus ws a i) = ipHostOrder ws a + 1
    \<and> Ipv4_plus ws a i = Ipv4_plus ws a j"
  using winsock_doc.host_plus [OF assms] by (simp add: Ipv4_plus_def)

theorem address_plus_is_successor_witness:
  "ipHostOrder ref_winsock (Ipv4_plus ref_winsock (Ipv4Addr (bswap32 5)) 10) =
     ipHostOrder ref_winsock (Ipv4Addr (bswap32 5)) + 1"
  using address_plus_is_successor [OF refws.winsock_doc_axioms] by blast

text \<open>
  \<open>setLowerBits\<close> replaces exactly the host part of an address: with the mask of the
  subnet, the bits outside the mask become those of the value and are what \<open>lowerBits\<close>
  reads back, and the network bits stay.
\<close>

theorem setLowerBits_correct:
  assumes "winsock_doc ws"
  shows "lowerBits ws subnet (setLowerBits ws subnet v a) = (v AND NOT (ipHostOrder ws subnet))
    \<and> ipHostOrder ws (setLowerBits ws subnet v a) AND ipHostOrder ws subnet =
       ipHostOrder ws a AND ipHostOrder ws subnet"
proof -
  let ?m = "ipHostOrder ws subnet" and ?h = "ipHostOrder ws a"
  have "ipHostOrder ws (setLowerBits ws subnet v a) = (?h AND ?m) OR (v AND NOT ?m)"
    using winsock_doc.host_of_htonl [OF assms] by (simp add: setLowerBits_def setHostOrder_def)
  moreover have "((?h AND ?m) OR (v AND NOT ?m)) AND NOT ?m = v AND NOT ?m"
    "((?h AND ?m) OR (v AND NOT ?m)) AND ?m = ?h AND ?m"
    by (rule bit_word_eqI; auto simp: bit_simps)+
  ultimately show ?thesis by (simp add: lowerBits_def)
qed

theorem setLowerBits_correct_witness:
  "lowerBits ref_winsock (Ipv4Addr (bswap32 0xFFFFFF00))
     (setLowerBits ref_winsock (Ipv4Addr (bswap32 0xFFFFFF00)) 7 (Ipv4Addr (bswap32 0xC0A80163))) =
   7 AND NOT (ipHostOrder ref_winsock (Ipv4Addr (bswap32 0xFFFFFF00)))"
  using setLowerBits_correct [OF refws.winsock_doc_axioms] by blast

end
