(* ===== verification/Args.thy ===== *)
theory Args
  imports Ip_Range
begin

text \<open>
  Command-line handling (args.hpp, args.cpp): the destinations, the conversion of the
  option values and the sanity check. The \<open>argparse\<close> library is not part of the program;
  what it delivers is the argument \<open>argparse_run\<close> of the model: the options it found with
  their texts, in the order of the command line, the error it raises after them if there
  is one, and the positional command. The program's own callbacks on the options are the
  actions modelled here.
\<close>

section \<open>Data\<close>

record args_t =
  Command :: string
  McastAddrStr :: "Ipv4Addr_t list"
  McastPort :: u16
  IfIndex :: string
  PktsToCount :: u64
  PacketRate :: int
  SecondsToRun :: int

definition MULTICAST_IP :: string where "MULTICAST_IP = ''239.5.69.2''"
definition MIN_MC_IP :: u64 where "MIN_MC_IP = 0xE0000001"
definition MAX_MC_IP :: u64 where "MAX_MC_IP = 0xEFFFFFFF"
definition DEFAULT_IFINDEX :: string where "DEFAULT_IFINDEX = ''Ethernet''"
definition MULTICAST_PORT :: int where "MULTICAST_PORT = 10000"
definition MAX_PKTS_TO_RECEIVE :: int where "MAX_PKTS_TO_RECEIVE = 20000000"
definition CONSUMER_COMMAND :: string where "CONSUMER_COMMAND = ''consumer''"
definition PRODUCER_COMMAND :: string where "PRODUCER_COMMAND = ''producer''"
definition PACKET_RATE_SEC :: int where "PACKET_RATE_SEC = 1"
definition RUN_FOR_NSEC :: int where "RUN_FOR_NSEC = 0"

datatype option_name = nic | mcast_ip | mcast_port | total_pkts | pps | seconds

record argparse_run =
  option_uses :: "(option_name \<times> string) list"
  parse_error :: "string option"
  command_arg :: string

record opts =
  opt_nic :: string
  opt_mcast_ip :: string
  opt_mcast_port :: int
  opt_total_pkts :: int
  opt_pps :: int
  opt_seconds :: int

definition opts_default :: opts where
  "opts_default = \<lparr>opt_nic = DEFAULT_IFINDEX, opt_mcast_ip = MULTICAST_IP,
     opt_mcast_port = MULTICAST_PORT, opt_total_pkts = MAX_PKTS_TO_RECEIVE,
     opt_pps = PACKET_RATE_SEC, opt_seconds = RUN_FOR_NSEC\<rparr>"

section \<open>Parsing\<close>

definition ParseDestinations ::
    "winsock \<Rightarrow> string \<Rightarrow> Ipv4Addr_t \<Rightarrow> Ipv4Addr_t list result" where
  "ParseDestinations ws dest default_ipv4 =
     bind_res (if dest = [] then mk_Range_single Ipv4_gt (Ipv4_str ws) default_ipv4
               else MakeIpv4Range ws dest)
       (\<lambda>ipv4Range. returned (range_elems Ipv4_ne (ipv4_inc ws) ipv4Range))"

text \<open>
  The action of a numeric option: \<open>std::invalid_argument\<close> is caught and ends the program
  with code 1; \<open>std::out_of_range\<close> is caught neither here nor by the handler around
  \<open>parse_args\<close>, which takes \<open>std::runtime_error\<close>.
\<close>

definition int_action :: "string \<Rightarrow> int result" where
  "int_action value =
     (case stoi value of
        Inr v \<Rightarrow> Inr v
      | Inl (invalid_argument _) \<Rightarrow> Inl (Exit 1)
      | Inl e \<Rightarrow> Inl (Throw e))"

fun option_action :: "option_name \<times> string \<Rightarrow> opts \<Rightarrow> opts result" where
  "option_action (nic, s) o' = Inr (o'\<lparr>opt_nic := s\<rparr>)"
| "option_action (mcast_ip, s) o' = Inr (o'\<lparr>opt_mcast_ip := s\<rparr>)"
| "option_action (mcast_port, s) o' = bind_res (int_action s) (\<lambda>v. Inr (o'\<lparr>opt_mcast_port := v\<rparr>))"
| "option_action (total_pkts, s) o' = bind_res (int_action s) (\<lambda>v. Inr (o'\<lparr>opt_total_pkts := v\<rparr>))"
| "option_action (pps, s) o' = bind_res (int_action s) (\<lambda>v. Inr (o'\<lparr>opt_pps := v\<rparr>))"
| "option_action (seconds, s) o' = bind_res (int_action s) (\<lambda>v. Inr (o'\<lparr>opt_seconds := v\<rparr>))"

fun option_actions :: "(option_name \<times> string) list \<Rightarrow> opts \<Rightarrow> opts result" where
  "option_actions [] o' = Inr o'"
| "option_actions (u # us) o' = bind_res (option_action u o') (option_actions us)"

text \<open>Assigning from \<open>c_str()\<close> copies up to the first NUL.\<close>

definition c_str :: "string \<Rightarrow> string" where
  "c_str s = takeWhile (\<lambda>c. c \<noteq> CHR 0x00) s"

definition args_of_opts :: "winsock \<Rightarrow> string \<Rightarrow> opts \<Rightarrow> args_t result" where
  "args_of_opts ws cmd o' =
     bind_res (Ipv4_of_string ws ''239.5.69.2'') (\<lambda>dflt.
     bind_res (ParseDestinations ws (opt_mcast_ip o') dflt) (\<lambda>ips.
       Inr \<lparr>Command = c_str cmd, McastAddrStr = ips,
            McastPort = word_of_int (opt_mcast_port o'),
            IfIndex = c_str (opt_nic o'),
            PktsToCount = ucast (word_of_int (opt_total_pkts o') :: u32),
            PacketRate = opt_pps o', SecondsToRun = opt_seconds o'\<rparr>))"

definition ParseArguments :: "winsock \<Rightarrow> argparse_run \<Rightarrow> args_t result" where
  "ParseArguments ws run =
     bind_res (option_actions (option_uses run) opts_default) (\<lambda>o'.
       case parse_error run of
         Some err \<Rightarrow> Inl (Exit 1)
       | None \<Rightarrow> args_of_opts ws (command_arg run) o')"

section \<open>The sanity check\<close>

function ip_tokens :: "string \<Rightarrow> int list result" where
  "ip_tokens s =
     (case find_char s CHR ''.'' of
        Some pos \<Rightarrow>
          (case stoi (take pos s) of
             Inl e \<Rightarrow> Inl (Throw e)
           | Inr v \<Rightarrow> bind_res (ip_tokens (drop (pos + 1) s)) (\<lambda>vs. Inr (v # vs)))
      | None \<Rightarrow> (case stoi s of Inl e \<Rightarrow> Inl (Throw e) | Inr v \<Rightarrow> Inr [v]))"
  by pat_completeness auto
termination
  by (relation "measure length") (auto dest: find_char_Some)

declare ip_tokens.simps [simp del]

fun mcip_loop :: "int list \<Rightarrow> u32 \<Rightarrow> u32 option" where
  "mcip_loop [] mcip = Some mcip"
| "mcip_loop (i # is) mcip =
     (if i > 255 \<or> i < 0 then None
      else let mcip1 = mcip OR ucast (word_of_int i :: u8)
           in mcip_loop is (if is = [] then mcip1 else push_bit 8 mcip1))"

fun isValidMulticastIp :: "winsock \<Rightarrow> Ipv4Addr_t list \<Rightarrow> bool result" where
  "isValidMulticastIp ws [] = Inr True"
| "isValidMulticastIp ws (ip # ips) =
     bind_res (ip_tokens (Ipv4_str ws ip)) (\<lambda>int_tokens.
       if length int_tokens \<noteq> 4 then Inr False
       else case mcip_loop int_tokens 0 of
         None \<Rightarrow> Inr False
       | Some mcip \<Rightarrow>
           if MIN_MC_IP \<le> ucast mcip \<and> ucast mcip \<le> MAX_MC_IP
           then isValidMulticastIp ws ips else Inr False)"

text \<open>
  \<open>Check\<close> returns its verdict with the message it prints. The product of the \<open>int\<close> rate
  and the \<open>size_t\<close> count is a 64-bit unsigned product.
\<close>

definition Check :: "winsock \<Rightarrow> args_t option \<Rightarrow> (bool \<times> string option) result" where
  "Check ws args =
     (case args of
        None \<Rightarrow> Inr (False, None)
      | Some a \<Rightarrow>
          if Command a \<noteq> PRODUCER_COMMAND \<and> Command a \<noteq> CONSUMER_COMMAND
          then Inr (False, Some ''Invalid Command. Expected producer or consumer.'')
          else bind_res (isValidMulticastIp ws (McastAddrStr a)) (\<lambda>valid.
            if \<not> valid then
              Inr (False, Some
                ''Invalid Multicast IP. Expected value between 224.0.0.1 and 239.255.255.255'')
            else if IfIndex a = [] then Inr (False, Some ''Invalid IfIndex.'')
            else if McastPort a > 49151 \<or> McastPort a < 1024 then
              Inr (False, Some ''Invalid Multicast Port. Expected value between 1024 and 49151.'')
            else if word_of_int (PacketRate a) * of_nat (length (McastAddrStr a)) > (1000000 :: u64)
                \<or> PacketRate a < 1 then
              Inr (False, Some (''Invalid Packet Rate. Expected a value between 0 and 1M. (Sum of all pps per ''
                @ ''group''))
            else Inr (True, None)))"

section \<open>Lemmas\<close>

lemma ip_tokens_dots:
  assumes "\<forall>n\<in>set ns. n < 2 ^ 31" and "ns \<noteq> []"
  shows "ip_tokens (dots (map dec_of_nat ns)) = Inr (map int ns)"
  using assms
proof (induction ns)
  case (Cons n ns)
  show ?case
  proof (cases "ns = []")
    case True
    have "find_char (dec_of_nat n) CHR ''.'' = None" by (simp add: find_char_None)
    with True Cons.prems show ?thesis
      by (subst ip_tokens.simps) (simp add: dots_Cons stoi_dec_of_nat)
  next
    case False
    with Cons show ?thesis
      by (subst ip_tokens.simps) (simp add: dots_Cons find_char_append stoi_dec_of_nat)
  qed
qed simp

lemma push_or_byte:
  fixes m w :: u32
  assumes "take_bit 8 w = w"
  shows "push_bit 8 m OR w = m * 256 + w"
proof -
  have "bit w n \<Longrightarrow> n < 8" for n
    using assms by (metis bit_take_bit_iff)
  then have "push_bit 8 m OR w = push_bit 8 m + w"
    by (subst disjunctive_add) (auto simp: bit_simps dest: leD)
  then show ?thesis by (simp add: push_bit_eq_mult)
qed

lemma byte_cast: "b < 256 \<Longrightarrow> (ucast (word_of_int (int b) :: u8) :: u32) = of_nat b"
  by (simp add: word_eq_unat unat_of_nat_less unsigned_ucast_eq unat_of_nat take_bit_nat_eq_self)

lemma mcip_loop_bytes:
  "\<forall>b\<in>set bs. b < 256 \<Longrightarrow> bs \<noteq> [] \<Longrightarrow>
     mcip_loop (map int bs) (push_bit 8 m) = Some (foldl (\<lambda>v b. v * 256 + of_nat b) m bs)"
proof (induction bs arbitrary: m)
  case (Cons b bs)
  have b: "b < 256" using Cons.prems by simp
  then have "take_bit 8 (of_nat b :: u32) = of_nat b"
    by (simp add: take_bit_of_nat take_bit_nat_eq_self)
  then have step: "push_bit 8 m OR ucast (word_of_int (int b) :: u8) = m * 256 + of_nat b"
    by (simp only: byte_cast [OF b] push_or_byte)
  have "\<not> (int b > 255 \<or> int b < 0)" using b by linarith
  then have "mcip_loop (map int (b # bs)) (push_bit 8 m) =
      mcip_loop (map int bs) (if bs = [] then m * 256 + of_nat b else push_bit 8 (m * 256 + of_nat b))"
    by (simp only: list.map mcip_loop.simps if_False Let_def step list.map_disc_iff)
  with Cons show ?case by (cases "bs = []") auto
qed simp

lemma mcip_loop_octets:
  "mcip_loop (map (\<lambda>i. int (octet i h)) [3, 2, 1, 0]) 0 = Some h"
proof -
  have "mcip_loop (map int (map (\<lambda>i. octet i h) [3, 2, 1, 0])) (push_bit 8 0) =
      Some (foldl (\<lambda>v b. v * 256 + of_nat b) 0 (map (\<lambda>i. octet i h) [3, 2, 1, 0]))"
    by (rule mcip_loop_bytes) auto
  also have "foldl (\<lambda>v b. v * 256 + of_nat b) 0 (map (\<lambda>i. octet i h) [3, 2, 1, 0]) =
      (of_nat (octet 3 h * 2 ^ 24 + octet 2 h * 2 ^ 16 + octet 1 h * 2 ^ 8 + octet 0 h) :: u32)"
    by (simp add: algebra_simps)
  also have "\<dots> = h" unfolding octets_sum by simp
  finally show ?thesis by (simp add: comp_def)
qed

definition multicast_host :: "winsock \<Rightarrow> Ipv4Addr_t \<Rightarrow> bool" where
  "multicast_host ws ip \<longleftrightarrow> 0xE0000001 \<le> ipHostOrder ws ip \<and> ipHostOrder ws ip \<le> 0xEFFFFFFF"

lemma ucast_range_iff:
  fixes h :: u32
  shows "MIN_MC_IP \<le> ucast h \<and> ucast h \<le> MAX_MC_IP \<longleftrightarrow> 0xE0000001 \<le> h \<and> h \<le> 0xEFFFFFFF"
  by (simp add: MIN_MC_IP_def MAX_MC_IP_def word_le_nat_alt unsigned_ucast_eq take_bit_nat_eq_self
      less_trans [OF unat_below])

context winsock_doc
begin

lemma tokens_of_address:
  "ip_tokens (Ipv4_str ws ip) = Inr (map (\<lambda>i. int (octet i (ipHostOrder ws ip))) [3, 2, 1, 0])"
proof -
  let ?h = "ipHostOrder ws ip"
  have "octet i ?h < 2 ^ 31" for i by (rule less_trans [OF octet_less]) simp
  then have "\<forall>n\<in>set (map (\<lambda>i. octet i ?h) [3, 2, 1, 0]). n < 2 ^ 31" by (simp del: One_nat_def)
  from ip_tokens_dots [OF this] show ?thesis
    by (simp add: str_dotted dotted_dots comp_def del: One_nat_def)
qed

lemma single_range: "range_elems Ipv4_ne (ipv4_inc ws) \<lparr>from_of = a, till_of = a\<rparr> = Some [a]"
proof -
  have "\<not> (unat (ipHostOrder ws a) = 0 \<and> Suc (unat (ipHostOrder ws a)) = 2 ^ 32)" by auto
  with ipv4.elems_in_order [of "\<lparr>from_of = a, till_of = a\<rparr>"]
  obtain xs where xs: "range_elems Ipv4_ne (ipv4_inc ws) \<lparr>from_of = a, till_of = a\<rparr> = Some xs"
    and m: "map (\<lambda>a. unat (ipHostOrder ws a)) xs = [unat (ipHostOrder ws a)]"
    by auto
  from m have "xs = [a]" by (auto simp: unat_cancel host_inj)
  with xs show ?thesis by simp
qed

lemma ParseDestinations_empty: "ParseDestinations ws [] a = Inr [a]"
  by (simp add: ParseDestinations_def mk_Range_single_def mk_Range_def Ipv4_gt_def single_range)

lemma ParseDestinations_one: "ParseDestinations ws (dotted h) d = Inr [Ipv4Addr (htonl ws h)]"
proof -
  have "completeIp (dotted h) (dotted h) = dotted h" by (rule completeIp_full)
  then show ?thesis
    by (simp add: ParseDestinations_def MakeIpv4Range_def MakeRange_def split_no_delim Let_def
        of_string_dotted mk_Range_def Ipv4_gt_def single_range)
qed

lemma valid_iff:
  "isValidMulticastIp ws ips = Inr (\<forall>ip\<in>set ips. multicast_host ws ip)"
proof (induction ips)
  case (Cons ip ips)
  have "isValidMulticastIp ws (ip # ips) =
      (if multicast_host ws ip then isValidMulticastIp ws ips else Inr False)"
    using mcip_loop_octets [of "ipHostOrder ws ip"] ucast_range_iff [of "ipHostOrder ws ip"]
    by (simp add: tokens_of_address multicast_host_def del: One_nat_def)
  with Cons show ?case by auto
qed simp

end

text \<open>The 64-bit product in the rate check does not overflow for positive rates.\<close>

lemma rate_product:
  assumes "1 \<le> rate" and "rate < 2 ^ 31" and "n < 2 ^ 33"
  shows "word_of_int rate * of_nat n > (1000000 :: u64) \<longleftrightarrow> rate * int n > 1000000"
proof -
  obtain r where r: "rate = int r" using assms(1) by (metis nonneg_int_cases order_trans zero_le_one)
  have "r * n < 2 ^ 31 * 2 ^ 33"
    using assms r by (intro mult_strict_mono) auto
  then have rn: "r * n < 2 ^ 64" by (simp only: power_add [symmetric]) simp
  have "word_of_int rate * of_nat n = (of_nat (r * n) :: u64)" by (simp add: r)
  then have "word_of_int rate * of_nat n > (1000000 :: u64) \<longleftrightarrow> 1000000 < r * n"
    using rn by (simp add: word_less_nat_alt unat_of_nat_less del: of_nat_mult)
  also have "\<dots> \<longleftrightarrow> rate * int n > 1000000"
    unfolding r by (metis of_nat_less_iff of_nat_mult of_nat_numeral)
  finally show ?thesis .
qed

section \<open>Properties\<close>

text \<open>
  C31: The validation of the destinations, which prints each address, cuts the text at the
  dots, converts the pieces and reassembles them byte by byte, decides exactly whether
  every address lies between 224.0.0.1 and 239.255.255.255; it never raises an exception.
\<close>

theorem isValidMulticastIp_correct:
  assumes "winsock_doc ws"
  shows "isValidMulticastIp ws ips =
    Inr (\<forall>ip\<in>set ips. 0xE0000001 \<le> ipHostOrder ws ip \<and> ipHostOrder ws ip \<le> 0xEFFFFFFF)"
  using winsock_doc.valid_iff [OF assms] by (simp add: multicast_host_def)

theorem isValidMulticastIp_correct_witness:
  "isValidMulticastIp ref_winsock [Ipv4Addr (bswap32 0xEF054502), Ipv4Addr (bswap32 0xF0000000)] =
     Inr False"
  by (subst isValidMulticastIp_correct [OF refws.winsock_doc_axioms]) simp

lemma rate_guard:
  assumes "- (2 ^ 31) \<le> PacketRate a \<and> PacketRate a < 2 ^ 31" and "length (McastAddrStr a) < 2 ^ 33"
  shows "word_of_int (PacketRate a) * of_nat (length (McastAddrStr a)) > (1000000 :: u64)
        \<or> PacketRate a < 1 \<longleftrightarrow>
      \<not> (1 \<le> PacketRate a \<and> PacketRate a * int (length (McastAddrStr a)) \<le> 1000000)"
  using rate_product [of "PacketRate a" "length (McastAddrStr a)"] assms by fastforce

text \<open>What an accepted configuration guarantees about the rate and the command.\<close>

lemma Check_accepted:
  assumes "Check ws (Some a) = Inr (True, msg)"
    and "- (2 ^ 31) \<le> PacketRate a \<and> PacketRate a < 2 ^ 31" and "length (McastAddrStr a) < 2 ^ 33"
  shows "1 \<le> PacketRate a \<and> PacketRate a * int (length (McastAddrStr a)) \<le> 1000000"
    and "Command a = PRODUCER_COMMAND \<or> Command a = CONSUMER_COMMAND"
  using assms(1) rate_guard [OF assms(2,3)]
  by (auto simp: Check_def bind_res_eq_Inr split: if_splits)

text \<open>
  C28: \<open>Check\<close> accepts exactly the sane configurations: the command is producer or consumer,
  every destination is a multicast address, the interface is named, the port is between
  1024 and 49151, the rate is at least 1 and the rate times the number of groups is at
  most a million; in particular the mixed signed and unsigned product is harmless.
\<close>

theorem Check_accepts_exactly:
  assumes "winsock_doc ws"
    and "- (2 ^ 31) \<le> PacketRate a \<and> PacketRate a < 2 ^ 31" and "length (McastAddrStr a) < 2 ^ 33"
  shows "\<exists>msg. Check ws (Some a) = Inr
    (Command a \<in> {PRODUCER_COMMAND, CONSUMER_COMMAND}
     \<and> (\<forall>ip\<in>set (McastAddrStr a). multicast_host ws ip)
     \<and> IfIndex a \<noteq> []
     \<and> 1024 \<le> unat (McastPort a) \<and> unat (McastPort a) \<le> 49151
     \<and> 1 \<le> PacketRate a \<and> PacketRate a * int (length (McastAddrStr a)) \<le> 1000000, msg)"
proof -
  have port: "McastPort a > 49151 \<or> McastPort a < 1024 \<longleftrightarrow>
      \<not> (1024 \<le> unat (McastPort a) \<and> unat (McastPort a) \<le> 49151)"
    by (auto simp: word_less_nat_alt)
  note rate = rate_guard [OF assms(2,3)]
  show ?thesis
    unfolding Check_def option.case winsock_doc.valid_iff [OF assms(1)] bind_res_simps port rate
    by auto
qed

theorem Check_accepts_exactly_witness:
  "\<exists>msg. Check ref_winsock (Some \<lparr>Command = ''producer'',
       McastAddrStr = [Ipv4Addr (bswap32 0xEF054502)], McastPort = 10000, IfIndex = ''Ethernet'',
       PktsToCount = 0, PacketRate = 1000001, SecondsToRun = 0\<rparr>) = Inr (False, msg)"
  using Check_accepts_exactly [OF refws.winsock_doc_axioms, of "\<lparr>Command = ''producer'',
       McastAddrStr = [Ipv4Addr (bswap32 0xEF054502)], McastPort = 10000, IfIndex = ''Ethernet'',
       PktsToCount = 0, PacketRate = 1000001, SecondsToRun = 0\<rparr>"]
  by simp

text \<open>
  The numeric options are stored at the width of their fields without a range check:
  whatever integers were given, the port is the number modulo \<open>2 ^ 16\<close> (so 70000 becomes the
  acceptable port 4464) and the packet limit is the number modulo \<open>2 ^ 32\<close> (so -1 becomes
  4294967295), while rate and seconds are kept as they are.
\<close>

theorem options_are_truncated:
  assumes "args_of_opts ws cmd o' = Inr a"
  shows "uint (McastPort a) = opt_mcast_port o' mod 2 ^ 16
    \<and> uint (PktsToCount a) = opt_total_pkts o' mod 2 ^ 32
    \<and> PacketRate a = opt_pps o' \<and> SecondsToRun a = opt_seconds o'"
proof -
  have "uint (ucast (word_of_int v :: u32) :: u64) = v mod 2 ^ 32" for v
    by (simp add: unsigned_ucast_eq take_bit_eq_mod uint_word_of_int)
  with assms show ?thesis
    by (auto simp: args_of_opts_def bind_res_eq_Inr uint_word_of_int)
qed

lemma default_ip_dotted: "''239.5.69.2'' = dotted 0xEF054502"
  by (simp add: dotted_def octet_def dec_eval)

lemma ref_args_of_opts:
  "args_of_opts ref_winsock cmd (opts_default\<lparr>opt_mcast_port := p\<rparr>) =
     Inr \<lparr>Command = c_str cmd, McastAddrStr = [Ipv4Addr (bswap32 0xEF054502)],
       McastPort = word_of_int p, IfIndex = ''Ethernet'', PktsToCount = 20000000,
       PacketRate = 1, SecondsToRun = 0\<rparr>"
  using refws.ParseDestinations_one [of "0xEF054502"]
  by (simp add: args_of_opts_def opts_default_def MULTICAST_IP_def DEFAULT_IFINDEX_def
      MAX_PKTS_TO_RECEIVE_def PACKET_RATE_SEC_def RUN_FOR_NSEC_def default_ip_dotted ref_of_dotted)
    (simp add: c_str_def ref_winsock_def)

theorem options_are_truncated_witness:
  "\<exists>a. args_of_opts ref_winsock ''consumer'' (opts_default\<lparr>opt_mcast_port := 70000\<rparr>) = Inr a
    \<and> uint (McastPort a) = 4464 \<and> uint (PktsToCount a) = 20000000"
  using options_are_truncated [OF ref_args_of_opts, of "''consumer''" 70000] ref_args_of_opts
  by (simp add: opts_default_def MAX_PKTS_TO_RECEIVE_def)

lemma option_actions_append:
  "option_actions (us @ vs) o' = bind_res (option_actions us o') (option_actions vs)"
proof (induction us arbitrary: o')
  case (Cons u us)
  then show ?case by (cases "option_action u o'") simp_all
qed simp

definition numeric_option :: "option_name \<Rightarrow> bool" where
  "numeric_option n \<longleftrightarrow> n \<notin> {nic, mcast_ip}"

lemma numeric_action_error:
  "numeric_option n \<Longrightarrow> int_action s = Inl e \<Longrightarrow> option_action (n, s) o' = Inl e"
  by (cases n) (simp_all add: numeric_option_def)

text \<open>
  C30: The error paths of the command line. At the first numeric option (after any
  options that were accepted) whose text does not start with a number the program exits
  with code 1; if the text is a number that does not fit an \<open>int\<close>, the exception
  \<open>std::out_of_range\<close> leaves \<open>ParseArguments\<close> uncaught.
\<close>

theorem bad_option_outcome:
  assumes "option_uses run = us @ (n, s) # vs" and "numeric_option n"
    and "option_actions us opts_default = Inr o'" and "stoi s = Inl e"
  shows "ParseArguments ws run =
    (case e of invalid_argument _ \<Rightarrow> Inl (Exit 1) | _ \<Rightarrow> Inl (Throw e))"
proof -
  let ?err = "case e of invalid_argument _ \<Rightarrow> Exit 1 | _ \<Rightarrow> Throw e"
  have "int_action s = Inl ?err"
    using assms(4) by (simp add: int_action_def split: std_exception.split)
  then have "option_action (n, s) o' = Inl ?err"
    by (rule numeric_action_error [OF assms(2)])
  then have "option_actions (option_uses run) opts_default = Inl ?err"
    by (simp add: assms(1,3) option_actions_append)
  then show ?thesis
    by (simp add: ParseArguments_def split: std_exception.split)
qed

theorem bad_option_outcome_witness:
  "ParseArguments ref_winsock \<lparr>option_uses = [(nic, ''3''), (pps, ''x1'')], parse_error = None,
       command_arg = ''producer''\<rparr> = Inl (Exit 1)"
proof -
  let ?run = "\<lparr>option_uses = [(nic, ''3''), (pps, ''x1'')], parse_error = None,
    command_arg = ''producer''\<rparr>"
  have "stoi ''x1'' = Inl (invalid_argument ''invalid stoi argument'')"
    by code_simp
  from bad_option_outcome [of ?run "[(nic, ''3'')]" pps "''x1''" "[]" _ _ ref_winsock, OF _ _ _ this]
  show ?thesis by (simp add: numeric_option_def)
qed

text \<open>
  Without destinations on the command line, and for one that is a single address, the
  list of groups has exactly that one address.
\<close>

theorem single_destination:
  assumes "winsock_doc ws"
  shows "ParseDestinations ws [] d = Inr [d]
    \<and> ParseDestinations ws (dotted h) d = Inr [Ipv4Addr (htonl ws h)]"
  using winsock_doc.ParseDestinations_empty [OF assms] winsock_doc.ParseDestinations_one [OF assms]
  by simp

theorem single_destination_witness:
  "ParseDestinations ref_winsock ''239.5.69.2'' Ipv4_default =
     Inr [Ipv4Addr (htonl ref_winsock 0xEF054502)]"
  using single_destination [OF refws.winsock_doc_axioms, of _ "0xEF054502"]
  by (simp add: default_ip_dotted)

section \<open>What the command line means\<close>

text \<open>The text and the number an option stands for, with its default.\<close>

definition text_of :: "(option_name \<times> string) list \<Rightarrow> option_name \<Rightarrow> string \<Rightarrow> string" where
  "text_of us n d = (case map_of us n of None \<Rightarrow> d | Some s \<Rightarrow> s)"

definition number_of :: "(option_name \<times> string) list \<Rightarrow> option_name \<Rightarrow> int \<Rightarrow> int" where
  "number_of us n d =
     (case map_of us n of None \<Rightarrow> d | Some s \<Rightarrow> (case stoi s of Inl _ \<Rightarrow> d | Inr v \<Rightarrow> v))"

lemma option_texts [simp]:
  "text_of [] n d = d" "number_of [] n v = v"
  "text_of ((m, s) # us) n d = (if n = m then s else text_of us n d)"
  "number_of ((m, s) # us) n v =
     (if n = m then (case stoi s of Inl _ \<Rightarrow> v | Inr i \<Rightarrow> i) else number_of us n v)"
  by (auto simp: text_of_def number_of_def)

lemma option_unused:
  assumes "n \<notin> fst ` set us"
  shows "text_of us n d = d" and "number_of us n d' = d'"
proof -
  have "map_of us n = None" using assms by (simp add: map_of_eq_None_iff)
  then show "text_of us n d = d" and "number_of us n d' = d'"
    by (simp_all add: text_of_def number_of_def)
qed

lemma int_action_Inr: "int_action s = Inr v \<longleftrightarrow> stoi s = Inr v"
  by (auto simp: int_action_def split: sum.splits std_exception.splits)

definition all_numbers :: "(option_name \<times> string) list \<Rightarrow> bool" where
  "all_numbers us \<longleftrightarrow> (\<forall>(n, s)\<in>set us. numeric_option n \<longrightarrow> (\<exists>v. stoi s = Inr v))"

lemma all_numbers_simps [simp]:
  "all_numbers []"
  "all_numbers ((n, s) # us) \<longleftrightarrow> (numeric_option n \<longrightarrow> (\<exists>v. stoi s = Inr v)) \<and> all_numbers us"
  by (auto simp: all_numbers_def)

lemma option_actions_fields:
  assumes "distinct (map fst us)"
  shows "option_actions us o' = Inr o'' \<longleftrightarrow> all_numbers us \<and>
    o'' = \<lparr>opt_nic = text_of us nic (opt_nic o'), opt_mcast_ip = text_of us mcast_ip (opt_mcast_ip o'),
      opt_mcast_port = number_of us mcast_port (opt_mcast_port o'),
      opt_total_pkts = number_of us total_pkts (opt_total_pkts o'),
      opt_pps = number_of us pps (opt_pps o'), opt_seconds = number_of us seconds (opt_seconds o')\<rparr>"
  using assms
proof (induction us arbitrary: o')
  case Nil
  show ?case by auto
next
  case (Cons u us)
  obtain n s where u: "u = (n, s)" by force
  have fresh: "n \<notin> fst ` set us" and d: "distinct (map fst us)" using Cons.prems u by auto
  note IH = Cons.IH [OF d]
  show ?case
    unfolding u using fresh
    by (cases n) (auto simp: IH bind_res_eq_Inr int_action_Inr numeric_option_def option_unused
      split: sum.splits)
qed

text \<open>
  C29: What the command line means. When no option is given twice (the parsing library rejects
  that), \<open>ParseArguments\<close> returns exactly if the library accepts the command line, the text of
  every numeric option starts with a number that fits an \<open>int\<close>, and the destinations can be
  read; and then every field comes from its own option, or is its default: the interface
  Ethernet, the group 239.5.69.2, the port 10000 (kept modulo \<open>2 ^ 16\<close>), 20000000 packets (modulo
  \<open>2 ^ 32\<close>), 1 packet per second, no limit of seconds; the two texts end at their first NUL.
\<close>

theorem ParseArguments_fields:
  assumes "distinct (map fst (option_uses run))"
  shows "ParseArguments ws run = Inr a \<longleftrightarrow> parse_error run = None
    \<and> (\<forall>(n, s)\<in>set (option_uses run). n \<notin> {nic, mcast_ip} \<longrightarrow> (\<exists>v. stoi s = Inr v))
    \<and> Command a = takeWhile (\<lambda>c. c \<noteq> CHR 0x00) (command_arg run)
    \<and> IfIndex a = takeWhile (\<lambda>c. c \<noteq> CHR 0x00) (text_of (option_uses run) nic ''Ethernet'')
    \<and> (\<exists>dflt. Ipv4_of_string ws ''239.5.69.2'' = Inr dflt
        \<and> ParseDestinations ws (text_of (option_uses run) mcast_ip ''239.5.69.2'') dflt = Inr (McastAddrStr a))
    \<and> uint (McastPort a) = number_of (option_uses run) mcast_port 10000 mod 2 ^ 16
    \<and> uint (PktsToCount a) = number_of (option_uses run) total_pkts 20000000 mod 2 ^ 32
    \<and> PacketRate a = number_of (option_uses run) pps 1
    \<and> SecondsToRun a = number_of (option_uses run) seconds 0"
proof -
  have pkts: "uint (ucast (word_of_int v :: u32) :: u64) = v mod 2 ^ 32" for v
    by (simp add: unsigned_ucast_eq take_bit_eq_mod uint_word_of_int)
  have words: "McastPort a = word_of_int v \<longleftrightarrow> uint (McastPort a) = v mod 2 ^ 16"
    "PktsToCount a = ucast (word_of_int v :: u32) \<longleftrightarrow> uint (PktsToCount a) = v mod 2 ^ 32" for v
    using pkts [of v] by (auto simp: word_uint_eq_iff uint_word_of_int)
  have num: "all_numbers (option_uses run) \<longleftrightarrow>
      (\<forall>(n, s)\<in>set (option_uses run). n \<notin> {nic, mcast_ip} \<longrightarrow> (\<exists>v. stoi s = Inr v))"
    by (simp add: all_numbers_def numeric_option_def)
  show ?thesis
    unfolding num [symmetric] words [symmetric]
    by (cases a) (auto simp: ParseArguments_def bind_res_eq_Inr option_actions_fields [OF assms]
      args_of_opts_def c_str_def opts_default_def DEFAULT_IFINDEX_def MULTICAST_IP_def MULTICAST_PORT_def
      MAX_PKTS_TO_RECEIVE_def PACKET_RATE_SEC_def RUN_FOR_NSEC_def split: option.splits)
qed

theorem ParseArguments_fields_witness:
  "ParseArguments ref_winsock \<lparr>option_uses = [(pps, ''7''), (mcast_port, ''70000'')], parse_error = None,
      command_arg = ''consumer''\<rparr> = Inr \<lparr>Command = ''consumer'',
      McastAddrStr = [Ipv4Addr (bswap32 0xEF054502)], McastPort = 4464, IfIndex = ''Ethernet'',
      PktsToCount = 20000000, PacketRate = 7, SecondsToRun = 0\<rparr>"
proof -
  let ?us = "[(pps, ''7''), (mcast_port, ''70000'')]"
  have num: "stoi ''7'' = Inr 7" by code_simp
  have "dec_of_nat 70000 = ''70000''" by (simp add: dec_eval)
  with stoi_dec_of_nat [of 70000] have "stoi ''70000'' = Inr 70000" by simp
  note num = num this
  have given: "number_of ?us mcast_port 10000 = 70000" "number_of ?us pps 1 = 7"
    by (simp_all add: num)
  have defaults: "number_of ?us total_pkts 20000000 = 20000000" "number_of ?us seconds 0 = 0"
    "text_of ?us nic ''Ethernet'' = ''Ethernet''"
    "text_of ?us mcast_ip ''239.5.69.2'' = ''239.5.69.2''"
    by simp_all
  have dest: "ParseDestinations ref_winsock ''239.5.69.2'' d = Inr [Ipv4Addr (bswap32 0xEF054502)]" for d
    unfolding default_ip_dotted refws.ParseDestinations_one by (simp add: ref_winsock_def)
  obtain d where d: "Ipv4_of_string ref_winsock ''239.5.69.2'' = Inr d"
    unfolding default_ip_dotted using ref_of_dotted by blast
  have "distinct (map fst ?us)" by simp
  then show ?thesis
    using ParseArguments_fields [of "\<lparr>option_uses = ?us, parse_error = None, command_arg = ''consumer''\<rparr>"
        ref_winsock "\<lparr>Command = ''consumer'', McastAddrStr = [Ipv4Addr (bswap32 0xEF054502)],
          McastPort = 4464, IfIndex = ''Ethernet'', PktsToCount = 20000000, PacketRate = 7,
          SecondsToRun = 0\<rparr>"]
    by (simp add: given defaults dest d num del: option_texts)
qed

end
