(* ===== verification/Console_Text.thy ===== *)
theory Console_Text
  imports Report_Format Args
begin

text \<open>
  The remaining text the program prints: the configuration (\<open>main\<close>, swxtch-perf-rio.cpp) and the
  final tables of both commands (\<open>GroupStatsPrint\<close>, RioConsumer.cpp and RioProducer.cpp). Lines
  are strings without their newline; the numbers of the tables are those of theory
  Group_Stats. The tables can be read back, except for the last two columns of the totals.
\<close>

abbreviation TAB :: char where "TAB \<equiv> CHR 0x09"

section \<open>The configuration\<close>

definition print_config :: "winsock \<Rightarrow> args_t \<Rightarrow> string list" where
  "print_config ws args =
     [''Config: '',
      TAB # ''Waiting traffic from '' @ dec_of_nat (length (McastAddrStr args)) @ '' multicast groups'']
     @ map (\<lambda>mcAddr. TAB # ''Mcast group: '' @ Ipv4_str ws mcAddr) (McastAddrStr args)
     @ [TAB # ''MCast Port    : '' @ dec_of_nat (unat (McastPort args)),
        TAB # ''Interface IP Address     : '' @ IfIndex args,
        (if PktsToCount args \<noteq> 0
         then TAB # ''Counting a total of: '' @ dec_of_nat (unat (PktsToCount args)) @ '' packets''
         else TAB # ''Running without a total packet counter limit''),
        (if SecondsToRun args \<noteq> 0
         then TAB # ''Running the application for at least: '' @ dec_of_int (SecondsToRun args) @ ''seconds''
         else TAB # ''Running the application without a timing limit'')]"

section \<open>The final tables\<close>

definition dashes :: "nat \<Rightarrow> string" where
  "dashes n = replicate n CHR ''-''"

definition consumer_row :: "string \<times> u64 \<times> u64 \<times> u64 \<times> u64 \<times> u64 \<Rightarrow> string" where
  "consumer_row x = (case x of (ip, p, b, sq, o', d) \<Rightarrow>
     ip @ [TAB] @ llu 10 p @ ''  '' @ llu 12 b @ ''  '' @ llu 10 sq @ ''  '' @ llu 10 o' @ ''  '' @ llu 10 d)"

definition totals_row :: "u64 \<times> u64 \<times> u64 \<times> u64 \<Rightarrow> string" where
  "totals_row x = (case x of (p, b, o', d) \<Rightarrow>
     ''Totals:'' @ [TAB, TAB] @ llu 10 p @ ''  '' @ llu 12 b @ ''    '' @ llu 20 o' @ llu 12 d)"

definition consumer_table :: "(u32 \<Rightarrow> string) \<Rightarrow> McGroupStatsMap \<Rightarrow> string list" where
  "consumer_table ntop m =
     (let (rows, totals) = RioConsumer_GroupStatsPrint ntop m
      in ['''', ''  Group           Packets        Bytes      Last Seq   OutOfOrder    Drops'', dashes 77]
         @ map consumer_row rows @ [dashes 77, totals_row totals, ''''])"

definition producer_row :: "string \<times> u64 \<times> u64 \<times> u64 \<Rightarrow> string" where
  "producer_row x = (case x of (ip, p, b, sq) \<Rightarrow>
     ip @ [TAB] @ llu 10 p @ ''  '' @ llu 12 b @ ''  '' @ llu 10 sq)"

definition producer_table :: "(u32 \<Rightarrow> string) \<Rightarrow> McGroupStatsMap \<Rightarrow> string list" where
  "producer_table ntop m =
     ['''', ''  Group           Packets        Bytes      Last Seq   '', dashes 57]
     @ map producer_row (RioProducer_GroupStatsPrint ntop m) @ ['''']"

section \<open>Reading a line back\<close>

text \<open>The words of a line: the longest pieces without white space.\<close>

fun words_from :: "string \<Rightarrow> string \<Rightarrow> string list" where
  "words_from acc [] = (if acc = [] then [] else [acc])"
| "words_from acc (c # cs) =
     (if is_space c then (if acc = [] then [] else [acc]) @ words_from [] cs
      else words_from (acc @ [c]) cs)"

definition words :: "string \<Rightarrow> string list" where
  "words s = words_from [] s"

definition one_word :: "string \<Rightarrow> bool" where
  "one_word w \<longleftrightarrow> w \<noteq> [] \<and> list_all (\<lambda>c. \<not> is_space c) w"

lemma space_chars [simp]: "is_space CHR '' ''" "is_space TAB"
  by code_simp+

lemma words_from_word:
  "list_all (\<lambda>c. \<not> is_space c) w \<Longrightarrow> words_from acc (w @ s) = words_from (acc @ w) s"
  by (induction w arbitrary: acc) auto

lemma words_from_blanks: "words_from [] (replicate n CHR '' '' @ s) = words_from [] s"
  by (induction n) auto

lemma words_word: "one_word w \<Longrightarrow> is_space c \<Longrightarrow> words_from [] (w @ c # s) = w # words_from [] s"
  by (simp add: words_from_word one_word_def)

lemma words_last: "one_word w \<Longrightarrow> words_from [] w = [w]"
  using words_from_word [of w "[]" "[]"] by (simp add: one_word_def)

lemma one_word_dec: "one_word (dec_of_nat n)"
  using dec_of_nat_digits [of n] by (auto simp: one_word_def list_all_iff is_digit_not(5))

lemma words_llu: "is_space c \<Longrightarrow> words_from [] (llu w v @ c # s) = dec_of_nat (unat v) # words_from [] s"
  by (simp add: llu_def pad_def words_from_blanks words_word one_word_dec)

lemma words_llu_last: "words_from [] (llu w v) = [dec_of_nat (unat v)]"
  by (simp add: llu_def pad_def words_from_blanks words_last one_word_dec)

lemma words_skip: "is_space c \<Longrightarrow> words_from [] (c # s) = words_from [] s"
  by simp

lemma words_consumer_row:
  "one_word ip \<Longrightarrow> words (consumer_row (ip, p, b, sq, o', d)) =
     ip # map (dec_of_nat \<circ> unat) [p, b, sq, o', d]"
  by (simp add: words_def consumer_row_def words_word words_llu words_llu_last)

lemma words_producer_row:
  "one_word ip \<Longrightarrow> words (producer_row (ip, p, b, sq)) = ip # map (dec_of_nat \<circ> unat) [p, b, sq]"
  by (simp add: words_def producer_row_def words_word words_llu words_llu_last)

lemma words_totals:
  "words_from [] (''Totals:'' @ [TAB, TAB] @ s) = ''Totals:'' # words_from [] s"
  by (simp add: is_space_def)

lemma words_totals_row:
  assumes "unat d < 10 ^ 11"
  shows "words (totals_row (p, b, o', d)) = ''Totals:'' # map (dec_of_nat \<circ> unat) [p, b, o', d]"
proof -
  let ?d = "dec_of_nat (unat d)"
  have "length ?d \<le> 11" using length_dec_of_nat [OF assms] by simp
  then have "12 - length ?d = Suc (11 - length ?d)" by simp
  then have d: "llu 12 d = CHR '' '' # pad 11 ?d" by (simp add: llu_def pad_def)
  have "words_from [] (pad 11 ?d) = [?d]"
    by (simp add: pad_def words_from_blanks words_last one_word_dec)
  then show ?thesis
    unfolding words_def totals_row_def prod.case d words_totals
    by (simp add: words_llu)
qed

section \<open>Properties\<close>

text \<open>
  C32: The consumer's final table can be read back. Split at white space, its lines are the
  headings, one line for each group with the group's own counters in order, and the line of
  totals with the sums \<open>GetMcTotals\<close> computes; the columns never run together, however large the
  counters are, except for the last two totals, which need a loss total below \<open>10 ^ 11\<close>.
\<close>

theorem consumer_table_readable:
  assumes "list_all (\<lambda>(k, v). one_word (ntop k)) m" and "unat (TotalDrops (GetMcTotals m)) < 10 ^ 11"
  shows "map words (consumer_table ntop m) =
    [[], [''Group'', ''Packets'', ''Bytes'', ''Last'', ''Seq'', ''OutOfOrder'', ''Drops''], [dashes 77]]
    @ map (\<lambda>(k, v). ntop k # map (dec_of_nat \<circ> unat)
        [Packets v, Bytes v, Sequence v, OutOfOrder v, RxDropped v]) m
    @ [[dashes 77], ''Totals:'' # map (dec_of_nat \<circ> unat) (case GetMcTotals m of t \<Rightarrow>
        [TotalPackets t, TotalBytes t, TotalOutOfOrder t, TotalDrops t]), []]"
proof -
  let ?r = "RioConsumer_GroupStatsPrint ntop m"
  have totals: "snd ?r = (TotalPackets (GetMcTotals m), TotalBytes (GetMcTotals m),
      TotalOutOfOrder (GetMcTotals m), TotalDrops (GetMcTotals m))"
    using final_report_totals by blast
  have rows: "map words (map consumer_row (fst ?r)) = map (\<lambda>(k, v). ntop k # map (dec_of_nat \<circ> unat)
      [Packets v, Bytes v, Sequence v, OutOfOrder v, RxDropped v]) m"
    using assms(1) by (auto simp: RioConsumer_GroupStatsPrint_def list_all_iff words_consumer_row)
  have "words ''  Group           Packets        Bytes      Last Seq   OutOfOrder    Drops'' =
      [''Group'', ''Packets'', ''Bytes'', ''Last'', ''Seq'', ''OutOfOrder'', ''Drops'']"
    and "words (dashes 77) = [dashes 77]" and "words [] = []"
    by code_simp+
  then show ?thesis
    using rows words_totals_row [OF assms(2)]
    by (simp add: consumer_table_def split_beta totals)
qed

theorem consumer_table_readable_witness:
  "map words (consumer_table (\<lambda>_. ''239.5.69.2'') [(7, McGroupStats_init\<lparr>Packets := 12, RxDropped := 3\<rparr>)]) ! 3 =
     [''239.5.69.2'', ''12'', ''0'', ''0'', ''0'', ''3'']"
proof -
  let ?m = "[(7 :: u32, McGroupStats_init\<lparr>Packets := 12, RxDropped := 3\<rparr>)]"
  have "one_word ''239.5.69.2''" by code_simp
  then have "list_all (\<lambda>(k, v). one_word ((\<lambda>_. ''239.5.69.2'') k)) ?m" by simp
  moreover have "unat (TotalDrops (GetMcTotals ?m)) < 10 ^ 11" by (simp add: GetMcTotals_sel)
  ultimately have eq: "map words (consumer_table (\<lambda>_. ''239.5.69.2'') ?m) = [[],
      [''Group'', ''Packets'', ''Bytes'', ''Last'', ''Seq'', ''OutOfOrder'', ''Drops''], [dashes 77]]
    @ map (\<lambda>(k, v). ''239.5.69.2'' # map (dec_of_nat \<circ> unat)
        [Packets v, Bytes v, Sequence v, OutOfOrder v, RxDropped v]) ?m
    @ [[dashes 77], ''Totals:'' # map (dec_of_nat \<circ> unat) (case GetMcTotals ?m of t \<Rightarrow>
        [TotalPackets t, TotalBytes t, TotalOutOfOrder t, TotalDrops t]), []]"
    by (rule consumer_table_readable)
  show ?thesis unfolding eq by (simp add: dec_eval)
qed

text \<open>The totals of late and lost packets have no blank between them: a loss total of twelve
  digits or more cannot be told from the number before it.\<close>

lemma totals_columns_merge:
  assumes "12 \<le> length (dec_of_nat (unat d))"
  shows "words (totals_row (p, b, o', d)) =
    [''Totals:'', dec_of_nat (unat p), dec_of_nat (unat b), dec_of_nat (unat o') @ dec_of_nat (unat d)]"
proof -
  have d: "llu 12 d = dec_of_nat (unat d)" using assms by (simp add: llu_def pad_def)
  have "one_word (dec_of_nat (unat o') @ dec_of_nat (unat d))"
    using one_word_dec [of "unat o'"] one_word_dec [of "unat d"] by (simp add: one_word_def)
  then have "words_from [] (llu 20 o' @ dec_of_nat (unat d)) = [dec_of_nat (unat o') @ dec_of_nat (unat d)]"
    by (simp add: llu_def pad_def words_from_blanks words_last)
  then show ?thesis
    unfolding words_def totals_row_def prod.case d words_totals by (simp add: words_llu)
qed

text \<open>The producer's final table, likewise.\<close>

theorem producer_table_readable:
  assumes "list_all (\<lambda>(k, v). one_word (ntop k)) m"
  shows "map words (producer_table ntop m) =
    [[], [''Group'', ''Packets'', ''Bytes'', ''Last'', ''Seq''], [dashes 57]]
    @ map (\<lambda>(k, v). ntop k # map (dec_of_nat \<circ> unat) [Packets v, Bytes v, Sequence v]) m @ [[]]"
proof -
  have rows: "map words (map producer_row (RioProducer_GroupStatsPrint ntop m)) =
      map (\<lambda>(k, v). ntop k # map (dec_of_nat \<circ> unat) [Packets v, Bytes v, Sequence v]) m"
    using assms by (auto simp: RioProducer_GroupStatsPrint_def list_all_iff words_producer_row)
  have "words ''  Group           Packets        Bytes      Last Seq   '' =
      [''Group'', ''Packets'', ''Bytes'', ''Last'', ''Seq'']"
    and "words (dashes 57) = [dashes 57]" and "words [] = []"
    by code_simp+
  with rows show ?thesis by (simp add: producer_table_def)
qed

end
