(* ===== verification/Rio_Session.thy ===== *)
theory Rio_Session
  imports Args Group_Stats Float64 "HOL-Library.Multiset"
begin

text \<open>
  The base class \<open>RioSession\<close> (RioSession.hpp, RioSession.cpp) with the rounding helpers of
  Utilities.hpp. The operating system is an argument: \<open>sys os trace call\<close> is the value a
  call returns after the calls in \<open>trace\<close>. The state of a session holds the members of the
  class and the trace of the calls made so far; an operation returns the new state, or the
  way the program ends. Members the constructor leaves uninitialised start as 0.
\<close>

section \<open>The operating system interface\<close>

record RIO_BUF =
  BufferId :: u64
  Offset :: u32
  Length :: u32

datatype syscall =
    WSASocket u32
  | CreateIoCompletionPort
  | WSAIoctl u64
  | Bind u64 u32 u16
  | RIOCreateRequestQueue u64 u32 u32 u32 u32 u64 u64
  | VirtualAlloc u32
  | RIORegisterBuffer u64 u32
  | RIOCreateCompletionQueue u32 u64
  | RIONotify u64
  | CloseSocketCall u64
  | RIOCloseCompletionQueue u64
  | RIODeregisterBuffer u64
  | VirtualFree u64
  | SetReuseAddr u64
  | AddMembership u64 u32 u32
  | SetMulticastIf u64 u32
  | RIOReceiveEx u64 RIO_BUF RIO_BUF nat
  | RIOSendEx u64 RIO_BUF RIO_BUF nat

text \<open>
  \<open>RIOReceiveEx\<close> and \<open>RIOSendEx\<close> carry the data descriptor, the address descriptor and the
  request context, a pointer into \<open>m_RioBuffDescr\<close>, which is kept as its index.
\<close>

record os_env =
  sys :: "syscall list \<Rightarrow> syscall \<Rightarrow> u64"
  allocation_granularity :: u32
  large_page_minimum :: u64
  net :: winsock
  net_htons :: "u16 \<Rightarrow> u16"
  net_inet_addr :: "string \<Rightarrow> u32"

definition INVALID_SOCKET :: u64 where "INVALID_SOCKET = - 1"
definition SOCKET_ERROR :: u64 where "SOCKET_ERROR = - 1"
definition RIO_INVALID_RQ :: u64 where "RIO_INVALID_RQ = 0"
definition RIO_INVALID_CQ :: u64 where "RIO_INVALID_CQ = 0"
definition RIO_INVALID_BUFFERID :: u64 where "RIO_INVALID_BUFFERID = 0xFFFFFFFF"
definition WSA_FLAG_REGISTERED_IO :: u32 where "WSA_FLAG_REGISTERED_IO = 0x100"

section \<open>Constants and state\<close>

definition LARGE_PAGES_ENABLED :: bool where "LARGE_PAGES_ENABLED = False"
definition EXPECTED_DATA_SIZE :: u32 where "EXPECTED_DATA_SIZE = 100"
definition MAX_PENDING_RECVS :: u32 where "MAX_PENDING_RECVS = 1500000"
definition MAX_PENDING_SENDS :: u32 where "MAX_PENDING_SENDS = 4000"
definition MAX_RIO_RESULTS :: u32 where "MAX_RIO_RESULTS = 1000"

text \<open>\<open>sizeof(SOCKADDR_INET)\<close>: the size of its larger variant, \<open>sockaddr_in6\<close>.\<close>

definition ADDR_SIZE :: u32 where "ADDR_SIZE = 28"

text \<open>Time points of the steady clock, in nanoseconds.\<close>

record Timing_s =
  startTime :: int
  stopTime :: int

record RioSession =
  m_SocketHandle :: u64
  m_RequestQueue :: u64
  m_CompletionQueue :: u64
  m_RioBuffPtr :: u64
  m_RioBuffId :: u64
  m_RioBuffDescr :: "RIO_BUF list"
  m_McAddrBuffPtr :: u64
  m_McAddrBuffId :: u64
  m_McAddrDescr :: "RIO_BUF list"
  m_hIOCP :: u64
  m_MaxOutstandingReceive :: u32
  m_MaxReceiveDataBuffers :: u32
  m_MaxOutstandingSend :: u32
  m_MaxSendDataBuffers :: u32
  m_Args :: args_t
  m_Timing :: Timing_s
  m_GroupStats :: McGroupStatsMap
  m_TotalPkts :: u32
  calls :: "syscall list"

type_synonym session_op = "RioSession \<Rightarrow> RioSession result"

text \<open>A system call: its value, and the state with the call in the trace.\<close>

definition do_call :: "os_env \<Rightarrow> syscall \<Rightarrow> RioSession \<Rightarrow> u64 \<times> RioSession" where
  "do_call os c s = (sys os (calls s) c, s\<lparr>calls := calls s @ [c]\<rparr>)"

section \<open>Rounding\<close>

definition RoundDown :: "u64 \<Rightarrow> u64 \<Rightarrow> u64" where
  "RoundDown Value Multiple = (Value div Multiple) * Multiple"

definition RoundUp :: "u64 \<Rightarrow> u64 \<Rightarrow> u64" where
  "RoundUp Value Multiple =
     RoundDown Value Multiple + (if Value mod Multiple > 0 then Multiple else 0)"

section \<open>Operations\<close>

definition CreateSocket :: "os_env \<Rightarrow> u32 \<Rightarrow> session_op" where
  "CreateSocket os flags s =
     (let (h, s) = do_call os (WSASocket flags) s;
          s = s\<lparr>m_SocketHandle := h\<rparr>
      in if h = INVALID_SOCKET then Inl (ErrorExit ''WSASocket'') else Inr s)"

definition InitializeRIO :: "os_env \<Rightarrow> session_op" where
  "InitializeRIO os s =
     (let (r, s) = do_call os (WSAIoctl (m_SocketHandle s)) s
      in if 0 \<noteq> r then Inl (ErrorExit ''WSAIoctl'') else Inr s)"

definition BindSocket :: "os_env \<Rightarrow> u16 \<Rightarrow> string \<Rightarrow> session_op" where
  "BindSocket os bindPort bindAddr s =
     bind_res
       (if bindAddr \<noteq> [] then
          (case inet_pton4 (net os) bindAddr of
             None \<Rightarrow> Inl (ErrorExit ''Error converting the specified address to bind'')
           | Some a \<Rightarrow> Inr a)
        else Inr 0)
       (\<lambda>addr.
          let (r, s) = do_call os (Bind (m_SocketHandle s) addr (net_htons os bindPort)) s
          in if SOCKET_ERROR = r then Inl (ErrorExit ''Error during socket binding process'')
             else Inr s)"

definition CreateRequestQueue :: "os_env \<Rightarrow> session_op" where
  "CreateRequestQueue os s =
     (let (rq, s) = do_call os (RIOCreateRequestQueue (m_SocketHandle s)
            (m_MaxOutstandingReceive s) (m_MaxReceiveDataBuffers s) (m_MaxOutstandingSend s)
            (m_MaxSendDataBuffers s) (m_CompletionQueue s) (m_CompletionQueue s)) s;
          s = s\<lparr>m_RequestQueue := rq\<rparr>
      in if rq = RIO_INVALID_RQ then Inl (ErrorExit ''Error creating a RIO Request Queue'')
         else Inr s)"

text \<open>
  The sizes that \<open>AllocateBufferSpace\<close> computes: \<open>messageSize * totalMessages\<close> is a product of
  two \<open>DWORD\<close>s, so it wraps at 32 bits before it is widened.
\<close>

definition alloc_granularity :: "os_env \<Rightarrow> u64" where
  "alloc_granularity os =
     (let largePageMinimum = (if LARGE_PAGES_ENABLED then large_page_minimum os else 0)
      in if largePageMinimum = 0 then ucast (allocation_granularity os) else largePageMinimum)"

definition buffer_sizes :: "u64 \<Rightarrow> u32 \<Rightarrow> u32 \<Rightarrow> u32 \<times> u32" where
  "buffer_sizes granularity messageSize totalMessages =
     (let desiredSize = (ucast (messageSize * totalMessages) :: u64);
          actualSize0 = RoundUp desiredSize granularity;
          actualSize = (if actualSize0 > 0xFFFFFFFF
            then (0xFFFFFFFF div granularity) * granularity else actualSize0);
          receiveBuffersAllocated = min totalMessages (ucast (actualSize div ucast messageSize))
      in (ucast actualSize, receiveBuffersAllocated))"

definition AllocateBufferSpace ::
    "os_env \<Rightarrow> u32 \<Rightarrow> u32 \<Rightarrow> RioSession \<Rightarrow> (u64 \<times> u32 \<times> u32 \<times> RioSession) result" where
  "AllocateBufferSpace os messageSize totalMessages s =
     (if messageSize = 0 \<or> alloc_granularity os = 0 then Inl (Undefined ''division by zero'')
      else
        (let (bufferSize, receiveBuffersAllocated) =
               buffer_sizes (alloc_granularity os) messageSize totalMessages;
             (pBuffer, s) = do_call os (VirtualAlloc bufferSize) s
         in if pBuffer = 0 then Inl (ErrorExit ''VirtualAlloc'')
            else Inr (pBuffer, bufferSize, receiveBuffersAllocated, s)))"

text \<open>The buffer pointer and the buffer id are returned with the state.\<close>

definition AllocateAndRegisterBuffer ::
    "os_env \<Rightarrow> u32 \<Rightarrow> u32 \<Rightarrow> RioSession \<Rightarrow> (u64 \<times> u64 \<times> RioSession) result" where
  "AllocateAndRegisterBuffer os messageSize totalMessages s =
     bind_res (AllocateBufferSpace os messageSize totalMessages s)
       (\<lambda>(bufferPointer, bufferSize, pendingRealSize, s).
          let (bufferId, s) = do_call os (RIORegisterBuffer bufferPointer bufferSize) s
          in if bufferId = RIO_INVALID_BUFFERID \<or> pendingRealSize \<noteq> totalMessages
             then Inl (ErrorExit ''RIORegisterBuffer'')
             else Inr (bufferPointer, bufferId, s))"

definition CloseSocket :: "os_env \<Rightarrow> session_op" where
  "CloseSocket os s =
     (let (r, s) = do_call os (CloseSocketCall (m_SocketHandle s)) s
      in if SOCKET_ERROR = r then Inl (ErrorExit ''Error Closing Socket'') else Inr s)"

definition ReleaseAndDeregisterBuffer :: "os_env \<Rightarrow> u64 \<Rightarrow> u64 \<Rightarrow> session_op" where
  "ReleaseAndDeregisterBuffer os bufferId buffPointer s =
     (let (_, s) = do_call os (RIODeregisterBuffer bufferId) s;
          (r, s) = do_call os (VirtualFree buffPointer) s
      in if 0 = r then Inl (ErrorExit ''Error deAllocating the buffer'') else Inr s)"

definition CleanUpRIO :: "os_env \<Rightarrow> session_op" where
  "CleanUpRIO os s =
     bind_res (CloseSocket os s) (\<lambda>s.
       let (_, s) = do_call os (RIOCloseCompletionQueue (m_CompletionQueue s)) s
       in bind_res (ReleaseAndDeregisterBuffer os (m_RioBuffId s) (m_RioBuffPtr s) s)
            (\<lambda>s. ReleaseAndDeregisterBuffer os (m_McAddrBuffId s) (m_McAddrBuffPtr s) s))"

definition CreateCompletionQueue :: "os_env \<Rightarrow> u32 \<Rightarrow> session_op" where
  "CreateCompletionQueue os cqSize s =
     (let (cq, s) = do_call os (RIOCreateCompletionQueue cqSize (m_hIOCP s)) s;
          s = s\<lparr>m_CompletionQueue := cq\<rparr>
      in if cq = RIO_INVALID_CQ then Inl (ErrorExit ''RIOCreateCompletionQueue'') else Inr s)"

definition NotifyCompletionQueue :: "os_env \<Rightarrow> session_op" where
  "NotifyCompletionQueue os s =
     (let (notifyResult, s) = do_call os (RIONotify (m_CompletionQueue s)) s
      in if notifyResult \<noteq> 0 then Inl (ErrorExit ''RIONotify'') else Inr s)"

text \<open>The constructor.\<close>

definition RioSession_uninit :: "args_t \<Rightarrow> RioSession" where
  "RioSession_uninit args =
     \<lparr>m_SocketHandle = 0, m_RequestQueue = 0, m_CompletionQueue = 0, m_RioBuffPtr = 0,
      m_RioBuffId = 0, m_RioBuffDescr = [], m_McAddrBuffPtr = 0, m_McAddrBuffId = 0,
      m_McAddrDescr = [], m_hIOCP = 0, m_MaxOutstandingReceive = 0,
      m_MaxReceiveDataBuffers = 0, m_MaxOutstandingSend = 0, m_MaxSendDataBuffers = 0,
      m_Args = args, m_Timing = \<lparr>startTime = 0, stopTime = 0\<rparr>, m_GroupStats = [],
      m_TotalPkts = 0, calls = []\<rparr>"

definition RioSession_new :: "os_env \<Rightarrow> args_t \<Rightarrow> RioSession result" where
  "RioSession_new os args =
     bind_res (CreateSocket os WSA_FLAG_REGISTERED_IO (RioSession_uninit args)) (\<lambda>s.
       let (h, s) = do_call os CreateIoCompletionPort s;
           s = s\<lparr>m_hIOCP := h, m_TotalPkts := 0\<rparr>
       in Inr (s\<lparr>m_GroupStats :=
            InitGroupStats (map ipNetOrder (McastAddrStr args)) (m_GroupStats s)\<rparr>))"

text \<open>Timing and the loop condition (true while the program should go on).\<close>

definition setStart :: "int \<Rightarrow> Timing_s \<Rightarrow> Timing_s" where
  "setStart now t = t\<lparr>startTime := now\<rparr>"

definition setStop :: "int \<Rightarrow> Timing_s \<Rightarrow> Timing_s" where
  "setStop now t = t\<lparr>stopTime := now\<rparr>"

text \<open>\<open>duration_cast\<close> truncates towards zero; the count is converted to \<open>uint64_t\<close>.\<close>

definition getElapsedTimeMs :: "Timing_s \<Rightarrow> u64" where
  "getElapsedTimeMs t = word_of_int (trunc_div (stopTime t - startTime t) 1000000)"

definition getElapsedTimeSec :: "Timing_s \<Rightarrow> u64" where
  "getElapsedTimeSec t = word_of_int (trunc_div (stopTime t - startTime t) 1000000000)"

definition ShouldStop :: "int \<Rightarrow> int \<Rightarrow> RioSession \<Rightarrow> bool \<times> RioSession" where
  "ShouldStop exitSignal now s =
     (let sigExit = (exitSignal = 0);
          pktsTreshold = (if PktsToCount (m_Args s) = 0 then True
            else ucast (m_TotalPkts s) < PktsToCount (m_Args s));
          s = s\<lparr>m_Timing := setStop now (m_Timing s)\<rparr>;
          timeTreshold = (if SecondsToRun (m_Args s) = 0 then True
            else getElapsedTimeSec (m_Timing s) < word_of_int (SecondsToRun (m_Args s)))
      in (sigExit \<and> pktsTreshold \<and> timeTreshold, s))"

text \<open>
  What \<open>PrintTimings\<close> prints: the elapsed milliseconds, the two counts, and the packets per
  second unless the time is zero.
\<close>

definition perSec :: "u64 \<Rightarrow> u64 \<Rightarrow> double" where
  "perSec pktsProcessed elapsedMs = fl (double_of pktsProcessed / fl (double_of elapsedMs / 1000))"

definition PrintTimings :: "u64 \<Rightarrow> u64 \<Rightarrow> RioSession \<Rightarrow> u64 \<times> u64 \<times> u64 \<times> double option" where
  "PrintTimings pktsProcessed pktsOther s =
     (let elapsedMs = getElapsedTimeMs (m_Timing s)
      in (elapsedMs, pktsProcessed, pktsOther,
           if elapsedMs \<noteq> 0 then Some (perSec pktsProcessed elapsedMs) else None))"

text \<open>
  The printed rate is the quotient of the count by the time: over a time that is not zero it
  is off by at most a \<open>2 ^ -50\<close> part, and it is printed exactly for such times.
\<close>

theorem PrintTimings_rate:
  "case PrintTimings n other s of (ms, n', other', rate) \<Rightarrow>
     ms = getElapsedTimeMs (m_Timing s) \<and> n' = n \<and> other' = other
     \<and> (rate = None \<longleftrightarrow> ms = 0)
     \<and> (\<forall>x. rate = Some x \<longrightarrow> (let exact = of_nat (unat n) / (of_nat (unat ms) / 1000)
           in 2 ^ 50 * \<bar>x - exact\<bar> \<le> exact))"
proof -
  let ?ms = "getElapsedTimeMs (m_Timing s)"
  have rate: "2 ^ 50 * \<bar>perSec n ?ms - of_nat (unat n) / (of_nat (unat ?ms) / 1000)\<bar>
      \<le> of_nat (unat n) / (of_nat (unat ?ms) / 1000)" if "?ms \<noteq> 0"
  proof -
    have "0 < unat ?ms" using that by (simp add: unat_gt_0)
    then have t: "0 < (of_nat (unat ?ms) / 1000 :: rat)" by (simp del: of_nat_unat)
    have "near 1 (of_nat (unat ?ms) / 1000) (double_of ?ms / 1000)"
      using near_div [OF near_double_of near_refl, of 1000 ?ms] by simp
    then have "near (Suc (1 + Suc 1)) (of_nat (unat n) / (of_nat (unat ?ms) / 1000)) (perSec n ?ms)"
      unfolding perSec_def by (intro near_fl near_div near_double_of t)
    then show ?thesis by (rule near_error) simp
  qed
  show ?thesis
    unfolding PrintTimings_def Let_def prod.case using rate by (auto simp del: of_nat_unat)
qed

section \<open>Buffer slots\<close>

text \<open>The slots the descriptors are meant to name: the \<open>j\<close>-th message of each buffer.\<close>

definition data_slot :: "u64 \<Rightarrow> nat \<Rightarrow> RIO_BUF" where
  "data_slot i j = \<lparr>BufferId = i, Offset = of_nat (100 * j), Length = 100\<rparr>"

definition addr_slot :: "u64 \<Rightarrow> nat \<Rightarrow> RIO_BUF" where
  "addr_slot i j = \<lparr>BufferId = i, Offset = of_nat (28 * j), Length = 28\<rparr>"

section \<open>Rounding and buffer sizes\<close>

lemma RoundDown_unat: "unat (RoundDown v m) = unat v div unat m * unat m"
proof -
  have "unat v div unat m * unat m \<le> unat v" by simp
  also have "\<dots> < 2 ^ 64" using unat_below [of v] by simp
  finally show ?thesis
    unfolding RoundDown_def by (subst unat_mult_less) (simp_all add: unat_div_mod)
qed

lemma RoundUp_unat:
  assumes "unat v + unat m \<le> 2 ^ 64" and "m \<noteq> 0"
  shows "unat (RoundUp v m) =
    unat v div unat m * unat m + (if unat v mod unat m = 0 then 0 else unat m)"
proof (cases "unat v mod unat m = 0")
  case True
  then have "v mod m = 0" by (simp add: word_eq_unat unat_div_mod)
  with True show ?thesis by (simp add: RoundUp_def RoundDown_unat)
next
  case False
  then have "v mod m \<noteq> 0" by (simp add: word_eq_unat unat_div_mod)
  then have up: "RoundUp v m = RoundDown v m + m" by (simp add: RoundUp_def word_gt_0)
  have "unat v div unat m * unat m < unat v"
    using False by (metis div_mult_mod_eq less_add_same_cancel1 neq0_conv)
  with assms(1) have "unat (RoundDown v m) + unat m < 2 ^ 64"
    by (simp add: RoundDown_unat)
  with up False show ?thesis by (simp add: unat_add_less RoundDown_unat)
qed

lemma round_up_nat:
  fixes v m :: nat
  assumes "0 < m"
  defines "r \<equiv> v div m * m + (if v mod m = 0 then 0 else m)"
  shows "m dvd r" and "v \<le> r" and "r < v + m"
proof -
  define q where "q = v div m * m"
  have v: "q + v mod m = v" by (simp add: q_def)
  have m: "v mod m < m" using assms(1) by simp
  show "m dvd r" unfolding r_def by simp
  show "v \<le> r" unfolding r_def q_def [symmetric] using v m by (cases "v mod m = 0") simp_all
  show "r < v + m" unfolding r_def q_def [symmetric] using v assms(1)
    by (cases "v mod m = 0") simp_all
qed

text \<open>
  \<open>RoundUp\<close> gives the least multiple that is not below the value, as long as value plus
  multiple fit in 64 bits.
\<close>

theorem RoundUp_least_multiple:
  assumes "m \<noteq> 0" and "unat v + unat m \<le> 2 ^ 64"
  shows "unat m dvd unat (RoundUp v m) \<and> unat v \<le> unat (RoundUp v m)
    \<and> unat (RoundUp v m) < unat v + unat m"
proof -
  have "0 < unat m" using assms(1) by (simp add: unat_gt_0)
  then show ?thesis
    using round_up_nat [of "unat m" "unat v"] by (simp add: RoundUp_unat [OF assms(2,1)])
qed

theorem RoundUp_least_multiple_witness:
  "65536 dvd unat (RoundUp 150000000 65536) \<and> 150000000 \<le> unat (RoundUp 150000000 65536)
    \<and> unat (RoundUp 150000000 65536) < 150065536"
  using RoundUp_least_multiple [of 65536 150000000] by simp

lemma alloc_granularity_eq: "alloc_granularity os = ucast (allocation_granularity os)"
  by (simp add: alloc_granularity_def LARGE_PAGES_ENABLED_def)

lemma alloc_granularity_unat: "unat (alloc_granularity os) = unat (allocation_granularity os)"
  using unat_below [of "allocation_granularity os"]
  by (simp add: alloc_granularity_eq unat_ucast_less)

text \<open>Whatever was asked for, enough buffers counted means enough bytes.\<close>

lemma buffer_sizes_sound:
  assumes "buffer_sizes g msg tot = (sz, n)" and "n = tot"
    and "msg \<noteq> 0" and "g \<noteq> 0" and "unat g < 2 ^ 32"
  shows "unat msg * unat tot \<le> unat sz" and "unat g dvd unat sz"
proof -
  define actual0 where "actual0 = RoundUp (ucast (msg * tot)) g"
  define actual where
    "actual = (if actual0 > 0xFFFFFFFF then (0xFFFFFFFF div g) * g else actual0)"
  have s: "sz = ucast actual" "n = min tot (ucast (actual div ucast msg))"
    using assms(1) by (auto simp: buffer_sizes_def Let_def actual_def actual0_def)
  have v: "unat (ucast (msg * tot) :: u64) < 2 ^ 32"
    using unat_below [of "msg * tot"] by (simp add: unat_ucast_less)
  have "unat (RoundDown 0xFFFFFFFF g) \<le> unat (0xFFFFFFFF :: u64)"
    unfolding RoundDown_unat by (rule div_times_less_eq_dividend)
  then have max: "unat (RoundDown 0xFFFFFFFF g) < 2 ^ 32" by simp
  have a: "unat actual < 2 ^ 32"
    using max by (auto simp: actual_def RoundDown_def word_less_nat_alt)
  have dvd: "unat g dvd unat actual"
    using RoundUp_least_multiple [OF assms(4), of "ucast (msg * tot)"] v assms(5)
      RoundDown_unat [of "0xFFFFFFFF" g]
    by (auto simp: actual_def actual0_def RoundDown_def)
  have sz: "unat sz = unat actual" using a by (simp add: s unat_ucast_less)
  with dvd show "unat g dvd unat sz" by simp
  have "unat (actual div ucast msg) = unat actual div unat msg"
    using unat_below [of msg] by (simp add: unat_div_mod unat_ucast_less)
  moreover have "unat actual div unat msg < 2 ^ 32"
    using a div_le_dividend [of "unat actual" "unat msg"] by (rule le_less_trans [rotated])
  ultimately have "unat (ucast (actual div ucast msg) :: u32) = unat actual div unat msg"
    by (simp add: unat_ucast_less)
  moreover have "tot \<le> ucast (actual div ucast msg)"
    using s(2) assms(2) by (metis min.cobounded2)
  ultimately have "unat tot \<le> unat actual div unat msg"
    by (simp add: word_le_nat_alt)
  then have "unat tot * unat msg \<le> unat actual"
    by (metis div_times_less_eq_dividend le_trans mult_le_mono1)
  with sz show "unat msg * unat tot \<le> unat sz" by (simp add: mult.commute)
qed

lemma alloc_effect:
  assumes "AllocateAndRegisterBuffer os msg tot s = Inr (p, i, s')"
  shows "\<exists>sz. buffer_sizes (alloc_granularity os) msg tot = (sz, tot)
    \<and> s' = s\<lparr>calls := calls s @ [VirtualAlloc sz, RIORegisterBuffer p sz]\<rparr>
    \<and> p = sys os (calls s) (VirtualAlloc sz)
    \<and> i = sys os (calls s @ [VirtualAlloc sz]) (RIORegisterBuffer p sz)
    \<and> p \<noteq> 0 \<and> i \<noteq> RIO_INVALID_BUFFERID \<and> msg \<noteq> 0 \<and> alloc_granularity os \<noteq> 0"
  using assms
  by (auto simp: AllocateAndRegisterBuffer_def AllocateBufferSpace_def do_call_def bind_res_eq_Inr
      Let_def split: prod.splits if_splits)

text \<open>
  C13: A registered buffer is never too small. Whenever \<open>AllocateAndRegisterBuffer\<close> returns,
  the memory it allocated and registered, in this order and with the same size, holds all
  the messages asked for, and its size is a multiple of the allocation granularity. The
  32-bit product inside can wrap, but then the count of buffers is too low and the program
  ends with an error instead of returning.
\<close>

theorem registered_buffer_holds_messages:
  assumes "AllocateAndRegisterBuffer os msg tot s = Inr (p, i, s')"
  shows "\<exists>sz. calls s' = calls s @ [VirtualAlloc sz, RIORegisterBuffer p sz]
    \<and> unat msg * unat tot \<le> unat sz
    \<and> unat (allocation_granularity os) dvd unat sz \<and> p \<noteq> 0"
proof -
  from alloc_effect [OF assms] obtain sz
    where b: "buffer_sizes (alloc_granularity os) msg tot = (sz, tot)"
      and s': "s' = s\<lparr>calls := calls s @ [VirtualAlloc sz, RIORegisterBuffer p sz]\<rparr>"
      and nz: "p \<noteq> 0" "msg \<noteq> 0" "alloc_granularity os \<noteq> 0"
    by blast
  have "unat (alloc_granularity os) < 2 ^ 32"
    using unat_below [of "allocation_granularity os"] by (simp add: alloc_granularity_unat)
  note sound = buffer_sizes_sound [OF b refl nz(2,3) this]
  show ?thesis
    using sound nz(1) by (auto simp: s' alloc_granularity_unat)
qed

text \<open>What each operation does to the state when it returns.\<close>

named_theorems effects "the state an operation returns"

lemma RioSession_new_effect [effects]:
  assumes "RioSession_new os args = Inr s"
  shows "\<exists>h io. s = (RioSession_uninit args)\<lparr>m_SocketHandle := h, m_hIOCP := io,
      m_GroupStats := InitGroupStats (map ipNetOrder (McastAddrStr args)) [],
      calls := [WSASocket WSA_FLAG_REGISTERED_IO, CreateIoCompletionPort]\<rparr>
    \<and> h = sys os [] (WSASocket WSA_FLAG_REGISTERED_IO) \<and> h \<noteq> INVALID_SOCKET
    \<and> io = sys os [WSASocket WSA_FLAG_REGISTERED_IO] CreateIoCompletionPort"
  using assms
  by (auto simp: RioSession_new_def CreateSocket_def do_call_def bind_res_eq_Inr Let_def
      RioSession_uninit_def split: if_splits)

lemma BindSocket_effect [effects]:
  assumes "BindSocket os p a s = Inr s'"
  shows "\<exists>ip. s' = s\<lparr>calls := calls s @ [Bind (m_SocketHandle s) ip (net_htons os p)]\<rparr>
    \<and> (if a = [] then ip = 0 else inet_pton4 (net os) a = Some ip)"
  using assms
  by (auto simp: BindSocket_def do_call_def bind_res_eq_Inr Let_def split: if_splits option.splits)

lemma InitializeRIO_effect [effects]:
  "InitializeRIO os s = Inr s' \<Longrightarrow> s' = s\<lparr>calls := calls s @ [WSAIoctl (m_SocketHandle s)]\<rparr>"
  by (auto simp: InitializeRIO_def do_call_def split: if_splits)

lemma CreateRequestQueue_effect [effects]:
  assumes "CreateRequestQueue os s = Inr s'"
  shows "let c = RIOCreateRequestQueue (m_SocketHandle s) (m_MaxOutstandingReceive s)
      (m_MaxReceiveDataBuffers s) (m_MaxOutstandingSend s) (m_MaxSendDataBuffers s)
      (m_CompletionQueue s) (m_CompletionQueue s)
    in s' = s\<lparr>m_RequestQueue := sys os (calls s) c, calls := calls s @ [c]\<rparr>
       \<and> sys os (calls s) c \<noteq> RIO_INVALID_RQ"
  using assms by (auto simp: CreateRequestQueue_def do_call_def Let_def split: if_splits)

lemma CreateCompletionQueue_effect [effects]:
  assumes "CreateCompletionQueue os n s = Inr s'"
  shows "let c = RIOCreateCompletionQueue n (m_hIOCP s)
    in s' = s\<lparr>m_CompletionQueue := sys os (calls s) c, calls := calls s @ [c]\<rparr>
       \<and> sys os (calls s) c \<noteq> RIO_INVALID_CQ"
  using assms by (auto simp: CreateCompletionQueue_def do_call_def Let_def split: if_splits)

lemma NotifyCompletionQueue_effect [effects]:
  "NotifyCompletionQueue os s = Inr s' \<Longrightarrow>
     s' = s\<lparr>calls := calls s @ [RIONotify (m_CompletionQueue s)]\<rparr>"
  by (auto simp: NotifyCompletionQueue_def do_call_def split: if_splits)

lemma CleanUpRIO_effect [effects]:
  "CleanUpRIO os s = Inr s' \<Longrightarrow>
     s' = s\<lparr>calls := calls s @ [CloseSocketCall (m_SocketHandle s),
       RIOCloseCompletionQueue (m_CompletionQueue s),
       RIODeregisterBuffer (m_RioBuffId s), VirtualFree (m_RioBuffPtr s),
       RIODeregisterBuffer (m_McAddrBuffId s), VirtualFree (m_McAddrBuffPtr s)]\<rparr>"
  by (auto simp: CleanUpRIO_def CloseSocket_def ReleaseAndDeregisterBuffer_def do_call_def
      bind_res_eq_Inr Let_def split: if_splits)

lemma ShouldStop_state: "snd (ShouldStop sig now s) = s\<lparr>m_Timing := setStop now (m_Timing s)\<rparr>"
  by (simp add: ShouldStop_def Let_def)

section \<open>Resources\<close>

text \<open>
  The resources a trace holds: what its calls acquired, by the values they returned, less
  what its calls released. A request queue lives as long as its socket.
\<close>

datatype resource = Socket u64 | Port u64 | Queue u64 | Memory u64 | Registration u64

fun resource_effect :: "syscall \<Rightarrow> u64 \<Rightarrow> resource multiset \<Rightarrow> resource multiset" where
  "resource_effect (WSASocket _) r M = add_mset (Socket r) M"
| "resource_effect CreateIoCompletionPort r M = add_mset (Port r) M"
| "resource_effect (RIOCreateCompletionQueue _ _) r M = add_mset (Queue r) M"
| "resource_effect (VirtualAlloc _) r M = add_mset (Memory r) M"
| "resource_effect (RIORegisterBuffer _ _) r M = add_mset (Registration r) M"
| "resource_effect (CloseSocketCall h) _ M = M - {#Socket h#}"
| "resource_effect (RIOCloseCompletionQueue q) _ M = M - {#Queue q#}"
| "resource_effect (RIODeregisterBuffer i) _ M = M - {#Registration i#}"
| "resource_effect (VirtualFree p) _ M = M - {#Memory p#}"
| "resource_effect _ _ M = M"

fun held_from :: "os_env \<Rightarrow> syscall list \<Rightarrow> syscall list \<Rightarrow> resource multiset \<Rightarrow> resource multiset" where
  "held_from os before_calls [] M = M"
| "held_from os before_calls (c # cs) M =
     held_from os (before_calls @ [c]) cs (resource_effect c (sys os before_calls c) M)"

definition held :: "os_env \<Rightarrow> syscall list \<Rightarrow> resource multiset" where
  "held os tr = held_from os [] tr {#}"

lemma held_from_append:
  "held_from os b (cs @ ds) M = held_from os (b @ cs) ds (held_from os b cs M)"
  by (induction cs arbitrary: b M) simp_all

lemma held_append: "held os (cs @ ds) = held_from os cs ds (held os cs)"
  by (simp add: held_def held_from_append)

definition neutral_call :: "syscall \<Rightarrow> bool" where
  "neutral_call c \<longleftrightarrow> (\<forall>r M. resource_effect c r M = M)"

lemma neutral_calls [simp]:
  "neutral_call (Bind h a p)" "neutral_call (SetReuseAddr h)" "neutral_call (AddMembership h g i)"
  "neutral_call (WSAIoctl h)" "neutral_call (RIOCreateRequestQueue h a b c d e f)"
  "neutral_call (RIOReceiveEx q u v x)" "neutral_call (RIOSendEx q u v x)"
  "neutral_call (RIONotify q)" "neutral_call (SetMulticastIf h i)"
  by (simp_all add: neutral_call_def)

lemma held_from_neutral: "list_all neutral_call cs \<Longrightarrow> held_from os b cs M = M"
  by (induction cs arbitrary: b M) (simp_all add: neutral_call_def)

text \<open>
  What a constructed session owns, and the operations that neither acquire nor release
  anything and leave the handles alone. \<open>CleanUpRIO\<close> gives all of it back but the port.
\<close>

definition owns :: "os_env \<Rightarrow> u64 \<Rightarrow> RioSession \<Rightarrow> bool" where
  "owns os io s \<longleftrightarrow> held os (calls s) = {#Socket (m_SocketHandle s), Port io,
     Queue (m_CompletionQueue s), Memory (m_RioBuffPtr s), Registration (m_RioBuffId s),
     Memory (m_McAddrBuffPtr s), Registration (m_McAddrBuffId s)#}"

definition session_keeps :: "RioSession \<Rightarrow> RioSession \<Rightarrow> bool" where
  "session_keeps s s' \<longleftrightarrow> (\<exists>cs. calls s' = calls s @ cs \<and> list_all neutral_call cs)
     \<and> m_SocketHandle s' = m_SocketHandle s \<and> m_CompletionQueue s' = m_CompletionQueue s
     \<and> m_RioBuffPtr s' = m_RioBuffPtr s \<and> m_RioBuffId s' = m_RioBuffId s
     \<and> m_McAddrBuffPtr s' = m_McAddrBuffPtr s \<and> m_McAddrBuffId s' = m_McAddrBuffId s"

lemma session_keeps_refl [simp]: "session_keeps s s"
  by (simp add: session_keeps_def)

lemma session_keeps_trans: "session_keeps s s' \<Longrightarrow> session_keeps s' s'' \<Longrightarrow> session_keeps s s''"
  unfolding session_keeps_def by (auto simp: list_all_append)

lemma owns_keeps: "owns os io s \<Longrightarrow> session_keeps s s' \<Longrightarrow> owns os io s'"
  by (auto simp: owns_def session_keeps_def held_append held_from_neutral)

lemma owns_cleanup:
  "owns os io s \<Longrightarrow> CleanUpRIO os s = Inr s' \<Longrightarrow> held os (calls s') = {#Port io#}"
  by (drule CleanUpRIO_effect) (simp add: owns_def held_append)

text \<open>When the request fits below 4 GB, the size computation succeeds.\<close>

lemma buffer_sizes_fit:
  assumes "msg \<noteq> 0" and "g \<noteq> 0" and fit: "unat msg * unat tot + unat g \<le> 2 ^ 32"
  shows "\<exists>sz. buffer_sizes g msg tot = (sz, tot)"
proof -
  have g: "0 < unat g" "unat g \<le> 2 ^ 32" using assms by (simp_all add: unat_gt_0)
  have "unat (msg * tot) = unat msg * unat tot"
    by (rule unat_mult_less) (use fit g in simp)
  then have v: "unat (ucast (msg * tot) :: u64) = unat msg * unat tot"
    using fit g by (subst unat_ucast_less) simp_all
  define actual where "actual = RoundUp (ucast (msg * tot)) g"
  have r: "unat msg * unat tot \<le> unat actual" "unat actual < unat msg * unat tot + unat g"
    using RoundUp_least_multiple [OF assms(2), of "ucast (msg * tot)"] v fit
    by (simp_all add: actual_def)
  then have a: "unat actual < 2 ^ 32" using fit by simp
  then have "\<not> actual > 0xFFFFFFFF" by (simp add: word_less_nat_alt)
  moreover have "unat (actual div ucast msg) = unat actual div unat msg"
    using unat_below [of msg] by (simp add: unat_div_mod unat_ucast_less)
  moreover have lt: "unat actual div unat msg < 2 ^ 32"
    using a div_le_dividend [of "unat actual" "unat msg"] by (rule le_less_trans [rotated])
  ultimately have c: "unat (ucast (actual div ucast msg) :: u32) = unat actual div unat msg"
    by (simp add: unat_ucast_less)
  have "unat tot \<le> unat actual div unat msg"
    using r(1) assms(1) by (simp add: less_eq_div_iff_mult_less_eq unat_gt_0 mult.commute)
  with c have "min tot (ucast (actual div ucast msg)) = tot"
    by (simp add: min_def word_le_nat_alt)
  with \<open>\<not> actual > 0xFFFFFFFF\<close> show ?thesis
    by (simp add: buffer_sizes_def Let_def actual_def)
qed

section \<open>Systems on which every call succeeds\<close>

text \<open>The documented result with which each call reports that it succeeded.\<close>

fun succeeded :: "syscall \<Rightarrow> u64 \<Rightarrow> bool" where
  "succeeded (WSASocket _) r \<longleftrightarrow> r \<noteq> INVALID_SOCKET"
| "succeeded (WSAIoctl _) r \<longleftrightarrow> r = 0"
| "succeeded (Bind _ _ _) r \<longleftrightarrow> r \<noteq> SOCKET_ERROR"
| "succeeded (RIOCreateRequestQueue _ _ _ _ _ _ _) r \<longleftrightarrow> r \<noteq> RIO_INVALID_RQ"
| "succeeded (VirtualAlloc _) r \<longleftrightarrow> r \<noteq> 0"
| "succeeded (RIORegisterBuffer _ _) r \<longleftrightarrow> r \<noteq> RIO_INVALID_BUFFERID"
| "succeeded (RIOCreateCompletionQueue _ _) r \<longleftrightarrow> r \<noteq> RIO_INVALID_CQ"
| "succeeded (RIONotify _) r \<longleftrightarrow> r = 0"
| "succeeded (CloseSocketCall _) r \<longleftrightarrow> r \<noteq> SOCKET_ERROR"
| "succeeded (VirtualFree _) r \<longleftrightarrow> r \<noteq> 0"
| "succeeded (AddMembership _ _ _) r \<longleftrightarrow> \<not> sint r < 0"
| "succeeded (SetMulticastIf _ _) r \<longleftrightarrow> r = 0"
| "succeeded (RIOReceiveEx _ _ _ _) r \<longleftrightarrow> r \<noteq> 0"
| "succeeded (RIOSendEx _ _ _ _) r \<longleftrightarrow> r \<noteq> 0"
| "succeeded _ r \<longleftrightarrow> True"

locale os_up =
  fixes os :: os_env
  assumes call_succeeds: "succeeded c (sys os tr c)"
begin

lemma notify_up:
  "NotifyCompletionQueue os s = Inr (s\<lparr>calls := calls s @ [RIONotify (m_CompletionQueue s)]\<rparr>)"
  using call_succeeds [of "RIONotify (m_CompletionQueue s)"]
  by (simp add: NotifyCompletionQueue_def do_call_def)

lemma cleanup_up: "\<exists>s'. CleanUpRIO os s = Inr s'"
proof -
  have "\<not> SOCKET_ERROR = sys os tr (CloseSocketCall h)" for tr h
    using call_succeeds [of "CloseSocketCall h" tr] by auto
  moreover have "\<not> 0 = sys os tr (VirtualFree p)" for tr p
    using call_succeeds [of "VirtualFree p" tr] by auto
  ultimately show ?thesis
    by (simp add: CleanUpRIO_def CloseSocket_def ReleaseAndDeregisterBuffer_def do_call_def Let_def)
qed

lemma buffer_up:
  assumes "msg \<noteq> 0" and "allocation_granularity os \<noteq> 0"
    and "unat msg * unat tot + unat (allocation_granularity os) \<le> 2 ^ 32"
  shows "\<exists>p i s'. AllocateAndRegisterBuffer os msg tot s = Inr (p, i, s')"
proof -
  have g: "alloc_granularity os \<noteq> 0"
    using assms(2) alloc_granularity_unat [of os] by (metis unat_0 unat_eq_zero)
  obtain sz where b: "buffer_sizes (alloc_granularity os) msg tot = (sz, tot)"
    using buffer_sizes_fit [OF assms(1) g] assms(3) by (auto simp: alloc_granularity_unat)
  show ?thesis
    using call_succeeds [of "VirtualAlloc sz" "calls s"]
      call_succeeds [of "RIORegisterBuffer p sz" "tr" for p tr] assms(1) g
    by (simp add: AllocateAndRegisterBuffer_def AllocateBufferSpace_def b do_call_def Let_def)
qed

end

section \<open>A reference system\<close>

text \<open>
  A system in which every call succeeds and handles are numbered by the calls made so far;
  the witnesses run the program on it.
\<close>

definition ref_sys :: "syscall list \<Rightarrow> syscall \<Rightarrow> u64" where
  "ref_sys trace c =
     (if succeeded c 0 then 0 else of_nat (length trace mod 1000000 + 1))"

definition ref_os :: os_env where
  "ref_os = \<lparr>sys = ref_sys, allocation_granularity = 65536, large_page_minimum = 0,
     net = ref_winsock, net_htons = (\<lambda>p. push_bit 8 p OR drop_bit 8 p),
     net_inet_addr = (\<lambda>v. case inet_pton4 ref_winsock v of None \<Rightarrow> 0xFFFFFFFF | Some a \<Rightarrow> a)\<rparr>"

lemma ref_os_sel [simp]:
  "sys ref_os = ref_sys" "allocation_granularity ref_os = 65536" "net ref_os = ref_winsock"
  by (simp_all add: ref_os_def)

interpretation refos: os_up ref_os
proof
  fix tr :: "syscall list" and c :: syscall
  have "unat (of_nat (length tr mod 1000000 + 1) :: u64) = length tr mod 1000000 + 1"
    by (rule unat_of_nat_less) simp
  moreover have "length tr mod 1000000 < 1000000" by simp
  moreover have "unat (0xFFFFFFFFFFFFFFFF :: u64) = 2 ^ 64 - 1" by simp
  moreover have "(- 1 :: u64) = 0xFFFFFFFFFFFFFFFF" by simp
  ultimately show "succeeded c (sys ref_os tr c)"
    by (cases c) (auto simp: ref_sys_def word_eq_unat INVALID_SOCKET_def SOCKET_ERROR_def
        RIO_INVALID_RQ_def RIO_INVALID_CQ_def RIO_INVALID_BUFFERID_def)
qed

definition ref_args :: args_t where
  "ref_args = \<lparr>Command = ''consumer'', McastAddrStr = [Ipv4Addr (bswap32 0xEF054502)],
     McastPort = 10000, IfIndex = ''10.0.0.4'', PktsToCount = 0, PacketRate = 1,
     SecondsToRun = 0\<rparr>"

lemma ref_args_addr: "inet_pton4 (net ref_os) (IfIndex ref_args) = Some (bswap32 0x0A000004)"
proof -
  have "dotted 0x0A000004 = ''10.0.0.4''"
    by (simp add: dotted_def octet_def dec_eval)
  then show ?thesis
    using refws.pton_dotted [of "0x0A000004"] refws.htonl_bswap [of "0x0A000004"]
    by (simp add: ref_args_def)
qed

theorem registered_buffer_holds_messages_witness:
  "\<exists>p i s' sz. AllocateAndRegisterBuffer ref_os 100 1500000 (RioSession_uninit ref_args) = Inr (p, i, s')
    \<and> calls s' = [VirtualAlloc sz, RIORegisterBuffer p sz] \<and> 150000000 \<le> unat sz"
proof -
  have b: "buffer_sizes 65536 100 1500000 = (150011904, 1500000)"
    by (simp add: buffer_sizes_def RoundUp_def RoundDown_def)
  have "\<exists>p i s'. AllocateAndRegisterBuffer ref_os 100 1500000 (RioSession_uninit ref_args) = Inr (p, i, s')"
    by (simp add: AllocateAndRegisterBuffer_def AllocateBufferSpace_def alloc_granularity_eq b
        do_call_def ref_sys_def RioSession_uninit_def RIO_INVALID_BUFFERID_def)
  then obtain p i s' where r:
    "AllocateAndRegisterBuffer ref_os 100 1500000 (RioSession_uninit ref_args) = Inr (p, i, s')"
    by blast
  from registered_buffer_holds_messages [OF r] r show ?thesis
    by (auto simp: RioSession_uninit_def)
qed

section \<open>The loop condition\<close>

lemma elapsed_uint:
  assumes "startTime t \<le> stopTime t" and "stopTime t - startTime t < 2 ^ 63"
  shows "uint (getElapsedTimeSec t) = (stopTime t - startTime t) div 1000000000"
proof -
  let ?d = "stopTime t - startTime t"
  have d: "0 \<le> ?d div 1000000000" "?d div 1000000000 < 2 ^ 64"
    using assms by auto
  have "trunc_div ?d 1000000000 = ?d div 1000000000"
    using assms(1) by (cases "?d = 0") (auto simp: trunc_div_def sgn_if)
  with d show ?thesis
    by (simp add: getElapsedTimeSec_def uint_word_of_int)
qed

lemma uint_of_secs:
  assumes "- (2 ^ 31) \<le> v" and "v < 2 ^ 31"
  shows "uint (word_of_int v :: u64) = (if v < 0 then v + 2 ^ 64 else v)"
proof (cases "v < 0")
  case True
  then have "v mod 2 ^ 64 = (v + 2 ^ 64) mod 2 ^ 64" by simp
  also have "\<dots> = v + 2 ^ 64" using True assms by (intro mod_pos_pos_trivial) auto
  finally show ?thesis using True by (simp add: uint_word_of_int)
next
  case False
  then show ?thesis using assms by (simp add: uint_word_of_int)
qed

lemma elapsed_compare:
  fixes d s :: int
  shows "d div 1000000000 < s \<longleftrightarrow> d < s * 1000000000"
    and "d < 2 ^ 63 \<Longrightarrow> - (2 ^ 31) \<le> s \<Longrightarrow> d div 1000000000 < s + 2 ^ 64"
proof -
  have d: "d = d div 1000000000 * 1000000000 + d mod 1000000000"
    "0 \<le> d mod 1000000000" "d mod 1000000000 < 1000000000" by simp_all
  show "d div 1000000000 < s \<longleftrightarrow> d < s * 1000000000"
    using d by linarith
  show "d < 2 ^ 63 \<Longrightarrow> - (2 ^ 31) \<le> s \<Longrightarrow> d div 1000000000 < s + 2 ^ 64"
    by simp
qed

lemma should_go_iff:
  assumes "startTime (m_Timing s) \<le> now" and "now - startTime (m_Timing s) < 2 ^ 63"
    and "- (2 ^ 31) \<le> SecondsToRun (m_Args s)" and "SecondsToRun (m_Args s) < 2 ^ 31"
  shows "fst (ShouldStop exitSignal now s) \<longleftrightarrow>
    exitSignal = 0
    \<and> (PktsToCount (m_Args s) = 0 \<or> unat (m_TotalPkts s) < unat (PktsToCount (m_Args s)))
    \<and> (SecondsToRun (m_Args s) \<le> 0
       \<or> now - startTime (m_Timing s) < SecondsToRun (m_Args s) * 1000000000)"
proof -
  let ?secs = "SecondsToRun (m_Args s)" and ?d = "now - startTime (m_Timing s)"
  have e: "uint (getElapsedTimeSec (setStop now (m_Timing s))) = ?d div 1000000000"
    using assms(1,2) by (simp add: elapsed_uint setStop_def)
  have time: "getElapsedTimeSec (setStop now (m_Timing s)) < word_of_int ?secs \<longleftrightarrow>
      ?secs < 0 \<or> ?d < ?secs * 1000000000" if "?secs \<noteq> 0"
  proof -
    have "getElapsedTimeSec (setStop now (m_Timing s)) < word_of_int ?secs \<longleftrightarrow>
        ?d div 1000000000 < (if ?secs < 0 then ?secs + 2 ^ 64 else ?secs)"
      by (simp only: word_less_def e uint_of_secs [OF assms(3,4)])
    also have "\<dots> \<longleftrightarrow> ?secs < 0 \<or> ?d < ?secs * 1000000000"
      using elapsed_compare [of ?d ?secs] assms(2,3) by (cases "?secs < 0") simp_all
    finally show ?thesis .
  qed
  have pkts: "ucast (m_TotalPkts s) < PktsToCount (m_Args s) \<longleftrightarrow>
      unat (m_TotalPkts s) < unat (PktsToCount (m_Args s))"
    using unat_below [of "m_TotalPkts s"] by (simp add: word_less_nat_alt unat_ucast_less)
  show ?thesis
    using time by (auto simp: ShouldStop_def Let_def pkts)
qed

text \<open>
  The main loops go on exactly while no exit was signalled, the packet limit (if it is
  not 0) is not reached, and the run time is below the limit of seconds; a limit of 0
  means no limit, and so does, by the conversion to unsigned, a negative number of seconds.
\<close>

theorem ShouldStop_condition:
  assumes "startTime (m_Timing s) \<le> now" and "now - startTime (m_Timing s) < 2 ^ 63"
    and "- (2 ^ 31) \<le> SecondsToRun (m_Args s)" and "SecondsToRun (m_Args s) < 2 ^ 31"
  shows "fst (ShouldStop exitSignal now s) \<longleftrightarrow>
    exitSignal = 0
    \<and> (PktsToCount (m_Args s) = 0 \<or> unat (m_TotalPkts s) < unat (PktsToCount (m_Args s)))
    \<and> (SecondsToRun (m_Args s) \<le> 0
       \<or> now - startTime (m_Timing s) < SecondsToRun (m_Args s) * 1000000000)"
  by (rule should_go_iff [OF assms])

theorem ShouldStop_condition_witness:
  "\<not> fst (ShouldStop 0 5000000000 (RioSession_uninit (ref_args\<lparr>SecondsToRun := 5\<rparr>)))"
  using ShouldStop_condition [of "RioSession_uninit (ref_args\<lparr>SecondsToRun := 5\<rparr>)" 5000000000 0]
  by (simp add: RioSession_uninit_def)

end
