(* ===== verification/Worker_Threads.thy ===== *)
theory Worker_Threads
  imports Rio_Session
begin

text \<open>
  The helper threads: both classes start one (\<open>ReportWorker\<close>, \<open>SpinWorker\<close>) that runs a loop
  under \<open>ShouldStop\<close>, and join it when their own loop has ended. A thread is given by what it
  reads at the start of each pass, the exit signal and the clock; the packets counter stands
  still once the main loop has ended. The bodies are in \<open>Report_Worker\<close> and \<open>Pause_Tuning\<close>.
\<close>

section \<open>The loop of a helper thread, and joining it\<close>

record helper_thread =
  joinable :: bool
  passes :: "(int \<times> int) list"

text \<open>The flag tells whether the loop ended within the passes given.\<close>

fun worker_loop :: "(int \<times> int) list \<Rightarrow> RioSession \<Rightarrow> bool \<times> RioSession" where
  "worker_loop [] s = (False, s)"
| "worker_loop ((exitSignal, now) # ps) s =
     (let (go, s) = ShouldStop exitSignal now s
      in if go then worker_loop ps s else (True, s))"

text \<open>
  \<open>JoinThread\<close> on a pointer to a thread: waiting for a thread that does not end does not
  return; afterwards the pointer is null.
\<close>

definition JoinThread ::
    "helper_thread option \<Rightarrow> RioSession \<Rightarrow> (helper_thread option \<times> RioSession) result" where
  "JoinThread t s =
     (case t of
        None \<Rightarrow> Inr (t, s)
      | Some th \<Rightarrow>
          if joinable th then
            (let (ended, s) = worker_loop (passes th) s
             in if ended then Inr (None, s) else Inl NoReturn)
          else Inr (None, s))"

text \<open>
  \<open>Start\<close> creates the thread; the list holds its passes from the end of the main loop on. A
  thread whose loop ended before the main loop did (joining it returns at once and leaves the
  timing alone) has no such list and is not represented.
\<close>

definition make_thread :: "(int \<times> int) list \<Rightarrow> helper_thread option" where
  "make_thread readings = Some \<lparr>joinable = True, passes = readings\<rparr>"

lemma worker_loop_timing: "\<exists>t. snd (worker_loop ps s) = s\<lparr>m_Timing := t\<rparr>"
proof (induction ps s rule: worker_loop.induct)
  case (1 s)
  show ?case by (rule exI [of _ "m_Timing s"]) simp
next
  case (2 sig now ps s)
  have "snd (ShouldStop sig now s) = s\<lparr>m_Timing := setStop now (m_Timing s)\<rparr>" by (rule ShouldStop_state)
  with 2 show ?case by (cases "ShouldStop sig now s") (auto split: prod.splits)
qed

lemma JoinThread_effect: "JoinThread t s = Inr (t', s') \<Longrightarrow> t' = None \<and> (\<exists>tm. s' = s\<lparr>m_Timing := tm\<rparr>)"
  using worker_loop_timing [of "passes (the t)" s]
  by (cases t) (auto simp: JoinThread_def split: if_splits prod.splits intro: exI [of _ "m_Timing s"])

lemma join_on_signal:
  assumes "(sig, now) \<in> set ps" and "sig \<noteq> 0"
  shows "\<exists>s'. JoinThread (make_thread ps) s = Inr (None, s')"
proof -
  have "fst (worker_loop ps s)" using assms
  proof (induction ps s rule: worker_loop.induct)
    case (2 sig' now' ps s)
    then show ?case by (cases "ShouldStop sig' now' s") (auto simp: ShouldStop_def Let_def)
  qed simp
  then show ?thesis by (cases "worker_loop ps s") (simp add: JoinThread_def make_thread_def)
qed

section \<open>Joining returns\<close>

text \<open>Once a loop was told to end, it stays told, as long as time and signal only go on.\<close>

lemma stop_is_permanent:
  assumes "\<not> fst (ShouldStop sig now s)" and "sig \<noteq> 0 \<longrightarrow> sig' \<noteq> 0" and "now \<le> now'"
    and "startTime (m_Timing s) \<le> now" and "now' - startTime (m_Timing s) < 2 ^ 63"
    and "- (2 ^ 31) \<le> SecondsToRun (m_Args s)" and "SecondsToRun (m_Args s) < 2 ^ 31"
  shows "\<not> fst (ShouldStop sig' now' (snd (ShouldStop sig now s)))"
proof -
  let ?s = "snd (ShouldStop sig now s)"
  have s: "?s = s\<lparr>m_Timing := setStop now (m_Timing s)\<rparr>" by (rule ShouldStop_state)
  have start: "startTime (m_Timing ?s) = startTime (m_Timing s)" by (simp add: s setStop_def)
  have "fst (ShouldStop sig' now' ?s) \<Longrightarrow> fst (ShouldStop sig now s)"
    using should_go_iff [of ?s now' sig'] should_go_iff [of s now sig] assms(2-7)
    by (auto simp: s setStop_def)
  with assms(1) show ?thesis by blast
qed

text \<open>
  Joining the helper thread returns. When the main loop has ended, for whichever of the
  three reasons, the next pass of the helper's loop ends too, because the same condition tells
  it to: the signal stays set, the packets are counted, and the time only grows. So
  \<open>JoinThread\<close> does not hang, and it leaves a null pointer.
\<close>

theorem join_returns:
  assumes "\<not> fst (ShouldStop sig now s)"
    and "passes th = (sig', now') # ps" and "sig \<noteq> 0 \<longrightarrow> sig' \<noteq> 0" and "now \<le> now'"
    and "startTime (m_Timing s) \<le> now" and "now' - startTime (m_Timing s) < 2 ^ 63"
    and "- (2 ^ 31) \<le> SecondsToRun (m_Args s)" and "SecondsToRun (m_Args s) < 2 ^ 31"
  shows "\<exists>s'. JoinThread (Some th) (snd (ShouldStop sig now s)) = Inr (None, s')"
  using stop_is_permanent [OF assms(1,3-8)] assms(2)
  by (cases "ShouldStop sig' now' (snd (ShouldStop sig now s))") (auto simp: JoinThread_def)

theorem join_returns_witness:
  "\<exists>s'. JoinThread (Some \<lparr>joinable = True, passes = [(0, 5100000000)]\<rparr>)
     (snd (ShouldStop 0 5000000000 (RioSession_uninit (ref_args\<lparr>SecondsToRun := 5\<rparr>)))) = Inr (None, s')"
proof -
  let ?s = "RioSession_uninit (ref_args\<lparr>SecondsToRun := 5\<rparr>)"
  have "\<not> fst (ShouldStop 0 5000000000 ?s)"
    using should_go_iff [of ?s 5000000000 0] by (simp add: RioSession_uninit_def)
  then show ?thesis
    by (rule join_returns [where sig' = 0 and now' = 5100000000 and ps = "[]"])
       (simp_all add: RioSession_uninit_def)
qed

end
