(* ===== verification/Timing_Race.thy ===== *)
theory Timing_Race
  imports Worker_Threads
begin

text \<open>
  Both threads of a session run \<open>ShouldStop\<close>, which stores \<open>m_Timing.stopTime\<close> and then loads
  both time points, and the consumer's main loop stores \<open>startTime\<close> again before it counts the
  first packets. Nothing orders these accesses. C++ calls that a data race; here they are
  what the machine makes of them: single 64-bit loads and stores in the order of the program,
  interleaved in any way. The compiler may use the value just stored in place of the load of
  \<open>stopTime\<close>. The clock of the model only grows; \<open>delay\<close> bounds how long a thread may be held
  up between reading the clock in \<open>setStop\<close> and the end of that call of \<open>ShouldStop\<close>.
\<close>

section \<open>Where a thread is\<close>

datatype thread_id = MainLoop | Helper

text \<open>
  In \<open>ShouldStop\<close>, the flag is the conjunction of the conditions read so far; \<open>Loads\<close> holds the
  flag, the clock reading, and the loaded \<open>startTime\<close> and \<open>stopTime\<close>. \<open>GotStart\<close> is the clock
  reading of \<open>setStart\<close> with the number of results of the batch, \<open>Counting\<close> the results (or
  first sends) not yet counted, \<open>Left\<close> the end of the loop.
\<close>

datatype pc =
    AtTop
  | AfterSignal bool
  | AfterPkts bool
  | GotNow bool int
  | Loads bool int "int option" "int option"
  | InBody
  | GotStart int nat
  | Counting nat
  | Left

record timing_race =
  clock :: int
  exit_signal :: int
  timing :: Timing_s
  total_pkts :: u32
  pcs :: "thread_id \<Rightarrow> pc"

definition goto :: "thread_id \<Rightarrow> pc \<Rightarrow> timing_race \<Rightarrow> timing_race" where
  "goto t p s = s\<lparr>pcs := (pcs s)(t := p)\<rparr>"

text \<open>The start of the threads, after \<open>setStart\<close>; the producer first counts its first sends.\<close>

definition timing_init :: "bool \<Rightarrow> nat \<Rightarrow> int \<Rightarrow> int \<Rightarrow> timing_race" where
  "timing_init consumer firstSends t0 now =
     \<lparr>clock = now, exit_signal = 0, timing = \<lparr>startTime = t0, stopTime = 0\<rparr>, total_pkts = 0,
      pcs = (\<lambda>t. if t = MainLoop \<and> \<not> consumer then Counting firstSends else AtTop)\<rparr>"

section \<open>The accesses\<close>

datatype move =
    Tick int
  | Signal
  | LoadSignal thread_id
  | LoadPkts thread_id
  | ReadClock thread_id
  | StoreStop thread_id
  | LoadStop thread_id
  | KeepStop thread_id
  | LoadStart thread_id
  | Return thread_id bool
  | BodyDone thread_id
  | ReadStart nat
  | StoreStart
  | Batch nat
  | CountPkt
  | BatchDone

fun in_time :: "int \<Rightarrow> int \<Rightarrow> pc \<Rightarrow> bool" where
  "in_time delay now (GotNow b r) \<longleftrightarrow> now \<le> r + delay"
| "in_time delay now (Loads b r u v) \<longleftrightarrow> now \<le> r + delay"
| "in_time delay now _ \<longleftrightarrow> True"

text \<open>
  A batch of the consumer (\<open>numResults\<close> from 1 to \<open>MAX_RIO_RESULTS\<close>) restarts the timing when
  nothing has been counted yet; the producer never does. A pass of the consumer without
  results goes back to the condition (\<open>BodyDone\<close>).
\<close>

inductive timing_step :: "args_t \<Rightarrow> bool \<Rightarrow> int \<Rightarrow> timing_race \<Rightarrow> move \<Rightarrow> timing_race \<Rightarrow> bool"
  for args :: args_t and consumer :: bool and delay :: int
where
  tick: "0 \<le> d \<Longrightarrow> in_time delay (clock s + d) (pcs s MainLoop)
     \<Longrightarrow> in_time delay (clock s + d) (pcs s Helper)
     \<Longrightarrow> timing_step args consumer delay s (Tick d) (s\<lparr>clock := clock s + d\<rparr>)"
| handler: "timing_step args consumer delay s Signal (s\<lparr>exit_signal := 1\<rparr>)"
| load_signal: "pcs s t = AtTop
     \<Longrightarrow> timing_step args consumer delay s (LoadSignal t) (goto t (AfterSignal (exit_signal s = 0)) s)"
| load_pkts: "pcs s t = AfterSignal b
     \<Longrightarrow> timing_step args consumer delay s (LoadPkts t)
           (goto t (AfterPkts (b \<and> (if PktsToCount args = 0 then True
              else ucast (total_pkts s) < PktsToCount args))) s)"
| read_clock: "pcs s t = AfterPkts b
     \<Longrightarrow> timing_step args consumer delay s (ReadClock t) (goto t (GotNow b (clock s)) s)"
| store_stop: "pcs s t = GotNow b r
     \<Longrightarrow> timing_step args consumer delay s (StoreStop t)
           (goto t (Loads b r None None) (s\<lparr>timing := setStop r (timing s)\<rparr>))"
| load_stop: "pcs s t = Loads b r u None
     \<Longrightarrow> timing_step args consumer delay s (LoadStop t)
           (goto t (Loads b r u (Some (stopTime (timing s)))) s)"
| keep_stop: "pcs s t = Loads b r u None
     \<Longrightarrow> timing_step args consumer delay s (KeepStop t) (goto t (Loads b r u (Some r)) s)"
| load_start: "pcs s t = Loads b r None v
     \<Longrightarrow> timing_step args consumer delay s (LoadStart t)
           (goto t (Loads b r (Some (startTime (timing s))) v) s)"
| return_no_limit: "pcs s t = Loads b r u v \<Longrightarrow> SecondsToRun args = 0
     \<Longrightarrow> timing_step args consumer delay s (Return t b) (goto t (if b then InBody else Left) s)"
| return_limit: "pcs s t = Loads b r (Some u) (Some v) \<Longrightarrow> SecondsToRun args \<noteq> 0
     \<Longrightarrow> go = (b \<and> getElapsedTimeSec \<lparr>startTime = u, stopTime = v\<rparr> < word_of_int (SecondsToRun args))
     \<Longrightarrow> timing_step args consumer delay s (Return t go) (goto t (if go then InBody else Left) s)"
| body_done: "pcs s t = InBody \<Longrightarrow> t = Helper \<or> consumer
     \<Longrightarrow> timing_step args consumer delay s (BodyDone t) (goto t AtTop s)"
| read_start: "pcs s MainLoop = InBody \<Longrightarrow> consumer \<Longrightarrow> total_pkts s = 0
     \<Longrightarrow> 0 < n \<Longrightarrow> n \<le> unat MAX_RIO_RESULTS
     \<Longrightarrow> timing_step args consumer delay s (ReadStart n) (goto MainLoop (GotStart (clock s) n) s)"
| store_start: "pcs s MainLoop = GotStart r n
     \<Longrightarrow> timing_step args consumer delay s StoreStart
           (goto MainLoop (Counting n) (s\<lparr>timing := setStart r (timing s)\<rparr>))"
| batch: "pcs s MainLoop = InBody \<Longrightarrow> \<not> consumer \<or> total_pkts s \<noteq> 0 \<Longrightarrow> 0 < n
     \<Longrightarrow> consumer \<longrightarrow> n \<le> unat MAX_RIO_RESULTS
     \<Longrightarrow> timing_step args consumer delay s (Batch n) (goto MainLoop (Counting n) s)"
| count_pkt: "pcs s MainLoop = Counting (Suc n)
     \<Longrightarrow> timing_step args consumer delay s CountPkt
           (goto MainLoop (Counting n) (s\<lparr>total_pkts := total_pkts s + 1\<rparr>))"
| batch_done: "pcs s MainLoop = Counting 0
     \<Longrightarrow> timing_step args consumer delay s BatchDone (goto MainLoop AtTop s)"

inductive timing_run :: "args_t \<Rightarrow> bool \<Rightarrow> int \<Rightarrow> timing_race \<Rightarrow> move list \<Rightarrow> timing_race \<Rightarrow> bool"
  for args :: args_t and consumer :: bool and delay :: int
where
  run_nil: "timing_run args consumer delay s [] s"
| run_snoc: "timing_run args consumer delay s ms s'
     \<Longrightarrow> timing_step args consumer delay s' m s''
     \<Longrightarrow> timing_run args consumer delay s (ms @ [m]) s''"

inductive_simps timing_step_simps [simp]:
  "timing_step args consumer delay s (Tick d) s'"
  "timing_step args consumer delay s Signal s'"
  "timing_step args consumer delay s (LoadSignal t) s'"
  "timing_step args consumer delay s (LoadPkts t) s'"
  "timing_step args consumer delay s (ReadClock t) s'"
  "timing_step args consumer delay s (StoreStop t) s'"
  "timing_step args consumer delay s (LoadStop t) s'"
  "timing_step args consumer delay s (KeepStop t) s'"
  "timing_step args consumer delay s (LoadStart t) s'"
  "timing_step args consumer delay s (BodyDone t) s'"
  "timing_step args consumer delay s (ReadStart n) s'"
  "timing_step args consumer delay s StoreStart s'"
  "timing_step args consumer delay s (Batch n) s'"
  "timing_step args consumer delay s CountPkt s'"
  "timing_step args consumer delay s BatchDone s'"

inductive_simps return_simps: "timing_step args consumer delay s (Return t go) s'"

lemma goto_sel [simp]:
  "clock (goto t p s) = clock s" "exit_signal (goto t p s) = exit_signal s"
  "timing (goto t p s) = timing s" "total_pkts (goto t p s) = total_pkts s"
  "pcs (goto t p s) t' = (if t' = t then p else pcs s t')"
  by (simp_all add: goto_def)

lemma timing_set_sel [simp]:
  "startTime (setStart r t) = r" "stopTime (setStart r t) = stopTime t"
  "startTime (setStop r t) = startTime t" "stopTime (setStop r t) = r"
  by (simp_all add: setStart_def setStop_def)

section \<open>What holds at every moment\<close>

text \<open>The part of the invariant for one thread.\<close>

fun pc_ok :: "int \<Rightarrow> int \<Rightarrow> int \<Rightarrow> Timing_s \<Rightarrow> pc \<Rightarrow> bool" where
  "pc_ok t0 delay now tm (GotNow b r) \<longleftrightarrow> t0 \<le> r \<and> r \<le> now \<and> now \<le> r + delay"
| "pc_ok t0 delay now tm (Loads b r u v) \<longleftrightarrow> t0 \<le> r \<and> r \<le> now \<and> now \<le> r + delay
     \<and> (case u of None \<Rightarrow> True | Some u \<Rightarrow> t0 \<le> u \<and> u \<le> startTime tm)
     \<and> (case v of None \<Rightarrow> t0 \<le> stopTime tm \<and> r \<le> stopTime tm + delay \<and> stopTime tm \<le> now
        | Some v \<Rightarrow> t0 \<le> v \<and> r \<le> v + delay \<and> v \<le> now)"
| "pc_ok t0 delay now tm (GotStart r n) \<longleftrightarrow> startTime tm \<le> r \<and> r \<le> now"
| "pc_ok t0 delay now tm _ \<longleftrightarrow> True"

definition timing_inv :: "int \<Rightarrow> int \<Rightarrow> timing_race \<Rightarrow> bool" where
  "timing_inv t0 delay s \<longleftrightarrow> t0 \<le> startTime (timing s) \<and> startTime (timing s) \<le> clock s
     \<and> (\<forall>t. pc_ok t0 delay (clock s) (timing s) (pcs s t))
     \<and> (case pcs s Helper of GotStart r n \<Rightarrow> False | _ \<Rightarrow> True)"

lemma pc_ok_tick:
  "pc_ok t0 delay now tm p \<Longrightarrow> 0 \<le> d \<Longrightarrow> in_time delay (now + d) p \<Longrightarrow> pc_ok t0 delay (now + d) tm p"
  by (cases p) (auto split: option.splits)

lemma pc_ok_stop:
  "pc_ok t0 delay now tm p \<Longrightarrow> t0 \<le> r \<Longrightarrow> r \<le> now \<Longrightarrow> now \<le> r + delay \<Longrightarrow> pc_ok t0 delay now (setStop r tm) p"
  by (cases p) (auto split: option.splits)

lemma pc_ok_start:
  "pc_ok t0 delay now tm p \<Longrightarrow> startTime tm \<le> r \<Longrightarrow> r \<le> now
     \<Longrightarrow> (case p of GotStart r' n \<Rightarrow> False | _ \<Rightarrow> True) \<Longrightarrow> pc_ok t0 delay now (setStart r tm) p"
  by (cases p) (auto split: option.splits)

lemma timing_inv_goto:
  "timing_inv t0 delay s \<Longrightarrow> pc_ok t0 delay (clock s) (timing s) p
     \<Longrightarrow> (case p of GotStart r n \<Rightarrow> t = MainLoop | _ \<Rightarrow> True) \<Longrightarrow> timing_inv t0 delay (goto t p s)"
  by (auto simp: timing_inv_def split: pc.splits)

lemma timing_inv_step:
  assumes inv: "timing_inv t0 delay s" and step: "timing_step args consumer delay s m s'"
    and d: "0 \<le> delay"
  shows "timing_inv t0 delay s'"
proof -
  have ok: "pc_ok t0 delay (clock s) (timing s) (pcs s t)" for t
    using inv by (simp add: timing_inv_def)
  show ?thesis
    using step
  proof cases
    case (tick d)
    have "pc_ok t0 delay (clock s + d) (timing s) (pcs s t)" for t
      using pc_ok_tick [OF ok [of t]] tick by (cases t) auto
    with inv tick show ?thesis by (auto simp: timing_inv_def split: pc.splits)
  next
    case (store_stop t b r)
    with ok [of t] have r: "t0 \<le> r" "r \<le> clock s" "clock s \<le> r + delay" by auto
    let ?s = "s\<lparr>timing := setStop r (timing s)\<rparr>"
    have "timing_inv t0 delay ?s"
      using inv pc_ok_stop [OF ok r] by (simp add: timing_inv_def)
    then have "timing_inv t0 delay (goto t (Loads b r None None) ?s)"
      by (rule timing_inv_goto) (use r d in auto)
    with store_stop show ?thesis by simp
  next
    case (store_start r n)
    with ok [of MainLoop] have r: "startTime (timing s) \<le> r" "r \<le> clock s" by auto
    have "pc_ok t0 delay (clock s) (setStart r (timing s)) (pcs s Helper)"
      using pc_ok_start [OF ok [of Helper] r] inv by (simp add: timing_inv_def)
    then have helper: "pc_ok t0 delay (clock s) (setStart r (timing s)) (pcs s t)"
      if "t \<noteq> MainLoop" for t using that by (cases t) auto
    from inv r helper store_start show ?thesis by (auto simp: timing_inv_def)
  next
    case (load_stop t b r u)
    with ok [of t] show ?thesis by (auto intro!: timing_inv_goto [OF inv] split: option.splits)
  next
    case (keep_stop t b r u)
    with ok [of t] d show ?thesis by (auto intro!: timing_inv_goto [OF inv] split: option.splits)
  next
    case (load_start t b r v)
    with ok [of t] inv show ?thesis
      by (auto intro!: timing_inv_goto [OF inv] simp: timing_inv_def split: option.splits)
  next
    case (count_pkt n)
    have "timing_inv t0 delay (s\<lparr>total_pkts := total_pkts s + 1\<rparr>)"
      using inv by (simp add: timing_inv_def)
    with count_pkt show ?thesis by (auto intro!: timing_inv_goto)
  next
    case handler
    with inv show ?thesis by (simp add: timing_inv_def)
  qed (use inv d in \<open>auto intro!: timing_inv_goto [OF inv] simp: timing_inv_def\<close>)
qed

lemma timing_inv_run:
  assumes "timing_run args consumer delay (timing_init consumer firstSends t0 now) ms s"
    and "t0 \<le> now" and "0 \<le> delay"
  shows "timing_inv t0 delay s"
  using assms(1)
proof (induction "timing_init consumer firstSends t0 now" ms s rule: timing_run.induct)
  case run_nil
  then show ?case using assms(2) by (simp add: timing_inv_def timing_init_def)
next
  case (run_snoc ms s' m s'')
  from run_snoc(2,3) show ?case by (rule timing_inv_step) (rule assms(3))
qed

lemma clock_mono: "timing_step args consumer delay s m s' \<Longrightarrow> clock s \<le> clock s'"
  by (induction rule: timing_step.cases) auto

text \<open>The producer never restarts its timing.\<close>

definition no_restart :: "int \<Rightarrow> timing_race \<Rightarrow> bool" where
  "no_restart t0 s \<longleftrightarrow> startTime (timing s) = t0 \<and> (\<forall>t r n. pcs s t \<noteq> GotStart r n)
     \<and> (\<forall>t b r u v. pcs s t = Loads b r (Some u) v \<longrightarrow> u = t0)"

lemma no_restart_step:
  assumes inv: "no_restart t0 s" and "timing_step args False delay s m s'"
  shows "no_restart t0 s'"
  using assms(2) by cases (use inv in \<open>(fastforce simp: no_restart_def split: if_splits)+\<close>)

lemma no_restart_run:
  assumes "timing_run args False delay (timing_init False firstSends t0 now) ms s"
  shows "no_restart t0 s"
  using assms
proof (induction "timing_init False firstSends t0 now" ms s rule: timing_run.induct)
  case run_nil
  then show ?case by (simp add: no_restart_def timing_init_def)
qed (rule no_restart_step)

text \<open>A call that fails for another reason than the time saw the signal or the packet limit.\<close>

fun flag_of :: "pc \<Rightarrow> bool" where
  "flag_of (AfterSignal b) = b"
| "flag_of (AfterPkts b) = b"
| "flag_of (GotNow b r) = b"
| "flag_of (Loads b r u v) = b"
| "flag_of _ = True"

definition pkts_reached :: "args_t \<Rightarrow> timing_race \<Rightarrow> bool" where
  "pkts_reached args s \<longleftrightarrow> PktsToCount args \<noteq> 0 \<and> \<not> ucast (total_pkts s) < PktsToCount args"

text \<open>The packets to count had been reached at some moment of the run.\<close>

definition limit_seen :: "args_t \<Rightarrow> bool \<Rightarrow> int \<Rightarrow> timing_race \<Rightarrow> move list \<Rightarrow> bool" where
  "limit_seen args consumer delay s0 ms \<longleftrightarrow>
     (\<exists>n s. n \<le> length ms \<and> timing_run args consumer delay s0 (take n ms) s \<and> pkts_reached args s)"

lemma limit_seen_snoc:
  assumes "limit_seen args consumer delay s0 ms"
  shows "limit_seen args consumer delay s0 (ms @ [m])"
proof -
  from assms obtain n s where "n \<le> length ms" "timing_run args consumer delay s0 (take n ms) s"
    "pkts_reached args s" unfolding limit_seen_def by blast
  then show ?thesis unfolding limit_seen_def by (intro exI [of _ n] exI [of _ s]) simp
qed

lemma limit_seen_now:
  "timing_run args consumer delay s0 ms s \<Longrightarrow> pkts_reached args s \<Longrightarrow> limit_seen args consumer delay s0 ms"
  unfolding limit_seen_def by (intro exI [of _ "length ms"] exI [of _ s]) simp

lemma flags_run:
  assumes "timing_run args consumer delay (timing_init consumer firstSends t0 now) ms s"
    and "\<not> flag_of (pcs s t)"
  shows "exit_signal s \<noteq> 0 \<or> limit_seen args consumer delay (timing_init consumer firstSends t0 now) ms"
  using assms
proof (induction "timing_init consumer firstSends t0 now" ms s arbitrary: t rule: timing_run.induct)
  case run_nil
  then show ?case by (simp add: timing_init_def split: if_splits)
next
  case (run_snoc ms s' m s'')
  let ?L = "limit_seen args consumer delay (timing_init consumer firstSends t0 now)"
  have old: ?case if "\<not> flag_of (pcs s' t)" "exit_signal s' \<noteq> 0 \<longrightarrow> exit_signal s'' \<noteq> 0"
    using run_snoc.hyps(2) [OF that(1)] that(2) limit_seen_snoc by blast
  have new: "?L (ms @ [m])" if "pkts_reached args s'"
    using limit_seen_snoc [OF limit_seen_now [OF run_snoc.hyps(1) that]] .
  from run_snoc.hyps(3) show ?case
  proof cases
    case (load_pkts t' b)
    then show ?thesis
      using run_snoc.prems old new by (auto simp: pkts_reached_def split: if_splits)
  qed (use run_snoc.prems old in \<open>auto split: if_splits\<close>)
qed

section \<open>The time limit under every interleaving\<close>

text \<open>
  A duration that is negative by less than a second counts as 0 seconds; a negative number of
  seconds to run is, as an unsigned number, longer than any run.
\<close>

lemma elapsed_less_iff:
  assumes "u - v < 1000000000" and "v - u < 2 ^ 63" and "secs \<noteq> 0"
    and "- (2 ^ 31) \<le> secs" "secs < 2 ^ 31"
  shows "getElapsedTimeSec \<lparr>startTime = u, stopTime = v\<rparr> < word_of_int secs
    \<longleftrightarrow> secs < 0 \<or> v - u < secs * 1000000000"
proof -
  note limit = uint_of_secs [OF assms(4,5)]
  show ?thesis
  proof (cases "u \<le> v")
    case True
    then show ?thesis
      using elapsed_uint [of "\<lparr>startTime = u, stopTime = v\<rparr>"] assms(2,4) elapsed_compare(2)
      by (simp add: word_less_def elapsed_compare(1) limit)
  next
    case False
    then have "\<bar>v - u\<bar> div 1000000000 = 0" using assms(1) by simp
    then have "getElapsedTimeSec \<lparr>startTime = u, stopTime = v\<rparr> = 0"
      by (simp add: getElapsedTimeSec_def trunc_div_def)
    moreover have "0 < secs \<Longrightarrow> v - u < secs * 1000000000" using False by linarith
    ultimately show ?thesis using assms(3-5) by (auto simp: word_less_def limit)
  qed
qed

text \<open>The loads of a call that ends on time, or goes on, for starts not far after the stop.\<close>

lemma loads_decide:
  assumes inv: "timing_inv t0 delay s" and pc: "pcs s t = Loads b r (Some u) (Some v)"
    and near: "2 * delay < 1000000000 \<or> u = t0" and t0: "0 \<le> t0" "clock s < 2 ^ 63"
    and secs: "SecondsToRun args \<noteq> 0" "- (2 ^ 31) \<le> SecondsToRun args" "SecondsToRun args < 2 ^ 31"
  shows "getElapsedTimeSec \<lparr>startTime = u, stopTime = v\<rparr> < word_of_int (SecondsToRun args)
    \<longleftrightarrow> SecondsToRun args < 0 \<or> v - u < SecondsToRun args * 1000000000" and "v \<le> clock s"
proof -
  have "pc_ok t0 delay (clock s) (timing s) (pcs s t)" and st: "startTime (timing s) \<le> clock s"
    using inv by (simp_all add: timing_inv_def)
  then have ok: "t0 \<le> u" "u \<le> startTime (timing s)" "clock s \<le> r + delay" "r \<le> v + delay"
    "t0 \<le> v" and v: "v \<le> clock s" by (simp_all add: pc)
  have "u - v < 1000000000" using near
  proof
    assume "2 * delay < 1000000000"
    then show ?thesis using ok st by linarith
  qed (use ok in simp)
  moreover have "v - u < 2 ^ 63" using ok v t0 by linarith
  ultimately show "getElapsedTimeSec \<lparr>startTime = u, stopTime = v\<rparr> < word_of_int (SecondsToRun args)
    \<longleftrightarrow> SecondsToRun args < 0 \<or> v - u < SecondsToRun args * 1000000000"
    using elapsed_less_iff secs by blast
  show "v \<le> clock s" by (rule v)
qed

text \<open>A loaded start is the first one, or the delay keeps it near the stop.\<close>

definition starts_near :: "int \<Rightarrow> int \<Rightarrow> timing_race \<Rightarrow> bool" where
  "starts_near t0 delay s \<longleftrightarrow>
     (\<forall>t b r u v. pcs s t = Loads b r (Some u) v \<longrightarrow> 2 * delay < 1000000000 \<or> u = t0)"

lemma starts_nearD:
  "starts_near t0 delay s \<Longrightarrow> pcs s t = Loads b r (Some u) v \<Longrightarrow> 2 * delay < 1000000000 \<or> u = t0"
  unfolding starts_near_def by blast

lemma starts_near_run:
  assumes "timing_run args consumer delay (timing_init consumer firstSends t0 now) ms s"
    and "\<not> consumer \<or> 2 * delay < 1000000000"
  shows "starts_near t0 delay s"
  using assms no_restart_run [of args delay firstSends t0 now ms s]
  by (cases consumer) (auto simp: starts_near_def no_restart_def)

text \<open>
  C7: The time limit holds although both threads use the timing without synchronisation.
  Under every interleaving of their accesses with a restart of the timing by the consumer, a
  thread that is told to end has been signalled, or the packets to count had been reached at
  some moment of the run, or there is a limit and the seconds to run have passed since \<open>Start\<close>.
  With a limit, a thread that is told to go on has been running for less than it, up to twice
  the delay of a call, since the timing was last started: by \<open>Start\<close>, or by the restart of the
  consumer at its first packets; the producer never restarts it. Seconds to run that are not
  positive are no limit. For the producer no bound on the delay is needed; for the consumer a
  call may not be held up for half a second. The clock stays below \<open>2 ^ 63\<close> nanoseconds.
\<close>

theorem time_limit_under_races:
  assumes run: "timing_run args consumer delay (timing_init consumer firstSends t0 now) ms s"
    and step: "timing_step args consumer delay s (Return t go) s'"
    and start: "0 \<le> t0" "t0 \<le> now" and delay: "0 \<le> delay" "\<not> consumer \<or> 2 * delay < 1000000000"
    and secs: "- (2 ^ 31) \<le> SecondsToRun args" "SecondsToRun args < 2 ^ 31"
    and clock: "clock s < 2 ^ 63"
  shows "(if go then 0 < SecondsToRun args \<longrightarrow>
        clock s - startTime (timing s) < SecondsToRun args * 1000000000 + 2 * delay
      else exit_signal s \<noteq> 0
        \<or> limit_seen args consumer delay (timing_init consumer firstSends t0 now) ms
        \<or> 0 < SecondsToRun args \<and> t0 + SecondsToRun args * 1000000000 \<le> clock s)
    \<and> (\<not> consumer \<longrightarrow> startTime (timing s) = t0)"
proof -
  let ?cause = "exit_signal s \<noteq> 0 \<or> limit_seen args consumer delay (timing_init consumer firstSends t0 now) ms"
  have flag: "?cause" if "pcs s t = Loads False r u v" for r u v
    using flags_run [OF run, of t] that by simp
  have producer: "\<not> consumer \<longrightarrow> startTime (timing s) = t0"
    using no_restart_run [of args delay firstSends t0 now ms s] run
    by (cases consumer) (auto simp: no_restart_def)
  show ?thesis
  proof (cases "SecondsToRun args = 0")
    case True
    with step obtain r u v where "pcs s t = Loads go r u v" by (auto simp: return_simps)
    with flag [of r u v] True producer show ?thesis by (cases go) auto
  next
    case False
    then obtain b r u v where pc: "pcs s t = Loads b r (Some u) (Some v)"
      and go: "go \<longleftrightarrow> b \<and> getElapsedTimeSec \<lparr>startTime = u, stopTime = v\<rparr> < word_of_int (SecondsToRun args)"
      using step by (auto simp: return_simps)
    note inv = timing_inv_run [OF run start(2) delay(1)]
    then have "pc_ok t0 delay (clock s) (timing s) (pcs s t)" by (simp add: timing_inv_def)
    then have ok: "t0 \<le> u" "u \<le> startTime (timing s)" "r \<le> clock s" "clock s \<le> r + delay"
      "r \<le> v + delay" "v \<le> clock s"
      by (simp_all add: pc)
    have iff: "go \<longleftrightarrow> b \<and> (SecondsToRun args < 0 \<or> v - u < SecondsToRun args * 1000000000)"
      using loads_decide(1) [OF inv pc starts_nearD [OF starts_near_run [OF run delay(2)] pc]
          start(1) clock False secs] by (simp add: go)
    have "\<not> b \<Longrightarrow> ?cause" using flag pc by (cases b) auto
    with iff ok producer False show ?thesis by (cases go) auto
  qed
qed

section \<open>Playing a schedule\<close>

inductive_simps timing_run_simps:
  "timing_run args consumer delay s [] s'"
  "timing_run args consumer delay s (ms @ [m]) s'"

lemma timing_run_nil [simp]: "timing_run args consumer delay s [] s' \<longleftrightarrow> s' = s"
  by (auto simp: timing_run_simps(1))

lemma timing_run_Cons [simp]:
  "timing_run args consumer delay s (m # ms) s' \<longleftrightarrow>
     (\<exists>s1. timing_step args consumer delay s m s1 \<and> timing_run args consumer delay s1 ms s')"
proof (induction ms arbitrary: s' rule: rev_induct)
  case Nil
  show ?case using timing_run_simps(2) [of args consumer delay s "[]" m s'] by auto
next
  case (snoc x ms)
  show ?case
    using timing_run_simps(2) [of args consumer delay s "m # ms" x s']
    by (auto simp: timing_run_simps(2) snoc.IH)
qed

lemma ex_flag [simp]: "(\<exists>b. b)" "(\<exists>b. P b \<and> b) \<longleftrightarrow> P True" "(\<exists>b. P b \<and> \<not> b) \<longleftrightarrow> P False"
  by (metis (full_types))+

text \<open>
  The limit of half a second is exact. The report thread stores its clock reading, the main
  thread stores an older one over it, and after half a second restarts the timing; the report
  thread then takes the difference of a stop and a start that is a second later. As an
  unsigned number this is longer than any limit: the report thread ends in the second second of a
  run of ten, with no signal given, and reports no more, while the main loop goes on.
\<close>

definition held_up :: "move list" where
  "held_up =
     [LoadSignal MainLoop, LoadPkts MainLoop, ReadClock MainLoop, Tick 500000000,
      LoadSignal Helper, LoadPkts Helper, ReadClock Helper, StoreStop Helper,
      StoreStop MainLoop, LoadStop Helper, LoadStart MainLoop, LoadStop MainLoop,
      Return MainLoop True, Tick 500000000, ReadStart 1, StoreStart, LoadStart Helper,
      Return Helper False]"

definition ten_seconds :: args_t where
  "ten_seconds = ref_args\<lparr>SecondsToRun := 10\<rparr>"

lemma ten_seconds_sel [simp]: "SecondsToRun ten_seconds = 10" "PktsToCount ten_seconds = 0"
  by (simp_all add: ten_seconds_def ref_args_def)

theorem restart_can_end_reports:
  "\<exists>s. timing_run ten_seconds True 500000000 (timing_init True 0 0 0) held_up s
    \<and> pcs s Helper = Left \<and> pcs s MainLoop = Counting 1 \<and> exit_signal s = 0
    \<and> clock s = 1000000000 \<and> PktsToCount ten_seconds = 0 \<and> SecondsToRun ten_seconds = 10"
  by (simp add: held_up_def return_simps timing_init_def MAX_RIO_RESULTS_def
      getElapsedTimeSec_def trunc_div_def)

section \<open>A call that is not interleaved\<close>

definition call_moves :: "thread_id \<Rightarrow> move list" where
  "call_moves t = [LoadSignal t, LoadPkts t, ReadClock t, StoreStop t, LoadStop t, LoadStart t]"

lemma goto_goto [simp]: "goto t p (goto t q s) = goto t p s"
  by (simp add: goto_def)

lemma goto_timing [simp]: "(goto t p s)\<lparr>timing := x\<rparr> = goto t p (s\<lparr>timing := x\<rparr>)"
  by (simp add: goto_def)

text \<open>
  Without interleaving and without delay the accesses of one call are \<open>ShouldStop\<close>: the
  call returns what the function returns and leaves the timing it leaves.
\<close>

theorem uninterrupted_call_is_ShouldStop:
  assumes "pcs s t = AtTop"
  shows "timing_run args consumer delay s (call_moves t @ [Return t go]) s' \<longleftrightarrow>
    (case ShouldStop (exit_signal s) (clock s)
        (RioSession_uninit args\<lparr>m_TotalPkts := total_pkts s, m_Timing := timing s\<rparr>) of
      (r, session') \<Rightarrow> go = r
        \<and> s' = goto t (if go then InBody else Left) (s\<lparr>timing := m_Timing session'\<rparr>))"
proof (cases "SecondsToRun args = 0")
  case True
  with assms show ?thesis
    by (auto simp: call_moves_def return_simps ShouldStop_def RioSession_uninit_def)
next
  case False
  have set: "\<lparr>startTime = startTime (timing s), stopTime = clock s\<rparr> = setStop (clock s) (timing s)"
    by (simp add: setStop_def)
  from False assms show ?thesis
    by (auto simp: call_moves_def return_simps ShouldStop_def RioSession_uninit_def set)
qed

theorem uninterrupted_call_is_ShouldStop_witness:
  "timing_run ten_seconds True 0 (timing_init True 0 0 0) (call_moves Helper @ [Return Helper True])
     (goto Helper InBody (timing_init True 0 0 0))"
proof -
  let ?s = "timing_init True 0 0 0"
  have "pcs ?s Helper = AtTop" by (simp add: timing_init_def)
  from uninterrupted_call_is_ShouldStop [OF this] show ?thesis
    by (simp add: ShouldStop_def RioSession_uninit_def timing_init_def getElapsedTimeSec_def
        trunc_div_def setStop_def)
qed

text \<open>The first call after ten seconds is told to end.\<close>

theorem time_limit_under_races_witness:
  "\<exists>s. timing_run ten_seconds True 0 (timing_init True 0 0 0) (Tick 10000000000 # call_moves Helper) s
    \<and> (exit_signal s \<noteq> 0 \<or> 10000000000 \<le> clock s)"
proof -
  have "\<exists>s s'. timing_run ten_seconds True 0 (timing_init True 0 0 0) (Tick 10000000000 # call_moves Helper) s
      \<and> timing_step ten_seconds True 0 s (Return Helper False) s' \<and> clock s = 10000000000"
    by (simp add: call_moves_def timing_init_def return_simps getElapsedTimeSec_def trunc_div_def
        setStop_def)
  then obtain s s' where
    r: "timing_run ten_seconds True 0 (timing_init True 0 0 0) (Tick 10000000000 # call_moves Helper) s"
    and st: "timing_step ten_seconds True 0 s (Return Helper False) s'" "clock s = 10000000000"
    by blast
  from time_limit_under_races [OF r st(1)] r st(2) show ?thesis
    by (fastforce simp: limit_seen_def pkts_reached_def)
qed

section \<open>Joining the helper thread\<close>

definition time_over :: "args_t \<Rightarrow> timing_race \<Rightarrow> int \<Rightarrow> bool" where
  "time_over args s now \<longleftrightarrow> 0 < SecondsToRun args
     \<and> startTime (timing s) + SecondsToRun args * 1000000000 \<le> now"

definition end_cause :: "args_t \<Rightarrow> timing_race \<Rightarrow> bool" where
  "end_cause args s \<longleftrightarrow> exit_signal s \<noteq> 0 \<or> pkts_reached args s \<or> time_over args s (clock s)"

text \<open>What the main thread knows: it alone counts packets and sets the start.\<close>

fun main_ok :: "args_t \<Rightarrow> timing_race \<Rightarrow> pc \<Rightarrow> bool" where
  "main_ok args s (AfterSignal b) \<longleftrightarrow> b \<or> exit_signal s \<noteq> 0"
| "main_ok args s (AfterPkts b) \<longleftrightarrow> b \<or> exit_signal s \<noteq> 0 \<or> pkts_reached args s"
| "main_ok args s (GotNow b r) \<longleftrightarrow> b \<or> exit_signal s \<noteq> 0 \<or> pkts_reached args s"
| "main_ok args s (Loads b r u v) \<longleftrightarrow> (b \<or> exit_signal s \<noteq> 0 \<or> pkts_reached args s)
     \<and> (u = None \<or> u = Some (startTime (timing s)))"
| "main_ok args s Left \<longleftrightarrow> end_cause args s"
| "main_ok args s _ \<longleftrightarrow> True"

text \<open>What the helper thread knows once the main loop has ended.\<close>

fun helper_ok :: "args_t \<Rightarrow> timing_race \<Rightarrow> pc \<Rightarrow> bool" where
  "helper_ok args s (AfterSignal b) \<longleftrightarrow> (b \<longrightarrow> pkts_reached args s \<or> time_over args s (clock s))"
| "helper_ok args s (AfterPkts b) \<longleftrightarrow> (b \<longrightarrow> time_over args s (clock s))"
| "helper_ok args s (GotNow b r) \<longleftrightarrow> (b \<longrightarrow> time_over args s r)"
| "helper_ok args s (Loads b r u v) \<longleftrightarrow> (b \<longrightarrow> time_over args s r
     \<and> time_over args s (case v of None \<Rightarrow> stopTime (timing s) | Some v \<Rightarrow> v))
     \<and> (u = None \<or> u = Some (startTime (timing s)))"
| "helper_ok args s _ \<longleftrightarrow> True"

definition after_main :: "args_t \<Rightarrow> timing_race \<Rightarrow> bool" where
  "after_main args s \<longleftrightarrow> pcs s MainLoop = Left \<and> end_cause args s \<and> helper_ok args s (pcs s Helper)"

lemmas cause_defs = end_cause_def pkts_reached_def time_over_def

lemma main_ok_mono:
  assumes "main_ok args s p" and "exit_signal s \<noteq> 0 \<longrightarrow> exit_signal s' \<noteq> 0"
    and "total_pkts s' = total_pkts s" and "startTime (timing s') = startTime (timing s)"
    and "clock s \<le> clock s'"
  shows "main_ok args s' p"
  using assms by (cases p) (auto simp: cause_defs)

definition main_inv :: "args_t \<Rightarrow> timing_race \<Rightarrow> bool" where
  "main_inv args s \<longleftrightarrow> main_ok args s (pcs s MainLoop)"

lemma main_inv_goto:
  assumes "main_inv args s" and "t = MainLoop \<Longrightarrow> main_ok args s p"
  shows "main_inv args (goto t p s)"
  using assms by (cases t) (auto simp: main_inv_def intro: main_ok_mono [of args s])

lemma main_inv_mono:
  assumes "main_inv args s" and "exit_signal s \<noteq> 0 \<longrightarrow> exit_signal s' \<noteq> 0"
    and "total_pkts s' = total_pkts s" and "startTime (timing s') = startTime (timing s)"
    and "clock s \<le> clock s'" and "pcs s' = pcs s"
  shows "main_inv args s'"
  using assms main_ok_mono unfolding main_inv_def by presburger

lemma main_inv_step:
  assumes ok: "main_inv args s" and step: "timing_step args consumer delay s m s'"
    and inv: "timing_inv t0 delay s" and near: "starts_near t0 delay s"
    and t0: "0 \<le> t0" "clock s < 2 ^ 63" and secs: "- (2 ^ 31) \<le> SecondsToRun args" "SecondsToRun args < 2 ^ 31"
  shows "main_inv args s'"
proof -
  have at: "main_ok args s (pcs s MainLoop)" using ok by (simp add: main_inv_def)
  from step show ?thesis
  proof cases
    case (return_limit t b r u v go)
    have go: "go \<longleftrightarrow> b \<and> (SecondsToRun args < 0 \<or> v - u < SecondsToRun args * 1000000000)" and "v \<le> clock s"
      using loads_decide [OF inv return_limit(3) starts_nearD [OF near return_limit(3)] t0 return_limit(4) secs]
      by (simp_all add: return_limit(5))
    then have "main_ok args s (if go then InBody else Left)" if "t = MainLoop"
      using at return_limit(3,4) that by (auto simp: cause_defs)
    then show ?thesis using ok main_inv_goto unfolding return_limit(2) by blast
  next
    case (store_start r n)
    then show ?thesis by (simp add: main_inv_def)
  next
    case (count_pkt n)
    then show ?thesis by (simp add: main_inv_def)
  next
    case (store_stop t b r)
    have "main_inv args (s\<lparr>timing := setStop r (timing s)\<rparr>)"
      by (rule main_inv_mono [OF ok]) simp_all
    with store_stop at show ?thesis by (auto intro!: main_inv_goto simp: cause_defs)
  qed (use ok at in \<open>auto intro!: main_inv_goto simp: cause_defs intro: main_inv_mono [of args s]\<close>)
qed

text \<open>From then on no call of the helper thread is told to go on.\<close>

lemma after_main_goto:
  assumes "after_main args s" and "t = Helper" and "helper_ok args s p"
  shows "after_main args (goto t p s)"
proof -
  have "helper_ok args (goto Helper p s) p = helper_ok args s p"
    by (cases p) (simp_all add: cause_defs split: option.splits)
  with assms show ?thesis by (simp add: after_main_def cause_defs)
qed

lemma after_main_step:
  assumes after: "after_main args s" and step: "timing_step args consumer delay s m s'"
    and inv: "timing_inv t0 delay s" and near: "starts_near t0 delay s"
    and t0: "0 \<le> t0" "clock s < 2 ^ 63" and secs: "- (2 ^ 31) \<le> SecondsToRun args" "SecondsToRun args < 2 ^ 31"
  shows "after_main args s' \<and> m \<noteq> Return Helper True"
proof -
  have main: "pcs s MainLoop = Left" and cause: "end_cause args s"
    and helper: "helper_ok args s (pcs s Helper)"
    using after by (simp_all add: after_main_def)
  have t: "t = Helper" if "pcs s t = p" "p \<noteq> Left" for t p using that main by (cases t) auto
  from step show ?thesis
  proof cases
    case (return_limit t b r u v go)
    have th: "t = Helper" using t return_limit(3) by blast
    have "go \<longleftrightarrow> b \<and> (SecondsToRun args < 0 \<or> v - u < SecondsToRun args * 1000000000)"
      using loads_decide [OF inv return_limit(3) starts_nearD [OF near return_limit(3)] t0 return_limit(4) secs]
      by (simp add: return_limit(5))
    then have "\<not> go" using helper return_limit(3) th by (auto simp: time_over_def)
    then show ?thesis
      using after_main_goto [OF after th, of Left] return_limit(1,2) by simp
  next
    case (return_no_limit t b r u v)
    have th: "t = Helper" using t return_no_limit(3) by blast
    then have "\<not> b" using helper return_no_limit(3,4) by (auto simp: time_over_def)
    then show ?thesis
      using after_main_goto [OF after th, of Left] return_no_limit(1,2) by simp
  next
    case (tick d)
    then show ?thesis using main cause helper
      by (cases "pcs s Helper") (auto simp: after_main_def cause_defs split: option.splits)
  next
    case handler
    then show ?thesis using main helper
      by (cases "pcs s Helper") (auto simp: after_main_def cause_defs split: option.splits)
  next
    case (store_stop t b r)
    have th: "t = Helper" using t store_stop(3) by blast
    then show ?thesis using main cause helper store_stop
      by (auto simp: after_main_def cause_defs)
  next
    case (load_signal t)
    have th: "t = Helper" using t load_signal(3) by blast
    show ?thesis using after_main_goto [OF after th] cause load_signal by (auto simp: end_cause_def)
  next
    case (load_pkts t b)
    have th: "t = Helper" using t load_pkts(3) by blast
    show ?thesis using after_main_goto [OF after th] helper th load_pkts by (auto simp: pkts_reached_def)
  next
    case (read_clock t b)
    have th: "t = Helper" using t read_clock(3) by blast
    show ?thesis using after_main_goto [OF after th] helper th read_clock by auto
  next
    case (load_stop t b r u)
    have th: "t = Helper" using t load_stop(3) by blast
    show ?thesis using after_main_goto [OF after th] helper th load_stop by auto
  next
    case (keep_stop t b r u)
    have th: "t = Helper" using t keep_stop(3) by blast
    show ?thesis using after_main_goto [OF after th] helper th keep_stop by auto
  next
    case (load_start t b r v)
    have th: "t = Helper" using t load_start(3) by blast
    show ?thesis using after_main_goto [OF after th] helper th load_start by auto
  next
    case (body_done t)
    have th: "t = Helper" using t body_done(3) by blast
    show ?thesis using after_main_goto [OF after th, of AtTop] body_done by simp
  qed (use main in simp_all)
qed

lemma main_inv_run:
  assumes "timing_run args consumer delay (timing_init consumer firstSends t0 now) ms s"
    and "0 \<le> t0" and "t0 \<le> now" and "0 \<le> delay" and "\<not> consumer \<or> 2 * delay < 1000000000"
    and "- (2 ^ 31) \<le> SecondsToRun args" and "SecondsToRun args < 2 ^ 31" and "clock s < 2 ^ 63"
  shows "main_inv args s"
  using assms(1,8)
proof (induction "timing_init consumer firstSends t0 now" ms s rule: timing_run.induct)
  case run_nil
  then show ?case by (simp add: main_inv_def timing_init_def)
next
  case (run_snoc ms s' m s'')
  have clk: "clock s' < 2 ^ 63" using clock_mono [OF run_snoc(3)] run_snoc(4) by simp
  show ?case
    by (rule main_inv_step [OF run_snoc.hyps(2) [OF clk] run_snoc(3)
          timing_inv_run [OF run_snoc(1) assms(3,4)] starts_near_run [OF run_snoc(1) assms(5)]
          assms(2) clk assms(6,7)])
qed

lemma timing_run_append:
  "timing_run args consumer delay s ms s' \<Longrightarrow> timing_run args consumer delay s' ms' s''
     \<Longrightarrow> timing_run args consumer delay s (ms @ ms') s''"
  by (induction ms arbitrary: s) auto

text \<open>
  C8: Joining the helper thread works under every interleaving of the two threads, for the
  consumer as long as no call of \<open>ShouldStop\<close> is held up for half a second (for the producer
  however long). Once the main loop has ended, because of the signal, the packet limit or the
  time limit, no call of \<open>ShouldStop\<close> that the helper thread begins is told to go on, so its
  loop ends with the pass it is in. The clock stays below \<open>2 ^ 63\<close> nanoseconds.
\<close>

theorem helper_ends_after_main:
  assumes run: "timing_run args consumer delay (timing_init consumer firstSends t0 now) ms s"
    and left: "pcs s MainLoop = Left" "pcs s Helper = AtTop \<or> pcs s Helper = InBody"
    and rest: "timing_run args consumer delay s ms' s'"
    and bounds: "0 \<le> t0" "t0 \<le> now" "0 \<le> delay" "\<not> consumer \<or> 2 * delay < 1000000000"
      "- (2 ^ 31) \<le> SecondsToRun args" "SecondsToRun args < 2 ^ 31" "clock s' < 2 ^ 63"
  shows "Return Helper True \<notin> set ms'"
proof -
  have "after_main args s' \<and> Return Helper True \<notin> set ms'"
    using rest run left bounds(7)
  proof (induction rule: timing_run.induct)
    case (run_nil s)
    have "main_inv args s" by (rule main_inv_run [OF run_nil.prems(1) bounds(1-6) run_nil.prems(4)])
    with run_nil.prems(2,3) show ?case by (auto simp: after_main_def main_inv_def)
  next
    case (run_snoc s ms' s' m s'')
    have clk: "clock s' < 2 ^ 63"
      using clock_mono [OF run_snoc.hyps(2)] run_snoc.prems(4) by simp
    have after: "after_main args s'" and seen: "Return Helper True \<notin> set ms'"
      using run_snoc.IH [OF run_snoc.prems(1-3) clk] by auto
    note run' = timing_run_append [OF run_snoc.prems(1) run_snoc.hyps(1)]
    have "after_main args s'' \<and> m \<noteq> Return Helper True"
      by (rule after_main_step [OF after run_snoc.hyps(2) timing_inv_run [OF run' bounds(2,3)]
            starts_near_run [OF run' bounds(4)] bounds(1) clk bounds(5,6)])
    with seen show ?case by auto
  qed
  then show ?thesis by simp
qed

text \<open>The main loop ends after ten seconds; the next pass of the helper thread then ends too.\<close>

theorem helper_ends_after_main_witness:
  "\<exists>s. timing_run ten_seconds True 0 (timing_init True 0 0 0)
       (Tick 10000000000 # call_moves MainLoop @ [Return MainLoop False]) s
    \<and> (\<forall>s'. \<not> timing_run ten_seconds True 0 s (call_moves Helper @ [Return Helper True]) s')"
proof -
  have "\<exists>s. timing_run ten_seconds True 0 (timing_init True 0 0 0)
       (Tick 10000000000 # call_moves MainLoop @ [Return MainLoop False]) s
    \<and> pcs s MainLoop = Left \<and> pcs s Helper = AtTop \<and> clock s = 10000000000"
    by (simp add: call_moves_def timing_init_def return_simps getElapsedTimeSec_def trunc_div_def
        setStop_def)
  then obtain s where r: "timing_run ten_seconds True 0 (timing_init True 0 0 0)
       (Tick 10000000000 # call_moves MainLoop @ [Return MainLoop False]) s"
    and s: "pcs s MainLoop = Left" "pcs s Helper = AtTop" "clock s = 10000000000" by blast
  have "\<not> timing_run ten_seconds True 0 s (call_moves Helper @ [Return Helper True]) s'" for s'
  proof
    assume run: "timing_run ten_seconds True 0 s (call_moves Helper @ [Return Helper True]) s'"
    have "clock s' = 10000000000"
      using run s(3) by (auto simp: call_moves_def return_simps)
    with helper_ends_after_main [OF r s(1) _ run] s(2) show False by simp
  qed
  with r show ?thesis by blast
qed

end
