(* ===== verification/Rio_Producer.thy ===== *)
theory Rio_Producer
  imports Worker_Threads
begin

text \<open>
  The sender (RioProducer.hpp, RioProducer.cpp): construction, the first posting of all
  messages, the send loop and the worker that tunes the pause between messages. The memory
  of the two registered buffers is part of the state, as what reads at each offset; the sent
  packets are logged with the address and the sequence number in the buffers at the time of
  the call. Pauses (\<open>utilities::spin\<close>) have no effect on the state.
\<close>

section \<open>State\<close>

text \<open>The base-class subobject, the members of the class, the memory, and the log of sends.\<close>

record RioProducer =
  session :: RioSession
  m_SpinDuration :: int
  m_NumberOfMcGroups :: u32
  data_mem :: "u32 \<Rightarrow> ProtocolHeader_t"
  addr_mem :: "u32 \<Rightarrow> SOCKADDR_INET"
  sent :: "(SOCKADDR_INET \<times> ProtocolHeader_t) list"

text \<open>
  The first pause, \<open>(int64_t)(1e9 / (double)args->PacketRate)\<close>. \<open>main\<close> constructs a producer
  only after \<open>Check\<close> has rejected a rate of 0. For the rates that \<open>Check\<close> admits the result is
  the integer quotient: the rounding of the division never reaches the next integer.
\<close>

definition first_pause :: "int \<Rightarrow> int" where
  "first_pause rate = to_int64 (fl (1000000000 / fl (of_int rate)))"

lemma first_pause_eq:
  assumes "0 < rate" and "rate \<le> 1000000"
  shows "first_pause rate = 1000000000 div rate"
proof -
  define r :: rat where "r = of_int rate"
  define n m where "n = 1000000000 div rate" and "m = 1000000000 mod rate"
  define x where "x = 1000000000 / r"
  have r: "1 \<le> r" "r \<le> 1000000" using assms by (simp_all add: r_def)
  have m: "0 \<le> m" "m \<le> rate - 1" using assms by (simp_all add: m_def)
  have "rate * n + m = 1000000000" by (simp add: n_def m_def)
  then have "r * of_int n + of_int m = 1000000000"
    unfolding r_def by (metis of_int_add of_int_mult of_int_numeral)
  then have x: "x = of_int n + of_int m / r" using r by (simp add: x_def field_simps)
  have "fl r = r" using fl_nat [of "nat rate"] assms by (simp add: r_def)
  then have pause: "first_pause rate = to_int64 (fl x)"
    by (simp add: first_pause_def x_def r_def)
  have x0: "0 \<le> x" "x \<le> 1000000000" using r by (simp_all add: x_def pos_divide_le_eq)
  have "0 \<le> of_int m / r" using m r by simp
  then have "of_int n \<le> (of_int 1000000000 :: rat)" using x x0 by simp
  then have n: "0 \<le> n" "n \<le> 1000000000"
    using assms by (simp_all add: n_def pos_imp_zdiv_nonneg_iff)
  have err: "\<bar>fl x - x\<bar> \<le> 1 / 2000000" using fl_error [OF x0(1)] x0(2) by simp
  have "of_int n \<le> fl x \<and> fl x < of_int n + 1"
  proof (cases "m = 0")
    case True
    then have "fl x = of_int n" using fl_nat [of "nat n"] n by (simp add: x)
    then show ?thesis by simp
  next
    case False
    with m have "1 \<le> (of_int m :: rat)" "of_int m \<le> r - 1" by (simp_all add: r_def)
    then have "1 / 1000000 \<le> of_int m / r" "of_int m / r \<le> 1 - 1 / 1000000"
      using r by (simp_all add: field_simps)
    with err show ?thesis unfolding x by linarith
  qed
  then have "\<lfloor>fl x\<rfloor> = n" by (simp add: floor_eq_iff)
  moreover have "0 \<le> fl x" by (rule fl_bounds(3) [OF x0(1)])
  ultimately show ?thesis unfolding pause n_def [symmetric] by (simp add: to_int64_def)
qed

definition lift_op :: "session_op \<Rightarrow> RioProducer \<Rightarrow> RioProducer result" where
  "lift_op f p = bind_res (f (session p)) (\<lambda>s. Inr (p\<lparr>session := s\<rparr>))"

definition zero_header :: ProtocolHeader_t where
  "zero_header = \<lparr>Token = 0, CmdType = 0, Tag = 0, Seq = 0, Timestamp = 0\<rparr>"

definition zero_addr :: SOCKADDR_INET where
  "zero_addr = \<lparr>sin_family = 0, sin_port = 0, s_addr = 0\<rparr>"

definition zero_buf :: RIO_BUF where
  "zero_buf = \<lparr>BufferId = 0, Offset = 0, Length = 0\<rparr>"

definition AF_INET :: u16 where "AF_INET = 2"

section \<open>Construction\<close>

definition SendOnInterface :: "os_env \<Rightarrow> string \<Rightarrow> session_op" where
  "SendOnInterface os iaddr s =
     (let (r, s) = do_call os (SetMulticastIf (m_SocketHandle s) (net_inet_addr os iaddr)) s
      in if r \<noteq> 0 then Inl (ErrorExit ''setsockopt IP_MULTICAST_IF'') else Inr s)"

text \<open>\<open>InitMcAddrDescriptors\<close>: descriptor and socket address of each group.\<close>

primrec init_groups_loop ::
    "os_env \<Rightarrow> nat \<Rightarrow> nat \<Rightarrow> u32 \<Rightarrow> RioProducer \<Rightarrow> RioProducer result" where
  "init_groups_loop os 0 i offset p = Inr p"
| "init_groups_loop os (Suc n) i offset p =
     (let s = session p;
          s = s\<lparr>m_McAddrDescr := (m_McAddrDescr s)[i :=
             \<lparr>BufferId = m_McAddrBuffId s, Offset = offset, Length = ADDR_SIZE\<rparr>]\<rparr>
      in if i \<ge> length (McastAddrStr (m_Args s)) then Inl (Undefined ''McastAddrStr index'')
         else case inet_pton4 (net os) (Ipv4_str (net os) (McastAddrStr (m_Args s) ! i)) of
           None \<Rightarrow> Inl (ErrorExit ''Converting Mcast Address'')
         | Some mcAddr \<Rightarrow>
             init_groups_loop os n (i + 1) (offset + ADDR_SIZE)
               (p\<lparr>session := s, addr_mem := (addr_mem p)(offset :=
                  \<lparr>sin_family = AF_INET, sin_port = net_htons os (McastPort (m_Args s)),
                   s_addr = mcAddr\<rparr>)\<rparr>))"

definition RioProducer_InitMcAddrDescriptors :: "os_env \<Rightarrow> RioProducer \<Rightarrow> RioProducer result" where
  "RioProducer_InitMcAddrDescriptors os p =
     (let n = unat (m_NumberOfMcGroups p)
      in init_groups_loop os n 0 0
           (p\<lparr>session := (session p)\<lparr>m_McAddrDescr := replicate n zero_buf\<rparr>\<rparr>))"

text \<open>
  The constructor. \<open>PacketRate * groups\<close> is a product of 32-bit unsigned numbers. The pause
  is the truncated quotient of two doubles; for a divisor of 31 bits the rounding error is
  below the distance to the next integer, so it is the truncated quotient of the integers.
\<close>

definition RioProducer_new :: "os_env \<Rightarrow> args_t \<Rightarrow> RioProducer result" where
  "RioProducer_new os args =
     bind_res (RioSession_new os args) (\<lambda>s.
     bind_res (BindSocket os 0 (IfIndex args) s) (\<lambda>s.
     let groups = (of_nat (length (McastAddrStr args)) :: u32);
         rate = (word_of_int (PacketRate args) :: u32);
         s = s\<lparr>m_MaxOutstandingReceive := 0, m_MaxReceiveDataBuffers := 1,
               m_MaxOutstandingSend := rate * groups, m_MaxSendDataBuffers := 1\<rparr>
     in if PacketRate args = 0 then Inl (Undefined ''conversion of an infinite double'')
        else
     let s = s\<lparr>m_RioBuffDescr := replicate (unat (m_MaxOutstandingSend s)) zero_buf\<rparr>
     in bind_res (SendOnInterface os (IfIndex args) s) (\<lambda>s.
     bind_res (InitializeRIO os s) (\<lambda>s.
     bind_res (CreateCompletionQueue os (m_MaxOutstandingSend s) s) (\<lambda>s.
     bind_res (CreateRequestQueue os s) (\<lambda>s.
     bind_res (AllocateAndRegisterBuffer os EXPECTED_DATA_SIZE rate s) (\<lambda>(b, i, s).
     let s = s\<lparr>m_RioBuffPtr := b, m_RioBuffId := i\<rparr> in
     bind_res (AllocateAndRegisterBuffer os ADDR_SIZE groups s) (\<lambda>(b, i, s).
     let s = s\<lparr>m_McAddrBuffPtr := b, m_McAddrBuffId := i\<rparr> in
     RioProducer_InitMcAddrDescriptors os
       \<lparr>session = s, m_SpinDuration = first_pause (PacketRate args),
        m_NumberOfMcGroups = groups, data_mem = (\<lambda>_. zero_header), addr_mem = (\<lambda>_. zero_addr),
        sent = []\<rparr>))))))))"

section \<open>Sending\<close>

text \<open>
  One send of descriptor \<open>x\<close> to address descriptor \<open>a\<close>, with the packet counter and the
  statistics of the group that address descriptor \<open>a'\<close> names, as both loops do it.
\<close>

definition send_one :: "os_env \<Rightarrow> nat \<Rightarrow> nat \<Rightarrow> nat \<Rightarrow> RioProducer \<Rightarrow> RioProducer result" where
  "send_one os x a a' p =
     (let s = session p
      in if x < length (m_RioBuffDescr s) \<and> a < length (m_McAddrDescr s)
            \<and> a' < length (m_McAddrDescr s) then
           (let d = m_RioBuffDescr s ! x; ad = m_McAddrDescr s ! a;
                (r, s) = do_call os (RIOSendEx (m_RequestQueue s) d ad x) s
            in if r = 0 then Inl (ErrorExit ''RIOSend'')
               else
                 (let mcAddr = addr_mem p (Offset (m_McAddrDescr s ! a'))
                  in Inr (p\<lparr>session := s\<lparr>m_TotalPkts := m_TotalPkts s + 1,
                         m_GroupStats := RioProducer_GroupStatsUpdate mcAddr
                           (ucast EXPECTED_DATA_SIZE) (m_GroupStats s)\<rparr>,
                       sent := sent p @ [(addr_mem p (Offset ad), data_mem p (Offset d))]\<rparr>)))
         else Inl (Undefined ''descriptor index''))"

text \<open>
  The inner loop of \<open>PostFirstSend\<close> that points the descriptors of message \<open>i\<close> at its data;
  the index is computed with 32 bits.
\<close>

primrec fill_descrs ::
    "u32 \<Rightarrow> u32 \<Rightarrow> nat \<Rightarrow> nat \<Rightarrow> u32 \<Rightarrow> RioSession \<Rightarrow> RioSession result" where
  "fill_descrs groups i 0 j offset s = Inr s"
| "fill_descrs groups i (Suc n) j offset s =
     (let k = unat (groups * i + of_nat j)
      in if k < length (m_RioBuffDescr s) then
           fill_descrs groups i n (j + 1) offset
             (s\<lparr>m_RioBuffDescr := (m_RioBuffDescr s)[k :=
                \<lparr>BufferId = m_RioBuffId s, Offset = offset, Length = EXPECTED_DATA_SIZE\<rparr>]\<rparr>)
         else Inl (Undefined ''descriptor index''))"

text \<open>The first loop of \<open>PostFirstSend\<close>; \<open>now i\<close> is the clock when message \<open>i\<close> is filled.\<close>

primrec fill_messages ::
    "(nat \<Rightarrow> u64) \<Rightarrow> nat \<Rightarrow> nat \<Rightarrow> u32 \<Rightarrow> RioProducer \<Rightarrow> RioProducer result" where
  "fill_messages now 0 i offset p = Inr p"
| "fill_messages now (Suc n) i offset p =
     bind_res (lift_op (fill_descrs (m_NumberOfMcGroups p) (of_nat i)
         (unat (m_NumberOfMcGroups p)) 0 offset) p)
       (\<lambda>p. fill_messages now n (i + 1) (offset + EXPECTED_DATA_SIZE)
          (p\<lparr>data_mem := (data_mem p)(offset := (data_mem p offset)\<lparr>Token := 490,
             CmdType := 0, Seq := of_nat i, Timestamp := now i\<rparr>)\<rparr>))"

text \<open>The second loop: every descriptor is sent once.\<close>

primrec first_sends_loop :: "os_env \<Rightarrow> nat \<Rightarrow> nat \<Rightarrow> RioProducer \<Rightarrow> RioProducer result" where
  "first_sends_loop os 0 i p = Inr p"
| "first_sends_loop os (Suc n) i p =
     (if m_NumberOfMcGroups p = 0 then Inl (Undefined ''modulo by zero'')
      else bind_res (send_one os i (i mod length (McastAddrStr (m_Args (session p))))
               (i mod unat (m_NumberOfMcGroups p)) p)
             (first_sends_loop os n (i + 1)))"

definition PostFirstSend :: "os_env \<Rightarrow> (nat \<Rightarrow> u64) \<Rightarrow> RioProducer \<Rightarrow> (u64 \<times> RioProducer) result" where
  "PostFirstSend os now p =
     (let rate = unat (word_of_int (PacketRate (m_Args (session p))) :: u32);
          sequenceNumber = (of_nat rate :: u64)
      in bind_res (fill_messages now rate 0 0 p) (\<lambda>p.
         bind_res (first_sends_loop os (unat (m_MaxOutstandingSend (session p))) 0 p)
           (\<lambda>p. Inr (sequenceNumber, p))))"

text \<open>A dequeued completion: the context of the send, and the clock when it is processed.\<close>

record SENDRESULT =
  SendContext :: nat
  sr_now :: u64

record send_locals =
  sequenceNumber :: u64
  groupCounter :: u32

type_synonym send_state = "RioProducer \<times> send_locals"

text \<open>The body of the inner loop of \<open>Start\<close> for the \<open>i\<close>-th result of a batch.\<close>

definition resend :: "os_env \<Rightarrow> nat \<Rightarrow> SENDRESULT \<Rightarrow> send_state \<Rightarrow> send_state result" where
  "resend os i r st =
     (let (p, l) = st; n = m_NumberOfMcGroups p; x = SendContext r
      in if n = 0 then Inl (Undefined ''modulo by zero'')
         else if x < length (m_RioBuffDescr (session p)) then
           (let off = Offset (m_RioBuffDescr (session p) ! x);
                p = p\<lparr>data_mem := (data_mem p)(off := (data_mem p off)\<lparr>Seq := sequenceNumber l,
                      Timestamp := sr_now r\<rparr>)\<rparr>
            in bind_res (send_one os x (i mod unat n) (i mod unat n) p) (\<lambda>p.
                 let l = l\<lparr>groupCounter := (groupCounter l + 1) mod n\<rparr>
                 in Inr (p, if groupCounter l = 0
                      then l\<lparr>sequenceNumber := sequenceNumber l + 1\<rparr> else l)))
         else Inl (Undefined ''descriptor index''))"

fun resend_batch :: "os_env \<Rightarrow> nat \<Rightarrow> SENDRESULT list \<Rightarrow> send_state \<Rightarrow> send_state result" where
  "resend_batch os i [] st = Inr st"
| "resend_batch os i (r # rs) st = bind_res (resend os i r st) (resend_batch os (i + 1) rs)"

text \<open>
  The inputs of one round: signal and clock as \<open>ShouldStop\<close> reads them, whether the wait on
  the completion port succeeded, and the dequeued results (\<open>None\<close> for a corrupt queue).
\<close>

record send_round =
  sd_signal :: int
  sd_now :: int
  sd_completed :: bool
  sd_results :: "SENDRESULT list option"

definition send_step :: "os_env \<Rightarrow> send_round \<Rightarrow> send_state \<Rightarrow> (bool \<times> send_state) result" where
  "send_step os rd st =
     (let (p, l) = st;
          (go, s) = ShouldStop (sd_signal rd) (sd_now rd) (session p);
          p = p\<lparr>session := s\<rparr>
      in if \<not> go then Inr (True, p, l)
         else
           bind_res (lift_op (NotifyCompletionQueue os) p) (\<lambda>p.
             if \<not> sd_completed rd then Inl (ErrorExit ''GetQueuedCompletionStatus'')
             else
               case sd_results rd of
                 None \<Rightarrow> Inl (ErrorExit ''RIODequeueCompletion'')
               | Some results \<Rightarrow>
                   if results = [] then Inl (ErrorExit ''RIODequeueCompletion'')
                   else bind_res (resend_batch os 0 results (p, l)) (\<lambda>st. Inr (False, st))))"

fun send_loop :: "os_env \<Rightarrow> send_round list \<Rightarrow> send_state \<Rightarrow> (bool \<times> send_state) result" where
  "send_loop os [] st = Inr (False, st)"
| "send_loop os (rd # rds) st =
     bind_res (send_step os rd st) (\<lambda>(ended, st).
       if ended then Inr (True, st) else send_loop os rds st)"

text \<open>
  \<open>Start\<close>: the first sends, the loop over the rounds, the final reports, and then the joining
  of the tuning thread (\<open>th\<close>: its passes from the end of the loop on); \<open>None\<close> stands for a
  producer that is still running at the end of the list of rounds.
\<close>

definition RioProducer_Start ::
    "os_env \<Rightarrow> int \<Rightarrow> (nat \<Rightarrow> u64) \<Rightarrow> send_round list \<Rightarrow> (int \<times> int) list \<Rightarrow> RioProducer \<Rightarrow>
       (RioProducer \<times> ((u64 \<times> u64 \<times> u64 \<times> double option) \<times> (string \<times> u64 \<times> u64 \<times> u64) list) option) result"
  where
  "RioProducer_Start os startNow now rds th p =
     (let s = session p; p = p\<lparr>session := s\<lparr>m_Timing := setStart startNow (m_Timing s)\<rparr>\<rparr>;
          m_ReportThread = make_thread th
      in bind_res (PostFirstSend os now p) (\<lambda>(sq, p).
         bind_res (send_loop os rds (p, \<lparr>sequenceNumber = sq, groupCounter = 0\<rparr>))
           (\<lambda>(ended, p, l).
              if ended then
                (let report = (PrintTimings (ucast (m_TotalPkts (session p))) 0 (session p),
                       RioProducer_GroupStatsPrint (inet_ntop4 (net os)) (m_GroupStats (session p)))
                 in bind_res (JoinThread m_ReportThread (session p)) (\<lambda>(m_ReportThread, s).
                      Inr (p\<lparr>session := s\<rparr>, Some report)))
              else Inr (p, None))))"

lemma producer_started:
  assumes "RioProducer_Start os t0 now rds th p = Inr (p', rep)"
  obtains sq p1 e p2 l tm where
    "PostFirstSend os now (p\<lparr>session := (session p)\<lparr>m_Timing := setStart t0 (m_Timing (session p))\<rparr>\<rparr>)
       = Inr (sq, p1)"
    and "send_loop os rds (p1, \<lparr>sequenceNumber = sq, groupCounter = 0\<rparr>) = Inr (e, p2, l)"
    and "p' = p2\<lparr>session := (session p2)\<lparr>m_Timing := tm\<rparr>\<rparr>" and "rep = None \<longleftrightarrow> \<not> e"
proof -
  from assms obtain sq p1 e p2 l where post: "PostFirstSend os now
      (p\<lparr>session := (session p)\<lparr>m_Timing := setStart t0 (m_Timing (session p))\<rparr>\<rparr>) = Inr (sq, p1)"
    and loop: "send_loop os rds (p1, \<lparr>sequenceNumber = sq, groupCounter = 0\<rparr>) = Inr (e, p2, l)"
    and ending: "if e then \<exists>t s. JoinThread (make_thread th) (session p2) = Inr (t, s)
        \<and> p' = p2\<lparr>session := s\<rparr> \<and> rep \<noteq> None else p' = p2 \<and> rep = None"
    by (auto simp: RioProducer_Start_def bind_res_eq_Inr Let_def split: if_splits)
  have "\<exists>tm. p' = p2\<lparr>session := (session p2)\<lparr>m_Timing := tm\<rparr>\<rparr>"
    using ending JoinThread_effect by (cases e) (force intro: exI [of _ "m_Timing (session p2)"])+
  then obtain tm where "p' = p2\<lparr>session := (session p2)\<lparr>m_Timing := tm\<rparr>\<rparr>" by blast
  moreover have "rep = None \<longleftrightarrow> \<not> e" using ending by (auto split: if_splits)
  ultimately show thesis using that [OF post loop] by blast
qed

section \<open>Tuning the pause\<close>

text \<open>
  \<open>SpinWorker\<close>: the state it keeps between rounds, and one round of its loop after the
  sleep. Signed 64-bit values are integers: the packet counter has 32 bits, so no
  intermediate value leaves their range. Every reading of the counter is an argument: three
  of the report (\<open>reads\<close>) and two of the tuning. A report prints the third reading and the
  throughput.
\<close>

record SpinState =
  PreviousN :: u64
  PreviousTuningN :: u64
  NextReportTime :: u64
  NextTuningTime :: u64

definition ExpectedPPSDiv10 :: "u32 \<Rightarrow> u32 \<Rightarrow> int" where
  "ExpectedPPSDiv10 rate groups = uint ((rate * groups) div 10)"

definition DeltaThreashold :: "u32 \<Rightarrow> u32 \<Rightarrow> int" where
  "DeltaThreashold rate groups = uint (max ((rate * groups) div 2000) 1)"

text \<open>The new pause for a difference to the expected number of packets.\<close>

definition tune :: "int \<Rightarrow> int \<Rightarrow> int \<Rightarrow> int" where
  "tune threshold PacketDelta duration =
     (let duration =
        (if PacketDelta > threshold then
           (let v = (if duration > 0 then duration + trunc_div PacketDelta threshold * 10
                     else duration)
            in if v < 1000 then 100 else v)
         else duration)
      in if PacketDelta < - threshold then
           (let calc = trunc_div PacketDelta threshold * 10 + duration
            in if calc < 1000 then 100 else calc)
         else duration)"

definition SpinWorker_init :: "u64 \<Rightarrow> u64 \<Rightarrow> SpinState" where
  "SpinWorker_init now now' = \<lparr>PreviousN = 0, PreviousTuningN = 0, NextReportTime = now + 1000000000,
     NextTuningTime = now' + 100000000\<rparr>"

definition throughput :: "u32 \<Rightarrow> u64 \<Rightarrow> u64 \<Rightarrow> double" where
  "throughput n previous late =
     (let ElapsedTime_ns = fl (1000000000 + double_of late);
          ReportPeriod = fl (ElapsedTime_ns / 1000000000);
          PacketDelta = fl (double_of n - double_of previous)
      in fl (PacketDelta / ReportPeriod))"

definition SpinWorker_step ::
    "u32 \<Rightarrow> u32 \<Rightarrow> u64 \<Rightarrow> u64 \<Rightarrow> u32 \<times> u32 \<times> u32 \<Rightarrow> u32 \<Rightarrow> u32 \<Rightarrow> SpinState \<times> int \<Rightarrow>
       (u32 \<times> double) option \<times> SpinState \<times> int"
  where
  "SpinWorker_step rate groups Now reportNow reads TotalPkts TotalPkts' st =
     (let (w, duration) = st;
          (n1, n2, n3) = reads;
          (report, w) =
            (if Now \<ge> NextReportTime w
             then (Some (n3, throughput n1 (PreviousN w) (Now - NextReportTime w)),
                   w\<lparr>PreviousN := ucast n2, NextReportTime := reportNow + 1000000000\<rparr>)
             else (None, w))
      in if Now \<ge> NextTuningTime w then
           (let w' = w\<lparr>NextTuningTime := Now + 100000000, PreviousTuningN := ucast TotalPkts'\<rparr>;
                PacketDelta = (uint TotalPkts - sint (PreviousTuningN w))
                  - ExpectedPPSDiv10 rate groups
            in (report, w', tune (DeltaThreashold rate groups) PacketDelta duration))
         else (report, w, duration))"

section \<open>What construction leaves\<close>

lemma lift_op_Inr:
  "lift_op f p = Inr p' \<longleftrightarrow> (\<exists>s. f (session p) = Inr s \<and> p' = p\<lparr>session := s\<rparr>)"
  by (auto simp: lift_op_def bind_res_eq_Inr)

definition group_addr :: "RioProducer \<Rightarrow> nat \<Rightarrow> SOCKADDR_INET" where
  "group_addr p k = addr_mem p (of_nat (28 * k))"

definition mc_sockaddr :: "os_env \<Rightarrow> args_t \<Rightarrow> nat \<Rightarrow> SOCKADDR_INET" where
  "mc_sockaddr os args k = \<lparr>sin_family = AF_INET, sin_port = net_htons os (McastPort args),
     s_addr = the (inet_pton4 (net os) (Ipv4_str (net os) (McastAddrStr args ! k)))\<rparr>"

lemma of_nat_mult_inj:
  fixes c i j :: nat
  assumes "c * i < 2 ^ 32" and "c * j < 2 ^ 32" and "0 < c"
  shows "(of_nat (c * i) :: u32) = of_nat (c * j) \<longleftrightarrow> i = j"
proof -
  have "unat (of_nat (c * i) :: u32) = c * i" "unat (of_nat (c * j) :: u32) = c * j"
    using assms by (simp_all add: unat_of_nat_less del: of_nat_mult)
  then have "(of_nat (c * i) :: u32) = of_nat (c * j) \<longleftrightarrow> c * i = c * j"
    by (metis of_nat_eq_iff word_eq_unat)
  with assms(3) show ?thesis by simp
qed

lemma init_groups_loop_effect:
  "init_groups_loop os n i (of_nat (28 * i)) p = Inr p' \<Longrightarrow>
    i + n = length (m_McAddrDescr (session p)) \<Longrightarrow> 28 * (i + n) < 2 ^ 32 \<Longrightarrow>
    m_Args (session p) = args \<Longrightarrow>
    \<exists>A. p' = p\<lparr>session := (session p)\<lparr>m_McAddrDescr := take i (m_McAddrDescr (session p))
           @ map (addr_slot (m_McAddrBuffId (session p))) [i..<i + n]\<rparr>, addr_mem := A\<rparr>
      \<and> (\<forall>j < i + n. A (of_nat (28 * j)) =
          (if j < i then group_addr p j else mc_sockaddr os args j))"
proof (induction n arbitrary: i p)
  case 0
  then show ?case by (intro exI [of _ "addr_mem p"]) (simp add: group_addr_def)
next
  case (Suc n)
  let ?s = "session p"
  let ?s1 = "?s\<lparr>m_McAddrDescr := (m_McAddrDescr ?s)[i := addr_slot (m_McAddrBuffId ?s) i]\<rparr>"
  let ?p1 = "p\<lparr>session := ?s1,
    addr_mem := (addr_mem p)(of_nat (28 * i) := mc_sockaddr os args i)\<rparr>"
  have off: "(of_nat (28 * i) :: u32) + ADDR_SIZE = of_nat (28 * (i + 1))"
    by (simp add: ADDR_SIZE_def)
  have slot: "\<lparr>BufferId = m_McAddrBuffId ?s, Offset = of_nat (28 * i), Length = ADDR_SIZE\<rparr> =
      addr_slot (m_McAddrBuffId ?s) i"
    by (simp add: addr_slot_def ADDR_SIZE_def)
  have next_loop: "init_groups_loop os n (i + 1) (of_nat (28 * (i + 1))) ?p1 = Inr p'"
    using Suc.prems(1,4)
    by (auto simp: Let_def slot off mc_sockaddr_def simp del: of_nat_mult split: if_splits option.splits)
  have len: "i + 1 + n = length (m_McAddrDescr (session ?p1))" using Suc.prems(2) by simp
  have small: "28 * (i + 1 + n) < 2 ^ 32" using Suc.prems(3) by simp
  from Suc.IH [OF next_loop len small] Suc.prems(4) obtain A
    where p': "p' = ?p1\<lparr>session := ?s1\<lparr>m_McAddrDescr := take (i + 1) (m_McAddrDescr ?s1)
           @ map (addr_slot (m_McAddrBuffId ?s)) [i + 1..<i + 1 + n]\<rparr>, addr_mem := A\<rparr>"
      and A: "\<And>j. j < i + 1 + n \<Longrightarrow> A (of_nat (28 * j)) =
          (if j < i + 1 then group_addr ?p1 j else mc_sockaddr os args j)"
    by auto
  have old: "group_addr ?p1 j = (if j = i then mc_sockaddr os args i else group_addr p j)"
    if "j < i + 1" for j
    using that Suc.prems(3) of_nat_mult_inj [of 28 j i]
    by (simp add: group_addr_def del: of_nat_mult)
  have "A (of_nat (28 * j)) = (if j < i then group_addr p j else mc_sockaddr os args j)"
    if "j < i + Suc n" for j
    using A [of j] old [of j] that by (cases "j < i"; cases "j = i") auto
  moreover have "take (i + 1) (m_McAddrDescr ?s1) @ map (addr_slot (m_McAddrBuffId ?s)) [i + 1..<i + 1 + n] =
      take i (m_McAddrDescr ?s) @ map (addr_slot (m_McAddrBuffId ?s)) [i..<i + Suc n]"
    using Suc.prems(2) by (simp add: take_Suc_conv_app_nth upt_conv_Cons [of i] del: upt_Suc)
  ultimately show ?case unfolding p' by (intro exI [of _ A]) simp
qed

text \<open>The arguments that \<open>Check\<close> admits: a rate of at least 1, and at most 1000000 sends a second.\<close>

definition rate_ok :: "args_t \<Rightarrow> bool" where
  "rate_ok args \<longleftrightarrow> 1 \<le> PacketRate args \<and> McastAddrStr args \<noteq> []
     \<and> nat (PacketRate args) * length (McastAddrStr args) \<le> 1000000"

lemma rate_bounds:
  assumes "rate_ok args"
  shows "nat (PacketRate args) \<le> 1000000" and "length (McastAddrStr args) \<le> 1000000"
    and "0 < nat (PacketRate args)" and "0 < length (McastAddrStr args)"
proof -
  let ?r = "nat (PacketRate args)" and ?n = "length (McastAddrStr args)"
  show r: "0 < ?r" and n: "0 < ?n" using assms by (auto simp: rate_ok_def)
  have "?r * ?n \<le> 1000000" using assms by (simp add: rate_ok_def)
  moreover have "?r * 1 \<le> ?r * ?n" by (rule mult_le_mono2) (use n in linarith)
  moreover have "1 * ?n \<le> ?r * ?n" by (rule mult_le_mono1) (use r in linarith)
  ultimately show "?r \<le> 1000000" "?n \<le> 1000000" by linarith+
qed

lemma rate_words:
  assumes "rate_ok args"
  defines "rate \<equiv> (word_of_int (PacketRate args) :: u32)"
    and "groups \<equiv> (of_nat (length (McastAddrStr args)) :: u32)"
  shows "unat rate = nat (PacketRate args)" and "unat groups = length (McastAddrStr args)"
    and "unat (rate * groups) = nat (PacketRate args) * length (McastAddrStr args)"
proof -
  note b = rate_bounds [OF assms(1)]
  have "rate = of_nat (nat (PacketRate args))"
    using b(3) by (simp add: rate_def)
  then show r: "unat rate = nat (PacketRate args)"
    using b(1) by (simp add: unat_of_nat_less)
  show n: "unat groups = length (McastAddrStr args)"
    using b(2) by (simp add: groups_def unat_of_nat_less)
  have "nat (PacketRate args) * length (McastAddrStr args) \<le> 1000000"
    using assms(1) by (simp add: rate_ok_def)
  then show "unat (rate * groups) = nat (PacketRate args) * length (McastAddrStr args)"
    by (subst unat_mult_less) (simp_all add: r n)
qed

lemma SendOnInterface_effect:
  "SendOnInterface os a s = Inr s' \<Longrightarrow>
     s' = s\<lparr>calls := calls s @ [SetMulticastIf (m_SocketHandle s) (net_inet_addr os a)]\<rparr>"
  by (auto simp: SendOnInterface_def do_call_def split: if_splits)

lemma producer_new_steps:
  assumes "RioProducer_new os args = Inr p"
  defines "groups \<equiv> (of_nat (length (McastAddrStr args)) :: u32)"
    and "rate \<equiv> (word_of_int (PacketRate args) :: u32)"
  obtains s1 s2 s3 s4 s5 s6 b1 i1 s7 b2 i2 s8
  where "RioSession_new os args = Inr s1"
    and "BindSocket os 0 (IfIndex args) s1 = Inr s2"
    and "SendOnInterface os (IfIndex args) (s2\<lparr>m_MaxOutstandingReceive := 0,
      m_MaxReceiveDataBuffers := 1, m_MaxOutstandingSend := rate * groups, m_MaxSendDataBuffers := 1,
      m_RioBuffDescr := replicate (unat (rate * groups)) zero_buf\<rparr>) = Inr s3"
    and "InitializeRIO os s3 = Inr s4"
    and "CreateCompletionQueue os (m_MaxOutstandingSend s4) s4 = Inr s5"
    and "CreateRequestQueue os s5 = Inr s6"
    and "AllocateAndRegisterBuffer os 100 rate s6 = Inr (b1, i1, s7)"
    and "AllocateAndRegisterBuffer os 28 groups (s7\<lparr>m_RioBuffPtr := b1, m_RioBuffId := i1\<rparr>) = Inr (b2, i2, s8)"
    and "RioProducer_InitMcAddrDescriptors os
       \<lparr>session = s8\<lparr>m_McAddrBuffPtr := b2, m_McAddrBuffId := i2\<rparr>,
        m_SpinDuration = first_pause (PacketRate args),
        m_NumberOfMcGroups = groups, data_mem = (\<lambda>_. zero_header), addr_mem = (\<lambda>_. zero_addr),
        sent = []\<rparr> = Inr p"
  using assms(1)
  by (auto simp: RioProducer_new_def bind_res_eq_Inr Let_def EXPECTED_DATA_SIZE_def ADDR_SIZE_def
      groups_def rate_def split: if_splits)

lemma InitGroups_effect:
  assumes "RioProducer_InitMcAddrDescriptors os p = Inr p'"
    and "m_Args (session p) = args" and "unat (m_NumberOfMcGroups p) \<le> 1000000"
  shows "\<exists>A. p' = p\<lparr>session := (session p)\<lparr>m_McAddrDescr :=
      map (addr_slot (m_McAddrBuffId (session p))) [0..<unat (m_NumberOfMcGroups p)]\<rparr>, addr_mem := A\<rparr>
    \<and> (\<forall>j < unat (m_NumberOfMcGroups p). A (of_nat (28 * j)) = mc_sockaddr os args j)"
  using init_groups_loop_effect [of os "unat (m_NumberOfMcGroups p)" 0
      "p\<lparr>session := (session p)\<lparr>m_McAddrDescr := replicate (unat (m_NumberOfMcGroups p)) zero_buf\<rparr>\<rparr>" p' args]
    assms by (simp add: RioProducer_InitMcAddrDescriptors_def Let_def)

lemma producer_built:
  assumes new: "RioProducer_new os args = Inr p" and ok: "rate_ok args"
  defines "n \<equiv> length (McastAddrStr args)" and "R \<equiv> nat (PacketRate args)"
  shows "unat (m_NumberOfMcGroups p) = n" "unat (m_MaxOutstandingSend (session p)) = R * n"
    "length (m_RioBuffDescr (session p)) = R * n"
    "m_McAddrDescr (session p) = map (addr_slot (m_McAddrBuffId (session p))) [0..<n]"
    "\<And>j. j < n \<Longrightarrow> group_addr p j = mc_sockaddr os args j"
    "m_GroupStats (session p) = InitGroupStats (map ipNetOrder (McastAddrStr args)) []"
    "m_TotalPkts (session p) = 0" "m_Args (session p) = args" "sent p = []"
    "m_SpinDuration p = 1000000000 div PacketRate args"
    "\<exists>io. owns os io (session p)"
    "\<exists>sz1 sz2. RIORegisterBuffer (m_RioBuffPtr (session p)) sz1 \<in> set (calls (session p))
      \<and> RIORegisterBuffer (m_McAddrBuffPtr (session p)) sz2 \<in> set (calls (session p))
      \<and> 100 * R \<le> unat sz1 \<and> 28 * n \<le> unat sz2"
proof -
  let ?rate = "word_of_int (PacketRate args) :: u32" and ?groups = "of_nat n :: u32"
  note w = rate_words [OF ok, folded n_def R_def]
  have n6: "n \<le> 1000000" using rate_bounds(2) [OF ok] by (simp add: n_def)
  from new obtain s1 s2 s3 s4 s5 s6 b1 i1 s7 b2 i2 s8
    where s1: "RioSession_new os args = Inr s1"
      and s2: "BindSocket os 0 (IfIndex args) s1 = Inr s2"
      and s3: "SendOnInterface os (IfIndex args) (s2\<lparr>m_MaxOutstandingReceive := 0,
        m_MaxReceiveDataBuffers := 1, m_MaxOutstandingSend := ?rate * ?groups, m_MaxSendDataBuffers := 1,
        m_RioBuffDescr := replicate (unat (?rate * ?groups)) zero_buf\<rparr>) = Inr s3"
      and s4: "InitializeRIO os s3 = Inr s4"
      and s5: "CreateCompletionQueue os (m_MaxOutstandingSend s4) s4 = Inr s5"
      and s6: "CreateRequestQueue os s5 = Inr s6"
      and s7: "AllocateAndRegisterBuffer os 100 ?rate s6 = Inr (b1, i1, s7)"
      and s8: "AllocateAndRegisterBuffer os 28 ?groups (s7\<lparr>m_RioBuffPtr := b1, m_RioBuffId := i1\<rparr>)
        = Inr (b2, i2, s8)"
      and p: "RioProducer_InitMcAddrDescriptors os
       \<lparr>session = s8\<lparr>m_McAddrBuffPtr := b2, m_McAddrBuffId := i2\<rparr>,
        m_SpinDuration = first_pause (PacketRate args),
        m_NumberOfMcGroups = ?groups, data_mem = (\<lambda>_. zero_header), addr_mem = (\<lambda>_. zero_addr),
        sent = []\<rparr> = Inr p"
    unfolding n_def by (rule producer_new_steps)
  from RioSession_new_effect [OF s1] obtain h io where h1:
    "held os (calls s1) = {#Socket h, Port io#}" "m_SocketHandle s1 = h" "m_Args s1 = args"
    "m_GroupStats s1 = InitGroupStats (map ipNetOrder (McastAddrStr args)) []" "m_TotalPkts s1 = 0"
    by (auto simp: held_def RioSession_uninit_def)
  from BindSocket_effect [OF s2] SendOnInterface_effect [OF s3] InitializeRIO_effect [OF s4] h1
  have h4: "held os (calls s4) = {#Socket h, Port io#}" "m_SocketHandle s4 = h" "m_Args s4 = args"
    "m_GroupStats s4 = InitGroupStats (map ipNetOrder (McastAddrStr args)) []" "m_TotalPkts s4 = 0"
    "m_MaxOutstandingSend s4 = ?rate * ?groups" "length (m_RioBuffDescr s4) = unat (?rate * ?groups)"
    by (auto simp: held_append held_from_neutral)
  from CreateCompletionQueue_effect [OF s5, unfolded Let_def]
    CreateRequestQueue_effect [OF s6, unfolded Let_def] h4
  have h6: "held os (calls s6) = {#Socket h, Port io, Queue (m_CompletionQueue s6)#}"
    "m_SocketHandle s6 = h" "m_Args s6 = args"
    "m_GroupStats s6 = InitGroupStats (map ipNetOrder (McastAddrStr args)) []" "m_TotalPkts s6 = 0"
    "m_MaxOutstandingSend s6 = ?rate * ?groups" "length (m_RioBuffDescr s6) = unat (?rate * ?groups)"
    by (auto simp: held_append)
  from alloc_effect [OF s7] obtain sz1 where z1: "buffer_sizes (alloc_granularity os) 100 ?rate = (sz1, ?rate)"
    and e7: "s7 = s6\<lparr>calls := calls s6 @ [VirtualAlloc sz1, RIORegisterBuffer b1 sz1]\<rparr>"
      "b1 = sys os (calls s6) (VirtualAlloc sz1)"
      "i1 = sys os (calls s6 @ [VirtualAlloc sz1]) (RIORegisterBuffer b1 sz1)"
    and g: "alloc_granularity os \<noteq> 0"
    by blast
  from alloc_effect [OF s8] obtain sz2 where z2: "buffer_sizes (alloc_granularity os) 28 ?groups = (sz2, ?groups)"
    and e8: "s8 = s7\<lparr>m_RioBuffPtr := b1, m_RioBuffId := i1,
        calls := calls s7 @ [VirtualAlloc sz2, RIORegisterBuffer b2 sz2]\<rparr>"
      "b2 = sys os (calls s7) (VirtualAlloc sz2)"
      "i2 = sys os (calls s7 @ [VirtualAlloc sz2]) (RIORegisterBuffer b2 sz2)"
    by auto
  have g32: "unat (alloc_granularity os) < 2 ^ 32"
    using unat_below [of "allocation_granularity os"] by (simp add: alloc_granularity_unat)
  have args8: "m_Args s8 = args" by (simp add: e8 e7 h6)
  obtain A where p': "p = \<lparr>session = s8\<lparr>m_McAddrBuffPtr := b2, m_McAddrBuffId := i2,
        m_McAddrDescr := map (addr_slot i2) [0..<n]\<rparr>,
        m_SpinDuration = first_pause (PacketRate args),
        m_NumberOfMcGroups = ?groups, data_mem = (\<lambda>_. zero_header), addr_mem = A, sent = []\<rparr>"
    and A: "\<forall>j < n. A (of_nat (28 * j)) = mc_sockaddr os args j"
    using InitGroups_effect [OF p, of args] args8 n6 w(2) by auto
  show "unat (m_NumberOfMcGroups p) = n" by (simp add: p' w)
  show "unat (m_MaxOutstandingSend (session p)) = R * n"
    "length (m_RioBuffDescr (session p)) = R * n"
    by (simp_all add: p' e8 e7 h6 w)
  show "m_McAddrDescr (session p) = map (addr_slot (m_McAddrBuffId (session p))) [0..<n]"
    by (simp add: p')
  show "group_addr p j = mc_sockaddr os args j" if "j < n" for j
    using A that by (simp add: group_addr_def p')
  show "m_GroupStats (session p) = InitGroupStats (map ipNetOrder (McastAddrStr args)) []"
    "m_TotalPkts (session p) = 0" "m_Args (session p) = args" "sent p = []"
    by (simp_all add: p' e8 e7 h6)
  have "0 < PacketRate args" using rate_bounds(3) [OF ok] by simp
  moreover have "PacketRate args \<le> 1000000" using rate_bounds(1) [OF ok] by simp
  ultimately show "m_SpinDuration p = 1000000000 div PacketRate args"
    by (simp add: p' first_pause_eq)
  from alloc_effect [OF s7] h6
  have h7: "held os (calls s7) = {#Socket h, Port io, Queue (m_CompletionQueue s7), Memory b1,
      Registration i1#}" "m_CompletionQueue s7 = m_CompletionQueue s6"
    by (auto simp: held_append)
  from alloc_effect [OF s8] h7
  have "held os (calls s8) = {#Socket h, Port io, Queue (m_CompletionQueue s6), Memory b1,
      Registration i1, Memory b2, Registration i2#}"
    by (auto simp: held_append)
  then show "\<exists>io. owns os io (session p)"
    using h6 by (auto simp: owns_def p' e8(1) e7(1))
  show "\<exists>sz1 sz2. RIORegisterBuffer (m_RioBuffPtr (session p)) sz1 \<in> set (calls (session p))
      \<and> RIORegisterBuffer (m_McAddrBuffPtr (session p)) sz2 \<in> set (calls (session p))
      \<and> 100 * R \<le> unat sz1 \<and> 28 * n \<le> unat sz2"
    using buffer_sizes_sound(1) [OF z1 refl _ g g32] buffer_sizes_sound(1) [OF z2 refl _ g g32] w
    by (intro exI [of _ sz1] exI [of _ sz2]) (simp add: p' e8(1) e7(1))
qed

end
