(* ===== verification/Pause_Tuning.thy ===== *)
theory Pause_Tuning
  imports Rio_Producer
begin

text \<open>
  The worker of the producer that tunes the pause between messages
  (\<open>RioProducer::SpinWorker\<close>): the values the pause takes, the direction of a correction,
  and the value it does not leave by moderate corrections.
\<close>

lemma le_quotient:
  fixes a b k :: int
  assumes "0 < b"
  shows "k \<le> a div b \<longleftrightarrow> k * b \<le> a"
proof
  assume "k \<le> a div b"
  then have "k * b \<le> a div b * b" using assms by (intro mult_right_mono) simp_all
  also have "\<dots> \<le> a" using assms by (simp add: minus_mod_eq_div_mult [symmetric])
  finally show "k * b \<le> a" .
next
  assume "k * b \<le> a"
  from zdiv_mono1 [OF this assms] assms show "k \<le> a div b" by simp
qed

lemma threshold_pos: "1 \<le> DeltaThreashold rate groups"
proof -
  have "1 \<le> max ((rate * groups) div 2000) (1 :: u32)" by simp
  then have "uint (1 :: u32) \<le> uint (max ((rate * groups) div 2000) (1 :: u32))"
    by (simp only: word_le_def)
  then show ?thesis by (simp add: DeltaThreashold_def)
qed

lemma trunc_div_pos: "0 \<le> a \<Longrightarrow> 0 < b \<Longrightarrow> trunc_div a b = a div b"
  by (cases "a = 0") (simp_all add: trunc_div_def)

lemma trunc_div_neg: "a < 0 \<Longrightarrow> 0 < b \<Longrightarrow> trunc_div a b = - (- a div b)"
  by (simp add: trunc_div_def)

lemma tune_cases:
  assumes "1 \<le> D"
  shows "tune D pd d =
    (if pd > D then (let v = (if d > 0 then d + pd div D * 10 else d) in if v < 1000 then 100 else v)
     else if pd < - D then (let v = d - (- pd div D) * 10 in if v < 1000 then 100 else v)
     else d)"
  using assms by (auto simp: tune_def Let_def trunc_div_pos trunc_div_neg)

text \<open>
  A correction goes in the right direction. With a threshold of at least 1: a pause of at
  least 1000 ns becomes longer when the surplus of packets is above the threshold, and
  becomes shorter (or the minimum) when the deficit is; within the threshold it stays.
\<close>

theorem tune_direction:
  assumes "1 \<le> D" and "1000 \<le> d"
  shows "(D < pd \<longrightarrow> tune D pd d = d + 10 * (pd div D) \<and> d < tune D pd d)
    \<and> (pd < - D \<longrightarrow> tune D pd d < d \<and> (tune D pd d = 100 \<or> tune D pd d = d - 10 * (- pd div D)))
    \<and> (- D \<le> pd \<and> pd \<le> D \<longrightarrow> tune D pd d = d)"
proof -
  have up: "1 \<le> pd div D" if "D < pd" using that assms(1) by (simp add: le_quotient)
  have down: "1 \<le> - pd div D" if "pd < - D" using that assms(1) by (simp add: le_quotient)
  show ?thesis
    using assms up down by (auto simp: tune_cases Let_def)
qed

theorem tune_direction_witness:
  "tune 50 120 2000 = 2020 \<and> tune 50 (- 120) 2000 < 2000 \<and> tune 50 40 2000 = 2000"
  using tune_direction [of 50 2000 120] tune_direction [of 50 2000 "- 120"] tune_direction [of 50 2000 40]
  by auto

text \<open>The pause over a run of the worker, one reading of clock and counter for each round.\<close>

fun spin_run ::
    "u32 \<Rightarrow> u32 \<Rightarrow> (u64 \<times> u64 \<times> (u32 \<times> u32 \<times> u32) \<times> u32 \<times> u32) list \<Rightarrow> SpinState \<times> int \<Rightarrow> SpinState \<times> int" where
  "spin_run rate groups [] st = st"
| "spin_run rate groups ((Now, reportNow, reads, n, n') # ticks) st =
     spin_run rate groups ticks (snd (SpinWorker_step rate groups Now reportNow reads n n' st))"

lemma step_pause:
  "snd (snd (SpinWorker_step rate groups Now reportNow reads n n' (w, d))) = d
   \<or> (\<exists>pd. snd (snd (SpinWorker_step rate groups Now reportNow reads n n' (w, d))) =
        tune (DeltaThreashold rate groups) pd d)"
  by (auto simp: SpinWorker_step_def Let_def split: prod.splits)

lemma tune_values: "1 \<le> D \<Longrightarrow> tune D pd d = d \<or> tune D pd d = 100 \<or> 1000 \<le> tune D pd d"
  by (auto simp: tune_cases Let_def)

text \<open>
  C39: The pause stays sane. For every rate that \<open>Check\<close> admits, the pause the constructor
  computes is at least 1000 ns, and after any run of the worker it is 100 ns or at least
  1000 ns: it never becomes negative, so its conversion to unsigned is exact, and the value
  100 stands for no pause at all.
\<close>

theorem pause_values:
  assumes "rate_ok args"
  shows "1000 \<le> 1000000000 div PacketRate args
    \<and> (let d = snd (spin_run rate groups ticks (w, 1000000000 div PacketRate args))
       in d = 100 \<or> 1000 \<le> d)"
proof -
  have r: "0 < PacketRate args" "PacketRate args \<le> 1000000"
    using rate_bounds(1,3) [OF assms] by auto
  then have start: "1000 \<le> 1000000000 div PacketRate args"
    by (simp add: le_quotient)
  have "d = 100 \<or> 1000 \<le> d \<Longrightarrow>
      snd (spin_run rate groups ticks (w, d)) = 100 \<or> 1000 \<le> snd (spin_run rate groups ticks (w, d))" for d w
  proof (induction ticks arbitrary: w d)
    case (Cons t ticks)
    obtain Now reportNow reads n n' where t: "t = (Now, reportNow, reads, n, n')" by (cases t)
    obtain b w1 d1 where st: "SpinWorker_step rate groups Now reportNow reads n n' (w, d) = (b, w1, d1)"
      by (cases "SpinWorker_step rate groups Now reportNow reads n n' (w, d)") auto
    have "d1 = d \<or> (\<exists>pd. d1 = tune (DeltaThreashold rate groups) pd d)"
      using step_pause [of rate groups Now reportNow reads n n' w d] by (simp add: st)
    then have "d1 = 100 \<or> 1000 \<le> d1"
      using Cons.prems tune_values [OF threshold_pos] by metis
    from Cons.IH [OF this] show ?case by (simp add: t st)
  qed simp
  with start show ?thesis by (simp add: Let_def)
qed

theorem pause_values_witness:
  "snd (spin_run 1 1 [(200000000, 0, (0, 0, 0), 50, 50)] (SpinWorker_init 0 0, 1000000000)) = 1000000500
   \<and> (let d = snd (spin_run 1 1 [(200000000, 0, (0, 0, 0), 50, 50)] (SpinWorker_init 0 0, 1000000000))
      in d = 100 \<or> 1000 \<le> d)"
proof -
  have ok: "rate_ok ref_args" by (simp add: rate_ok_def ref_args_def)
  have "snd (spin_run 1 1 [(200000000, 0, (0, 0, 0), 50, 50)] (SpinWorker_init 0 0, 1000000000)) = 1000000500"
    by (simp add: SpinWorker_step_def SpinWorker_init_def Let_def DeltaThreashold_def
        ExpectedPPSDiv10_def tune_def trunc_div_def)
  with pause_values [OF ok, of 1 1 "[(200000000, 0, (0, 0, 0), 50, 50)]" "SpinWorker_init 0 0"] show ?thesis
    by (simp add: ref_args_def)
qed

text \<open>
  The pause can stay at its minimum although the producer is too fast. From 100 ns, a
  surplus above the threshold but below 90 thresholds leaves the pause at 100 ns, because
  every value below 1000 is replaced by 100: for a rate of 100000 packets a second, up to
  14499 instead of 10000 packets in each tenth of a second are never slowed down.
\<close>

theorem pause_stuck_at_minimum:
  assumes "Now \<ge> NextTuningTime w" and "\<not> Now \<ge> NextReportTime w"
    and "uint n - sint (PreviousTuningN w) - ExpectedPPSDiv10 rate groups < 90 * DeltaThreashold rate groups"
  shows "snd (snd (SpinWorker_step rate groups Now reportNow reads n n' (w, 100))) = 100"
proof -
  let ?D = "DeltaThreashold rate groups"
  let ?pd = "uint n - sint (PreviousTuningN w) - ExpectedPPSDiv10 rate groups"
  have D: "1 \<le> ?D" by (rule threshold_pos)
  have "?pd div ?D < 90" using assms(3) D le_quotient [of ?D 90 ?pd] by linarith
  then have up: "100 + ?pd div ?D * 10 < 1000" by linarith
  have down: "100 - (- ?pd div ?D) * 10 < 1000" if "?pd < - ?D"
  proof -
    have "0 \<le> - ?pd div ?D" using that D by (intro pos_imp_zdiv_nonneg_iff [THEN iffD2]) simp_all
    then show ?thesis by linarith
  qed
  show ?thesis
    using assms(1,2) up down by (auto simp: SpinWorker_step_def tune_cases [OF D] Let_def)
qed

theorem pause_stuck_at_minimum_witness:
  "let w = \<lparr>PreviousN = 0, PreviousTuningN = 0, NextReportTime = 1000000000, NextTuningTime = 100000000\<rparr>
   in snd (snd (SpinWorker_step 100000 1 200000000 0 (0, 0, 0) 14499 14499 (w, 100))) = 100"
  using pause_stuck_at_minimum [of "\<lparr>PreviousN = 0, PreviousTuningN = 0, NextReportTime = 1000000000,
      NextTuningTime = 100000000\<rparr>" 200000000 14499 100000 1 0 "(0, 0, 0)" 14499]
  by (simp add: DeltaThreashold_def ExpectedPPSDiv10_def)

section \<open>The printed throughput\<close>

text \<open>
  The throughput the producer prints is right as long as its packet counter has not
  wrapped: it differs from the packets since the last report, divided by the time since then
  (one second and the delay), by at most a \<open>2 ^ -50\<close> part.
\<close>

theorem throughput_accurate:
  fixes n :: u32 and previous late :: u64
  assumes "unat previous \<le> unat n"
  shows "let exact = of_nat (unat n - unat previous) / ((10 ^ 9 + of_nat (unat late)) / 10 ^ 9)
    in 2 ^ 50 * \<bar>throughput n previous late - exact\<bar> \<le> exact"
proof -
  have "unat n < 2 ^ 53" using unat_below [of n] by simp
  then have exact: "double_of n = of_nat (unat n)" "double_of previous = of_nat (unat previous)"
    using assms by (simp_all add: double_of_def fl_nat del: of_nat_unat)
  moreover have "fl (of_nat (unat n - unat previous)) = of_nat (unat n - unat previous)"
    by (rule fl_nat) (use \<open>unat n < 2 ^ 53\<close> in linarith)
  ultimately have delta: "fl (double_of n - double_of previous) = of_nat (unat n - unat previous)"
    using assms by (simp add: of_nat_diff del: of_nat_unat)
  have pos: "0 < (10 ^ 9 + of_nat (unat late)) / (10 ^ 9 :: rat)"
    by (simp add: add_pos_nonneg del: of_nat_unat)
  have "near (Suc 1) (10 ^ 9 + of_nat (unat late)) (fl (10 ^ 9 + double_of late))"
    by (intro near_fl near_add near_double_of) simp
  from near_div [OF this near_refl, of "10 ^ 9"]
  have "near (Suc 1) ((10 ^ 9 + of_nat (unat late)) / 10 ^ 9) (fl (10 ^ 9 + double_of late) / 10 ^ 9)"
    by simp
  then have "near (Suc (0 + Suc (Suc 1)))
      (of_nat (unat n - unat previous) / ((10 ^ 9 + of_nat (unat late)) / 10 ^ 9))
      (throughput n previous late)"
    using near_fl [OF near_div [OF near_refl near_fl pos], of "of_nat (unat n - unat previous)"]
    by (simp add: throughput_def Let_def delta del: of_nat_unat)
  then show ?thesis unfolding Let_def by (rule near_error) simp
qed

theorem throughput_accurate_witness:
  "2 ^ 50 * \<bar>throughput 30000 10000 1000000000 - 10000\<bar> \<le> 10000"
  using throughput_accurate [of 10000 30000 1000000000] by (simp add: Let_def)

text \<open>The packet counter has 32 bits; the report after its wrap shows a negative throughput.\<close>

lemma throughput_after_wrap:
  fixes n :: u32 and previous late :: u64
  assumes "unat n < unat previous" and "unat previous < 2 ^ 32"
  shows "throughput n previous late < 0"
proof -
  define d where "d = unat previous - unat n"
  have "0 < d" using assms(1) by (simp add: d_def)
  then have d: "0 < (of_nat d :: rat)" by simp
  have "double_of n = of_nat (unat n)" "double_of previous = of_nat (unat previous)"
    using assms by (simp_all add: double_of_def fl_nat del: of_nat_unat)
  then have "double_of n - double_of previous = - of_nat d"
    using assms(1) by (simp add: d_def of_nat_diff del: of_nat_unat)
  moreover have "0 < 1000000000 + double_of late"
    using near_nonneg [OF near_double_of, of late] by simp
  ultimately show ?thesis using d by (simp add: throughput_def Let_def fl_minus fl_pos)
qed

section \<open>The pause itself\<close>

text \<open>
  \<open>utilities::spin\<close> (Utilities.hpp) reads the clock until enough time has passed. The list
  holds the readings of the loop; the result tells whether the call has returned by the end
  of it. The elapsed time is compared as an unsigned number.
\<close>

fun spin_loop :: "u64 \<Rightarrow> int \<Rightarrow> int list \<Rightarrow> bool" where
  "spin_loop nano StartTime [] = False"
| "spin_loop nano StartTime (CurrentTime # ts) =
     (let ElapsedTime_ns = (word_of_int (CurrentTime - StartTime) :: u64)
      in if ElapsedTime_ns \<ge> nano then True else spin_loop nano StartTime ts)"

definition spin :: "u64 \<Rightarrow> int \<Rightarrow> int list \<Rightarrow> bool" where
  "spin nano StartTime readings = (if nano \<le> 1000 then True else spin_loop nano StartTime readings)"

lemma spin_loop_iff:
  assumes "\<forall>t\<in>set ts. t0 \<le> t \<and> t - t0 < 2 ^ 63"
  shows "spin_loop nano t0 ts \<longleftrightarrow> (\<exists>t\<in>set ts. t0 + uint nano \<le> t)"
  using assms
proof (induction ts)
  case (Cons t ts)
  have "uint (word_of_int (t - t0) :: u64) = t - t0"
    unfolding uint_word_of_int using Cons.prems by (intro mod_pos_pos_trivial) auto
  then have "(word_of_int (t - t0) :: u64) \<ge> nano \<longleftrightarrow> t0 + uint nano \<le> t"
    by (auto simp: word_le_def)
  with Cons show ?case by (auto simp: Let_def)
qed simp

text \<open>
  A pause of more than a microsecond lasts at least as long as asked for and ends at the
  first reading of the clock after that; a pause of up to 1000 nanoseconds is no pause at
  all. So the least value the tuning sets, 100, sends without any pause.
\<close>

theorem spin_pauses:
  assumes "\<forall>t\<in>set readings. t0 \<le> t \<and> t - t0 < 2 ^ 63"
  shows "(1000 < nano \<longrightarrow>
      (spin nano t0 readings \<longleftrightarrow> (\<exists>t\<in>set readings. t0 + uint nano \<le> t)))
    \<and> (nano \<le> 1000 \<longrightarrow> spin nano t0 [])"
  using spin_loop_iff [OF assms] by (auto simp: spin_def)

theorem spin_pauses_witness:
  "spin 5000 7 [100, 4000, 5007] \<and> \<not> spin 5000 7 [100, 4000, 5006] \<and> spin 100 7 []"
  using spin_pauses [of "[100, 4000, 5007]" 7 5000] spin_pauses [of "[100, 4000, 5006]" 7 5000]
    spin_pauses [of "[]" 7 100]
  by simp

end
