(* ===== verification/Helper_Bodies.thy ===== *)
theory Helper_Bodies
  imports Report_Worker Pause_Tuning
begin

text \<open>
  The helper threads as a whole: the loop under \<open>ShouldStop\<close> with its body, for the report
  thread of the consumer (\<open>ReportWorker\<close>) and the tuning thread of the producer
  (\<open>SpinWorker\<close>). The theories \<open>Report_Worker\<close> and \<open>Pause_Tuning\<close> hold the bodies; here
  they run for the passes that \<open>ShouldStop\<close> lets them run, and the loop ends when the
  skeleton \<open>worker_loop\<close> does, which is what \<open>JoinThread\<close> waits for.
\<close>

section \<open>The loop with a body\<close>

text \<open>A pass: the exit signal and the clock as \<open>ShouldStop\<close> reads them, and what the body reads.\<close>

fun helper_loop ::
    "('x \<Rightarrow> 'st \<Rightarrow> 'st) \<Rightarrow> (int \<times> int \<times> 'x) list \<Rightarrow> RioSession \<times> 'st \<Rightarrow> bool \<times> RioSession \<times> 'st" where
  "helper_loop body [] (s, st) = (False, s, st)"
| "helper_loop body ((exitSignal, now, x) # ps) (s, st) =
     (let (go, s) = ShouldStop exitSignal now s
      in if go then helper_loop body ps (s, body x st) else (True, s, st))"

definition ReportWorker_thread ::
    "(int \<times> int \<times> u64 \<times> McGroupStatsMap) list \<Rightarrow> RioSession \<Rightarrow> bool \<times> RioSession \<times> ReportState \<times> report_line list"
  where
  "ReportWorker_thread ps s =
     helper_loop (\<lambda>(now, groups) (st, out). let (st, new) = ReportWorker_step now groups st in (st, out @ new))
       ps (s, ReportState_init, [])"

text \<open>
  The readings of one pass of \<open>SpinWorker\<close>: the clock after the sleep, the clock after a
  report, the three readings of the counter for the report, and the two of the tuning. The
  state also holds the pause and what was printed.
\<close>

definition SpinWorker_thread ::
    "u32 \<Rightarrow> u32 \<Rightarrow> u64 \<Rightarrow> u64 \<Rightarrow> (int \<times> int \<times> u64 \<times> u64 \<times> (u32 \<times> u32 \<times> u32) \<times> u32 \<times> u32) list
       \<Rightarrow> RioSession \<times> int \<Rightarrow> bool \<times> RioSession \<times> SpinState \<times> int \<times> (u32 \<times> double) list"
  where
  "SpinWorker_thread rate groups now now' ps sd =
     (let (s, duration) = sd
      in helper_loop
        (\<lambda>(Now, reportNow, reads, n, n') (w, d, out).
           let (report, w, d) = SpinWorker_step rate groups Now reportNow reads n n' (w, d)
           in (w, d, out @ (case report of None \<Rightarrow> [] | Some r \<Rightarrow> [r])))
        ps (s, SpinWorker_init now now', duration, []))"

section \<open>The passes that run\<close>

text \<open>The passes before the first one that is told to end.\<close>

fun passes_run :: "(int \<times> int \<times> 'x) list \<Rightarrow> RioSession \<Rightarrow> 'x list" where
  "passes_run [] s = []"
| "passes_run ((exitSignal, now, x) # ps) s =
     (let (go, s) = ShouldStop exitSignal now s in if go then x # passes_run ps s else [])"

lemma helper_loop_fold:
  "helper_loop body ps (s, st) =
     (let (ended, s') = worker_loop (map (\<lambda>(sig, now, x). (sig, now)) ps) s
      in (ended, s', fold body (passes_run ps s) st))"
proof (induction ps arbitrary: s st)
  case (Cons p ps)
  obtain sig now x where p: "p = (sig, now, x)" by (cases p)
  obtain go s1 where ss: "ShouldStop sig now s = (go, s1)" by fastforce
  show ?case using Cons.IH [of s1] by (cases go) (simp_all add: p ss)
qed simp

lemma fold_report:
  "fold (\<lambda>(now, groups) (st, out). let (st, new) = ReportWorker_step now groups st in (st, out @ new)) xs (st, out)
   = (fst (ReportWorker xs st), out @ snd (ReportWorker xs st))"
proof (induction xs arbitrary: st out)
  case (Cons x xs)
  then show ?case by (cases x) (simp add: case_prod_beta Let_def)
qed simp

lemma fold_spin:
  "\<exists>printed. fold (\<lambda>(Now, reportNow, reads, n, n') (w, d, out).
      let (report, w, d) = SpinWorker_step rate groups Now reportNow reads n n' (w, d)
      in (w, d, out @ (case report of None \<Rightarrow> [] | Some r \<Rightarrow> [r]))) xs (w, d, out)
   = (fst (spin_run rate groups xs (w, d)), snd (spin_run rate groups xs (w, d)), out @ printed)"
proof (induction xs arbitrary: w d out)
  case (Cons x xs)
  obtain Now reportNow reads n n' where x: "x = (Now, reportNow, reads, n, n')" by (cases x)
  obtain report w1 d1 where s: "SpinWorker_step rate groups Now reportNow reads n n' (w, d) = (report, w1, d1)"
    by (cases "SpinWorker_step rate groups Now reportNow reads n n' (w, d)") auto
  from Cons.IH [of w1 d1 "out @ (case report of None \<Rightarrow> [] | Some r \<Rightarrow> [r])"] show ?case
    by (auto simp: x s)
qed simp

section \<open>Properties\<close>

text \<open>
  The threads do what their bodies do, as long as \<open>ShouldStop\<close> lets them: the report thread
  prints the lines of \<open>ReportWorker\<close> for the passes before the first that is told to end,
  the tuning thread leaves the pause of \<open>spin_run\<close> for them; each ends exactly when the loop
  that \<open>JoinThread\<close> waits for does, and leaves the session as that loop does.
\<close>

theorem helper_threads_refine:
  "(case ReportWorker_thread ps s of (ended, s', st, out) \<Rightarrow>
      worker_loop (map (\<lambda>(sig, now, x). (sig, now)) ps) s = (ended, s')
      \<and> ReportWorker (passes_run ps s) ReportState_init = (st, out))
   \<and> (case SpinWorker_thread rate groups t t' qs (s, d) of (ended, s', w, d', printed) \<Rightarrow>
      worker_loop (map (\<lambda>(sig, now, x). (sig, now)) qs) s = (ended, s')
      \<and> spin_run rate groups (passes_run qs s) (SpinWorker_init t t', d) = (w, d'))"
proof -
  obtain printed where spin: "fold (\<lambda>(Now, reportNow, reads, n, n') (w, d, out).
      let (report, w, d) = SpinWorker_step rate groups Now reportNow reads n n' (w, d)
      in (w, d, out @ (case report of None \<Rightarrow> [] | Some r \<Rightarrow> [r]))) (passes_run qs s) (SpinWorker_init t t', d, [])
    = (fst (spin_run rate groups (passes_run qs s) (SpinWorker_init t t', d)),
       snd (spin_run rate groups (passes_run qs s) (SpinWorker_init t t', d)), printed)"
    using fold_spin [of rate groups "passes_run qs s" "SpinWorker_init t t'" d "[]"] by auto
  show ?thesis
    unfolding ReportWorker_thread_def SpinWorker_thread_def Let_def
    by (simp add: helper_loop_fold fold_report [unfolded Let_def] spin [unfolded Let_def]
        split: prod.splits)
qed

end
