(* ===== verification/Loss_Accounting.thy ===== *)
theory Loss_Accounting
  imports Group_Stats
begin

text \<open>
  What the consumer's per-group counters mean. The abstract view of a stream of sequence
  numbers is the list itself: the next number expected is one past the largest seen, the
  missing ones are the gaps between the first and the largest, a late arrival is a packet
  that does not exceed an earlier one. The theorems relate the four counters that
  \<open>RioConsumer::GroupStatsUpdate\<close> keeps to that view.
\<close>

section \<open>Abstract view of a stream\<close>

definition next_expected :: "u64 list \<Rightarrow> nat" where
  "next_expected ss = (if ss = [] then 0 else Suc (Max (unat ` set ss)))"

definition missing_seqs :: "u64 list \<Rightarrow> nat set" where
  "missing_seqs ss =
     (if ss = [] then {} else {unat (hd ss)..<next_expected ss} - unat ` set ss)"

definition late_arrivals :: "u64 list \<Rightarrow> nat" where
  "late_arrivals ss = length (filter (\<lambda>i. \<exists>j<i. ss ! i \<le> ss ! j) [0..<length ss])"

lemma late_arrivals_Nil [simp]: "late_arrivals [] = 0"
  by (simp add: late_arrivals_def)

lemma late_arrivals_snoc [simp]:
  "late_arrivals (ss @ [x]) = late_arrivals ss + (if \<exists>y\<in>set ss. x \<le> y then 1 else 0)"
proof -
  let ?late = "\<lambda>zs i. \<exists>j<i. zs ! i \<le> zs ! j"
  have "filter (?late (ss @ [x])) [0..<length ss] = filter (?late ss) [0..<length ss]"
    by (rule filter_cong [OF refl]) (auto simp only: nth_append set_upt atLeastLessThan_iff
      if_True less_trans cong: conj_cong split: if_splits)
  moreover have "?late (ss @ [x]) (length ss) \<longleftrightarrow> (\<exists>y\<in>set ss. x \<le> y)"
    by (simp only: nth_append_length) (metis in_set_conv_nth nth_append)
  ultimately show ?thesis by (simp add: late_arrivals_def del: nth_append_length)
qed

lemma next_expected_Nil [simp]: "next_expected [] = 0"
  by (simp add: next_expected_def)

lemma next_expected_snoc: "next_expected (ss @ [x]) = max (next_expected ss) (Suc (unat x))"
  by (simp add: next_expected_def max.commute)

lemma seqs_below_next: "s \<in> set ss \<Longrightarrow> unat s < next_expected ss"
  by (auto simp: next_expected_def less_Suc_eq_le)

lemma below_next_iff_late:
  "unat x < next_expected ss \<longleftrightarrow> (\<exists>y\<in>set ss. x \<le> y)"
proof (cases "ss = []")
  case False
  then have "Max (unat ` set ss) \<in> unat ` set ss"
    by (intro Max_in) auto
  then obtain y where y: "y \<in> set ss" "Max (unat ` set ss) = unat y" by auto
  show ?thesis
  proof
    assume "unat x < next_expected ss"
    with False y show "\<exists>y\<in>set ss. x \<le> y"
      by (auto simp: next_expected_def less_Suc_eq_le word_le_nat_alt)
  next
    assume "\<exists>y\<in>set ss. x \<le> y"
    then show "unat x < next_expected ss"
      using seqs_below_next by (force simp: word_le_nat_alt)
  qed
qed simp

lemma finite_missing [simp]: "finite (missing_seqs ss)"
  by (simp add: missing_seqs_def)

lemma next_expected_bound:
  "\<forall>s\<in>set ss. s \<noteq> - 1 \<Longrightarrow> next_expected ss < 2 ^ 64"
proof (induction ss rule: rev_induct)
  case (snoc x xs)
  then have "Suc (unat x) < 2 ^ 64" using unat_not_max [of x] by simp
  with snoc show ?case by (simp add: next_expected_snoc)
qed simp

text \<open>How the missing set moves when one more packet arrives.\<close>

lemma missing_snoc:
  assumes "ss \<noteq> []"
  shows "missing_seqs (ss @ [x]) =
    (if unat x < next_expected ss then missing_seqs ss - {unat x}
     else missing_seqs ss \<union> {next_expected ss..<unat x})"
proof -
  have h: "unat (hd ss) < next_expected ss"
    using assms by (intro seqs_below_next) simp
  then have h': "unat (hd ss) \<le> k" if "next_expected ss \<le> k" for k
    using that by simp
  have b: "\<forall>s\<in>set ss. unat s < next_expected ss"
    by (simp add: seqs_below_next)
  show ?thesis
  proof (cases "unat x < next_expected ss")
    case True
    then show ?thesis
      using assms by (auto simp: missing_seqs_def next_expected_snoc max_def)
  next
    case False
    then show ?thesis
      using assms h' b by (auto simp: missing_seqs_def next_expected_snoc max_def)
  qed
qed

section \<open>The counters\<close>

lemma word64_bound: "unat (x :: u64) < 2 ^ 64"
  using unat_below [of x] by simp

lemma run_expected:
  "\<forall>s\<in>set ss. s \<noteq> - 1 \<Longrightarrow> unat (ExpectedSequence (consumer_run n ss)) = next_expected ss"
proof (induction ss rule: rev_induct)
  case (snoc x xs)
  then have "unat (x + 1) = Suc (unat x)"
    by (intro unat_plus_one) (use unat_not_max [of x] in simp)
  with snoc show ?case
    by (auto simp: stats_simps next_expected_snoc word_le_nat_alt max_def)
qed simp

lemma run_packets: "Packets (consumer_run n ss) = of_nat (length ss)"
  by (induction ss rule: rev_induct) (simp_all add: stats_simps)

lemma run_packets_unat:
  "length ss < 2 ^ 64 \<Longrightarrow> unat (Packets (consumer_run n ss)) = length ss"
  by (simp add: run_packets unat_of_nat_less)

lemma run_ooo:
  "\<forall>s\<in>set ss. s \<noteq> - 1 \<Longrightarrow> length ss < 2 ^ 64 \<Longrightarrow>
     unat (OutOfOrder (consumer_run n ss)) = late_arrivals ss"
proof (induction ss rule: rev_induct)
  case (snoc x xs)
  have le: "late_arrivals xs \<le> length xs"
    by (simp add: late_arrivals_def order.trans [OF length_filter_le])
  have "ExpectedSequence (consumer_run n xs) \<le> x \<longleftrightarrow> \<not> (\<exists>y\<in>set xs. x \<le> y)"
    using snoc.prems below_next_iff_late [of x xs] run_expected [of xs n]
    by (simp add: word_le_nat_alt not_less [symmetric])
  with snoc le show ?case
    by (auto simp: stats_simps unat_plus_one)
qed simp

text \<open>
  One step of the loss counter, read as natural numbers, once a packet has been counted
  and while the counter stays below the next expected number.
\<close>

lemma dropped_step:
  assumes "Packets g \<noteq> 0" and le: "unat (RxDropped g) \<le> unat (ExpectedSequence g)"
  shows "unat (RxDropped (consumer_update n x g)) =
    (if unat (ExpectedSequence g) \<le> unat x
     then unat (RxDropped g) + (unat x - unat (ExpectedSequence g))
     else unat (RxDropped g) - 1)"
proof (cases "ExpectedSequence g \<le> x")
  case True
  then have "unat (RxDropped g) + unat (x - ExpectedSequence g) < 2 ^ 64"
    using le word64_bound [of x] by (simp add: unat_diff_le word_le_nat_alt)
  with True assms(1) show ?thesis
    by (cases "x = ExpectedSequence g")
       (auto simp: stats_simps unat_add_less unat_diff_le word_to_nat)
next
  case False
  show ?thesis
  proof (cases "RxDropped g = 0")
    case False
    then have "unat (RxDropped g - 1) = unat (RxDropped g) - 1"
      by (simp add: unat_minus_one)
    with \<open>\<not> ExpectedSequence g \<le> x\<close> False show ?thesis
      by (auto simp: stats_simps word_to_nat)
  qed (use \<open>\<not> ExpectedSequence g \<le> x\<close> in \<open>auto simp: stats_simps word_to_nat\<close>)
qed

lemma dropped_first: "RxDropped (consumer_run n [x]) = 0"
  by (simp add: consumer_run_def stats_simps)

lemma card_missing_le: "card (missing_seqs ss) \<le> next_expected ss"
proof (cases "ss = []")
  case False
  then have "missing_seqs ss \<subseteq> {..<next_expected ss}"
    by (auto simp: missing_seqs_def)
  then show ?thesis using card_mono [of "{..<next_expected ss}"] by simp
qed (simp add: missing_seqs_def)

lemma card_missing_snoc:
  assumes "ss \<noteq> []"
  shows "card (missing_seqs (ss @ [x])) =
    (if unat x < next_expected ss
     then card (missing_seqs ss) - (if unat x \<in> missing_seqs ss then 1 else 0)
     else card (missing_seqs ss) + (unat x - next_expected ss))"
proof -
  have "missing_seqs ss \<inter> {next_expected ss..<unat x} = {}"
    by (auto simp: missing_seqs_def)
  then show ?thesis
    by (simp add: missing_snoc [OF assms] card_Un_disjoint)
qed

lemma run_nonzero_packets:
  "ss \<noteq> [] \<Longrightarrow> length ss < 2 ^ 64 \<Longrightarrow> Packets (consumer_run n ss) \<noteq> 0"
  using run_packets_unat [of ss n] by (auto simp: word_eq_unat)

lemma missing_singleton [simp]: "missing_seqs [x] = {}"
  by (auto simp: missing_seqs_def next_expected_def)

lemma run_dropped_le:
  "\<forall>s\<in>set ss. s \<noteq> - 1 \<Longrightarrow> length ss < 2 ^ 64 \<Longrightarrow>
     unat (RxDropped (consumer_run n ss)) \<le> card (missing_seqs ss)"
proof (induction ss rule: rev_induct)
  case (snoc x xs)
  show ?case
  proof (cases "xs = []")
    case True
    then show ?thesis using dropped_first [of n x] by simp
  next
    case False
    let ?g = "consumer_run n xs"
    have ih: "unat (RxDropped ?g) \<le> card (missing_seqs xs)" using snoc by simp
    have e: "unat (ExpectedSequence ?g) = next_expected xs"
      using snoc.prems by (simp add: run_expected)
    have p: "Packets ?g \<noteq> 0" using False snoc.prems by (simp add: run_nonzero_packets)
    have l: "unat (RxDropped ?g) \<le> unat (ExpectedSequence ?g)"
      using ih e card_missing_le [of xs] by simp
    show ?thesis
      using ih by (auto simp: dropped_step [OF p l] e card_missing_snoc [OF False])
  qed
qed simp

lemma run_dropped_eq:
  "distinct ss \<Longrightarrow> \<forall>s\<in>set ss. s \<noteq> - 1 \<and> hd ss \<le> s \<Longrightarrow> length ss < 2 ^ 64 \<Longrightarrow>
     unat (RxDropped (consumer_run n ss)) = card (missing_seqs ss)"
proof (induction ss rule: rev_induct)
  case (snoc x xs)
  show ?case
  proof (cases "xs = []")
    case True
    then show ?thesis using dropped_first [of n x] by simp
  next
    case False
    let ?g = "consumer_run n xs"
    have ih: "unat (RxDropped ?g) = card (missing_seqs xs)" using snoc False by simp
    have e: "unat (ExpectedSequence ?g) = next_expected xs"
      using snoc.prems by (simp add: run_expected)
    have p: "Packets ?g \<noteq> 0" using False snoc.prems by (simp add: run_nonzero_packets)
    have l: "unat (RxDropped ?g) \<le> unat (ExpectedSequence ?g)"
      using ih e card_missing_le [of xs] by simp
    have "unat x < next_expected xs \<Longrightarrow> unat x \<in> missing_seqs xs"
      using snoc.prems False by (auto simp: missing_seqs_def word_le_nat_alt unat_cancel)
    then show ?thesis
      using ih by (auto simp: dropped_step [OF p l] e card_missing_snoc [OF False])
  qed
qed (simp add: missing_seqs_def)

lemma distinct_words_length:
  fixes ss :: "u64 list"
  assumes "distinct ss" and "\<forall>s\<in>set ss. s \<noteq> - 1"
  shows "length ss < 2 ^ 64"
proof -
  have "inj_on unat (set ss)" by (simp add: inj_on_def unat_cancel)
  then have "length ss = card (unat ` set ss)"
    using assms(1) by (simp add: card_image distinct_card)
  also have "\<dots> \<le> card {..<next_expected ss}"
    by (rule card_mono) (auto simp: seqs_below_next)
  finally show ?thesis using next_expected_bound [OF assms(2)] by simp
qed

section \<open>Properties\<close>

text \<open>
  C3: Exact loss accounting. For a group whose packets carry pairwise different sequence
  numbers, none below the first one received (and none equal to the largest 64-bit value,
  after which the expected number would wrap), in any order of arrival and with any gaps:
  the drop counter is exactly the number of sequence numbers between the first and the
  largest received that have not arrived, the out-of-order counter is the number of packets
  that arrived after a larger one, and the expected sequence is one past the largest.
\<close>

theorem loss_accounting_exact:
  assumes "ss \<noteq> []" and "distinct ss" and "\<forall>s\<in>set ss. s \<noteq> - 1 \<and> hd ss \<le> s"
  shows "unat (RxDropped (consumer_run n ss)) = card (missing_seqs ss)
    \<and> unat (OutOfOrder (consumer_run n ss)) = late_arrivals ss
    \<and> unat (ExpectedSequence (consumer_run n ss)) = Suc (Max (unat ` set ss))
    \<and> unat (Packets (consumer_run n ss)) = length ss"
proof -
  have nm: "\<forall>s\<in>set ss. s \<noteq> - 1" using assms(3) by blast
  have len: "length ss < 2 ^ 64" by (rule distinct_words_length [OF assms(2) nm])
  show ?thesis
    using run_dropped_eq [OF assms(2,3) len] run_ooo [OF nm len] run_expected [OF nm]
      run_packets_unat [OF len] assms(1)
    by (simp add: next_expected_def)
qed

theorem loss_accounting_exact_witness:
  "let ss = [3, 4, 9, 6] :: u64 list
   in unat (RxDropped (consumer_run 100 ss)) = card {5, 7, 8 :: nat}
      \<and> unat (OutOfOrder (consumer_run 100 ss)) = 1
      \<and> unat (ExpectedSequence (consumer_run 100 ss)) = 10"
proof -
  have "missing_seqs [3, 4, 9, 6] = {5, 7, 8}"
    by (auto simp: missing_seqs_def next_expected_def)
  moreover have "late_arrivals [3, 4, 9, 6] = 1"
    using late_arrivals_snoc [of "[3, 4, 9]" 6] late_arrivals_snoc [of "[3, 4]" 9]
      late_arrivals_snoc [of "[3]" 4] late_arrivals_snoc [of "[]" 3] by simp
  ultimately show ?thesis
    using loss_accounting_exact [of "[3, 4, 9, 6]" 100] by (simp add: Let_def)
qed

text \<open>
  C22: Losses are never over-reported. For every stream of fewer than \<open>2 ^ 64\<close> packets with
  sequence numbers below \<open>2 ^ 64 - 1\<close>, with duplicates, restarts and any order of arrival, the
  drop counter is at most the number of sequence numbers that are missing between the first
  and the largest received. (After the number \<open>2 ^ 64 - 1\<close> the expected one wraps to 0, and
  the next packet is counted as a gap.)
\<close>

theorem losses_never_overreported:
  assumes "\<forall>s\<in>set ss. s \<noteq> - 1" and "length ss < 2 ^ 64"
  shows "unat (RxDropped (consumer_run n ss)) \<le> card (missing_seqs ss)"
  using assms by (rule run_dropped_le)

theorem losses_never_overreported_witness:
  "unat (RxDropped (consumer_run 100 [7, 9, 9, 2])) \<le> card (missing_seqs [7, 9, 9, 2])"
  by (rule losses_never_overreported) simp_all

text \<open>
  A duplicate hides a loss. The tracker takes every packet below the expected number
  for one it had counted as dropped, so the exact accounting needs the sequence numbers to
  be different: after 0, 2 and a second copy of 2 the packet 1 is missing, yet the drop
  counter is back at zero.
\<close>

theorem duplicate_hides_loss:
  "RxDropped (consumer_run 100 [0, 2]) = 1 \<and> missing_seqs [0, 2, 2] = {1}
   \<and> RxDropped (consumer_run 100 [0, 2, 2]) = 0"
  by (auto simp: consumer_run_def consumer_update_def McGroupStats_init_def
      missing_seqs_def next_expected_def)

end
