(* ===== verification/Rio_Consumer.thy ===== *)
theory Rio_Consumer
  imports Worker_Threads Loss_Accounting
begin

text \<open>
  The receiver (RioConsumer.hpp, RioConsumer.cpp): construction, the posting of the receives
  and the receive loop. What the registered I/O extension delivers is the input of the loop:
  for each round the clock, the exit signal, whether the completion port timed out, and the
  dequeued results, each with the contents of the two receive buffers at the time it is
  processed. Pointers into the descriptor arrays are indices; an access outside an array is
  \<open>Undefined\<close>.
\<close>

section \<open>Construction\<close>

definition JoinGroup :: "os_env \<Rightarrow> u32 \<Rightarrow> u32 \<Rightarrow> RioSession \<Rightarrow> u64 \<times> RioSession" where
  "JoinGroup os grpaddr iaddr s =
     (let (_, s) = do_call os (SetReuseAddr (m_SocketHandle s)) s
      in do_call os (AddMembership (m_SocketHandle s) grpaddr iaddr) s)"

fun JoinGroups :: "os_env \<Rightarrow> Ipv4Addr_t list \<Rightarrow> session_op" where
  "JoinGroups os [] s = Inr s"
| "JoinGroups os (mcAddr # mcastAddrs) s =
     (let (r, s) = JoinGroup os (net_inet_addr os (Ipv4_str (net os) mcAddr))
            (net_inet_addr os (IfIndex (m_Args s))) s
      in if sint r < 0 then Inl (ErrorExit ''setsockopt'') else JoinGroups os mcastAddrs s)"

definition RIO_BUF_zero :: RIO_BUF where
  "RIO_BUF_zero = \<lparr>BufferId = 0, Offset = 0, Length = 0\<rparr>"

text \<open>\<open>InitMcAddrDescriptors\<close>: the loop fills descriptor \<open>i\<close> and advances the offset.\<close>

primrec init_addr_loop :: "nat \<Rightarrow> nat \<Rightarrow> u32 \<Rightarrow> RioSession \<Rightarrow> RioSession" where
  "init_addr_loop 0 i offset s = s"
| "init_addr_loop (Suc n) i offset s =
     init_addr_loop n (i + 1) (offset + ADDR_SIZE)
       (s\<lparr>m_McAddrDescr := (m_McAddrDescr s)[i :=
          \<lparr>BufferId = m_McAddrBuffId s, Offset = offset, Length = ADDR_SIZE\<rparr>]\<rparr>)"

definition RioConsumer_InitMcAddrDescriptors :: "RioSession \<Rightarrow> RioSession" where
  "RioConsumer_InitMcAddrDescriptors s =
     (let s = s\<lparr>m_McAddrDescr := replicate (unat (m_MaxOutstandingReceive s)) RIO_BUF_zero\<rparr>
      in init_addr_loop (unat (m_MaxOutstandingReceive s)) 0 0 s)"

definition RioConsumer_new :: "os_env \<Rightarrow> args_t \<Rightarrow> RioSession result" where
  "RioConsumer_new os args =
     bind_res (RioSession_new os args) (\<lambda>s.
     bind_res (BindSocket os (McastPort args) (IfIndex args) s) (\<lambda>s.
     bind_res (JoinGroups os (McastAddrStr args) s) (\<lambda>s.
     let s = s\<lparr>m_MaxOutstandingReceive := MAX_PENDING_RECVS, m_MaxReceiveDataBuffers := 1,
               m_MaxOutstandingSend := 0, m_MaxSendDataBuffers := 1\<rparr>;
         s = s\<lparr>m_RioBuffDescr := replicate (unat (m_MaxOutstandingReceive s)) RIO_BUF_zero\<rparr>
     in bind_res (InitializeRIO os s) (\<lambda>s.
     bind_res (CreateCompletionQueue os (m_MaxOutstandingReceive s) s) (\<lambda>s.
     bind_res (CreateRequestQueue os s) (\<lambda>s.
     bind_res (AllocateAndRegisterBuffer os EXPECTED_DATA_SIZE (m_MaxOutstandingReceive s) s)
       (\<lambda>(p, i, s). let s = s\<lparr>m_RioBuffPtr := p, m_RioBuffId := i\<rparr> in
     bind_res (AllocateAndRegisterBuffer os ADDR_SIZE (m_MaxOutstandingReceive s) s)
       (\<lambda>(p, i, s). let s = s\<lparr>m_McAddrBuffPtr := p, m_McAddrBuffId := i\<rparr> in
     Inr (RioConsumer_InitMcAddrDescriptors s)))))))))"

section \<open>Receiving\<close>

definition post_recv :: "os_env \<Rightarrow> nat \<Rightarrow> nat \<Rightarrow> session_op" where
  "post_recv os data addr s =
     (if data < length (m_RioBuffDescr s) \<and> addr < length (m_McAddrDescr s) then
        (let (r, s) = do_call os (RIOReceiveEx (m_RequestQueue s) (m_RioBuffDescr s ! data)
               (m_McAddrDescr s ! addr) data) s
         in if r = 0 then Inl (ErrorExit ''RIOReceive'') else Inr s)
      else Inl (Undefined ''descriptor index''))"

primrec first_recvs_loop :: "os_env \<Rightarrow> nat \<Rightarrow> nat \<Rightarrow> u32 \<Rightarrow> session_op" where
  "first_recvs_loop os 0 i offset s = Inr s"
| "first_recvs_loop os (Suc n) i offset s =
     (let s = s\<lparr>m_RioBuffDescr := (m_RioBuffDescr s)[i :=
            \<lparr>BufferId = m_RioBuffId s, Offset = offset, Length = EXPECTED_DATA_SIZE\<rparr>]\<rparr>
      in bind_res (post_recv os i i s)
           (first_recvs_loop os n (i + 1) (offset + EXPECTED_DATA_SIZE)))"

definition PostFirstRecvs :: "os_env \<Rightarrow> u32 \<Rightarrow> session_op" where
  "PostFirstRecvs os totalMessages s = first_recvs_loop os (unat totalMessages) 0 0 s"

text \<open>
  A dequeued result, with the receive buffers as they are when it is processed: what the
  header and the address structure at each offset read as.
\<close>

record RIORESULT =
  BytesTransferred :: u32
  RequestContext :: nat
  data_at :: "u32 \<Rightarrow> ProtocolHeader_t"
  addr_at :: "u32 \<Rightarrow> SOCKADDR_INET"

text \<open>The local variables of \<open>Start\<close> that live across rounds.\<close>

record recv_locals =
  packetCounter :: u64
  otherPacketCounter :: u64
  mcAddrDescrIndex :: u32
  shouldNotify :: bool

type_synonym recv_state = "RioSession \<times> recv_locals"

text \<open>One pass of the inner loop over the dequeued results.\<close>

definition process_result :: "os_env \<Rightarrow> RIORESULT \<Rightarrow> recv_state \<Rightarrow> recv_state result" where
  "process_result os r st =
     (let (s, l) = st;
          s = s\<lparr>m_TotalPkts := m_TotalPkts s + 1\<rparr>
      in if BytesTransferred r = EXPECTED_DATA_SIZE then
           (let l = l\<lparr>packetCounter := packetCounter l + 1\<rparr>;
                nextAddr = unat (mcAddrDescrIndex l mod m_MaxOutstandingReceive s)
            in if m_MaxOutstandingReceive s = 0 then Inl (Undefined ''modulo by zero'')
               else if nextAddr < length (m_McAddrDescr s)
                     \<and> RequestContext r < length (m_RioBuffDescr s) then
                 (let mcastAddr = addr_at r (Offset (m_McAddrDescr s ! nextAddr));
                      pHeader = data_at r (Offset (m_RioBuffDescr s ! RequestContext r));
                      s = s\<lparr>m_GroupStats := RioConsumer_GroupStatsUpdate mcastAddr
                             (ucast EXPECTED_DATA_SIZE) pHeader (m_GroupStats s)\<rparr>
                  in bind_res (post_recv os (RequestContext r) nextAddr s)
                       (\<lambda>s. Inr (s, l\<lparr>mcAddrDescrIndex := mcAddrDescrIndex l + 1\<rparr>)))
               else Inl (Undefined ''descriptor index''))
         else Inr (s, l\<lparr>otherPacketCounter := otherPacketCounter l + 1\<rparr>))"

fun process_results :: "os_env \<Rightarrow> RIORESULT list \<Rightarrow> recv_state \<Rightarrow> recv_state result" where
  "process_results os [] st = Inr st"
| "process_results os (r # rs) st = bind_res (process_result os r st) (process_results os rs)"

text \<open>
  The inputs of one round: the exit signal and the clock as \<open>ShouldStop\<close> reads them, whether
  \<open>GetQueuedCompletionStatus\<close> returned before its timeout, the dequeued results (\<open>None\<close> for
  \<open>RIO_CORRUPT_CQ\<close>), and the clock at the restart of the timing.
\<close>

record recv_round =
  rd_signal :: int
  rd_now :: int
  rd_completed :: bool
  rd_results :: "RIORESULT list option"
  rd_start :: int

text \<open>The dequeued results of one round; the batch is left alone when it is empty or corrupt.\<close>

definition recv_batch :: "os_env \<Rightarrow> recv_round \<Rightarrow> recv_state \<Rightarrow> recv_state result" where
  "recv_batch os rd st =
     (let (s, l) = st;
          results = (case rd_results rd of None \<Rightarrow> [] | Some results \<Rightarrow> results)
      in if results = [] then Inr (s, l)
         else
           (let s = (if m_TotalPkts s = 0
                then s\<lparr>m_Timing := setStart (rd_start rd) (m_Timing s)\<rparr> else s)
            in bind_res (process_results os results (s, l))
                 (\<lambda>(s, l). Inr (s, l\<lparr>shouldNotify := True\<rparr>))))"

text \<open>One round of the outer loop; the flag tells whether the loop ended.\<close>

definition recv_step :: "os_env \<Rightarrow> recv_round \<Rightarrow> recv_state \<Rightarrow> (bool \<times> recv_state) result" where
  "recv_step os rd st =
     (let (s, l) = st;
          (go, s) = ShouldStop (rd_signal rd) (rd_now rd) s
      in if \<not> go then Inr (True, s, l)
         else
           bind_res (if shouldNotify l then NotifyCompletionQueue os s else Inr s) (\<lambda>s.
             let l = (if rd_completed rd then l else l\<lparr>shouldNotify := False\<rparr>)
             in bind_res (recv_batch os rd (s, l)) (\<lambda>st. Inr (False, st))))"

text \<open>
  The outer loop over a list of rounds. The flag of the result is false when the list ends
  before the loop does, that is, when the receiver is still running.
\<close>

fun recv_loop :: "os_env \<Rightarrow> recv_round list \<Rightarrow> recv_state \<Rightarrow> (bool \<times> recv_state) result" where
  "recv_loop os [] st = Inr (False, st)"
| "recv_loop os (rd # rds) st =
     bind_res (recv_step os rd st) (\<lambda>(ended, st).
       if ended then Inr (True, st) else recv_loop os rds st)"

definition recv_locals_init :: recv_locals where
  "recv_locals_init = \<lparr>packetCounter = 0, otherPacketCounter = 0, mcAddrDescrIndex = 0,
     shouldNotify = True\<rparr>"

text \<open>
  \<open>Start\<close>: the timing starts, the receives are posted, the loop runs, the report thread is
  joined, and the two final reports are printed. \<open>None\<close> stands for a receiver that is still
  running at the end of the list of rounds. The report thread reads the statistics and sets
  the stop time, which the main loop sets itself before each use; so its passes matter from
  the end of the loop on (\<open>th\<close>): the last of them sets the stop time that \<open>PrintTimings\<close> uses.
\<close>

definition RioConsumer_Start ::
    "os_env \<Rightarrow> int \<Rightarrow> recv_round list \<Rightarrow> (int \<times> int) list \<Rightarrow> RioSession \<Rightarrow>
       (RioSession \<times> ((u64 \<times> u64 \<times> u64 \<times> double option) \<times>
          (string \<times> u64 \<times> u64 \<times> u64 \<times> u64 \<times> u64) list \<times> (u64 \<times> u64 \<times> u64 \<times> u64)) option) result"
  where
  "RioConsumer_Start os startNow rds th s =
     (let s = s\<lparr>m_Timing := setStart startNow (m_Timing s)\<rparr>;
          m_ReportThread = make_thread th
      in bind_res (PostFirstRecvs os (m_MaxOutstandingReceive s) s) (\<lambda>s.
         bind_res (recv_loop os rds (s, recv_locals_init)) (\<lambda>(ended, s, l).
           if ended then
             bind_res (JoinThread m_ReportThread s) (\<lambda>(m_ReportThread, s).
               Inr (s, Some (PrintTimings (packetCounter l) (otherPacketCounter l) s,
                             RioConsumer_GroupStatsPrint (inet_ntop4 (net os)) (m_GroupStats s))))
           else Inr (s, None))))"

section \<open>What construction leaves\<close>

lemma init_addr_loop_eq:
  "i + n \<le> length (m_McAddrDescr s) \<Longrightarrow> init_addr_loop n i (of_nat (28 * i)) s =
    s\<lparr>m_McAddrDescr := take i (m_McAddrDescr s) @ map (addr_slot (m_McAddrBuffId s)) [i..<i + n]
        @ drop (i + n) (m_McAddrDescr s)\<rparr>"
proof (induction n arbitrary: i s)
  case (Suc n)
  let ?s = "s\<lparr>m_McAddrDescr := (m_McAddrDescr s)[i := addr_slot (m_McAddrBuffId s) i]\<rparr>"
  have off: "(of_nat (28 * i) :: u32) + ADDR_SIZE = of_nat (28 * (i + 1))"
    by (simp add: ADDR_SIZE_def)
  have len: "i + 1 + n \<le> length (m_McAddrDescr ?s)" using Suc.prems by simp
  have slot: "\<lparr>BufferId = m_McAddrBuffId s, Offset = of_nat (28 * i), Length = ADDR_SIZE\<rparr> =
      addr_slot (m_McAddrBuffId s) i"
    by (simp add: addr_slot_def ADDR_SIZE_def)
  have "init_addr_loop (Suc n) i (of_nat (28 * i)) s =
      init_addr_loop n (i + 1) (of_nat (28 * (i + 1))) ?s"
    by (simp only: init_addr_loop.simps slot off)
  also have "\<dots> = ?s\<lparr>m_McAddrDescr := take (i + 1) (m_McAddrDescr ?s)
      @ map (addr_slot (m_McAddrBuffId ?s)) [i + 1..<i + 1 + n]
      @ drop (i + 1 + n) (m_McAddrDescr ?s)\<rparr>"
    by (rule Suc.IH [OF len])
  finally show ?case
    using Suc.prems by (simp add: take_Suc_conv_app_nth upt_conv_Cons [of i] del: upt_Suc)
qed simp

lemma InitMcAddrDescriptors_eq:
  "RioConsumer_InitMcAddrDescriptors s = s\<lparr>m_McAddrDescr :=
     map (addr_slot (m_McAddrBuffId s)) [0..<unat (m_MaxOutstandingReceive s)]\<rparr>"
  using init_addr_loop_eq [of 0 "unat (m_MaxOutstandingReceive s)"
      "s\<lparr>m_McAddrDescr := replicate (unat (m_MaxOutstandingReceive s)) RIO_BUF_zero\<rparr>"]
  by (simp add: RioConsumer_InitMcAddrDescriptors_def)

lemma post_recv_effect:
  "post_recv os d a s = Inr s' \<longleftrightarrow>
     d < length (m_RioBuffDescr s) \<and> a < length (m_McAddrDescr s)
     \<and> sys os (calls s) (RIOReceiveEx (m_RequestQueue s) (m_RioBuffDescr s ! d)
         (m_McAddrDescr s ! a) d) \<noteq> 0
     \<and> s' = s\<lparr>calls := calls s @ [RIOReceiveEx (m_RequestQueue s) (m_RioBuffDescr s ! d)
         (m_McAddrDescr s ! a) d]\<rparr>"
  by (auto simp: post_recv_def do_call_def)

lemma first_recvs_loop_effect:
  assumes "first_recvs_loop os n i (of_nat (100 * i)) s = Inr s'"
    and "i + n = length (m_RioBuffDescr s)"
  shows "s' = s\<lparr>m_RioBuffDescr := take i (m_RioBuffDescr s)
        @ map (data_slot (m_RioBuffId s)) [i..<i + n],
      calls := calls s @ map (\<lambda>j. RIOReceiveEx (m_RequestQueue s) (data_slot (m_RioBuffId s) j)
        (m_McAddrDescr s ! j) j) [i..<i + n]\<rparr>"
  using assms
proof (induction n arbitrary: i s)
  case (Suc n)
  let ?d = "data_slot (m_RioBuffId s) i"
  let ?c = "RIOReceiveEx (m_RequestQueue s) ?d (m_McAddrDescr s ! i) i"
  let ?s = "s\<lparr>m_RioBuffDescr := (m_RioBuffDescr s)[i := ?d], calls := calls s @ [?c]\<rparr>"
  have off: "(of_nat (100 * i) :: u32) + EXPECTED_DATA_SIZE = of_nat (100 * (i + 1))"
    by (simp add: EXPECTED_DATA_SIZE_def)
  have slot: "\<lparr>BufferId = m_RioBuffId s, Offset = of_nat (100 * i), Length = EXPECTED_DATA_SIZE\<rparr> = ?d"
    by (simp add: data_slot_def EXPECTED_DATA_SIZE_def)
  have lt: "i < length (m_RioBuffDescr s)" using Suc.prems(2) by simp
  have "first_recvs_loop os n (i + 1) (of_nat (100 * (i + 1))) ?s = Inr s'"
    using Suc.prems(1) lt
    by (auto simp: slot Let_def bind_res_eq_Inr post_recv_effect EXPECTED_DATA_SIZE_def
        data_slot_def algebra_simps)
  from Suc.IH [OF this] Suc.prems(2) show ?case
    by (simp add: take_Suc_conv_app_nth upt_conv_Cons [of i] del: upt_Suc)
qed simp

lemma PostFirstRecvs_effect:
  assumes "PostFirstRecvs os n s = Inr s'" and "unat n = length (m_RioBuffDescr s)"
  shows "s' = s\<lparr>m_RioBuffDescr := map (data_slot (m_RioBuffId s)) [0..<unat n],
      calls := calls s @ map (\<lambda>j. RIOReceiveEx (m_RequestQueue s) (data_slot (m_RioBuffId s) j)
        (m_McAddrDescr s ! j) j) [0..<unat n]\<rparr>"
  using first_recvs_loop_effect [of os "unat n" 0 s s'] assms by (simp add: PostFirstRecvs_def)

lemma JoinGroups_effect:
  "JoinGroups os gs s = Inr s' \<Longrightarrow>
     s' = s\<lparr>calls := calls s @ concat (map (\<lambda>g. [SetReuseAddr (m_SocketHandle s),
       AddMembership (m_SocketHandle s) (net_inet_addr os (Ipv4_str (net os) g))
         (net_inet_addr os (IfIndex (m_Args s)))]) gs)\<rparr>"
proof (induction gs arbitrary: s)
  case (Cons g gs)
  let ?s = "s\<lparr>calls := calls s @ [SetReuseAddr (m_SocketHandle s),
      AddMembership (m_SocketHandle s) (net_inet_addr os (Ipv4_str (net os) g))
        (net_inet_addr os (IfIndex (m_Args s)))]\<rparr>"
  have "JoinGroups os gs ?s = Inr s'"
    using Cons.prems by (auto simp: JoinGroup_def do_call_def Let_def split: if_splits)
  from Cons.IH [OF this] show ?case by simp
qed simp

text \<open>The calls a successful construction makes, given the values they returned.\<close>

definition consumer_calls ::
    "os_env \<Rightarrow> args_t \<Rightarrow> u64 \<Rightarrow> u32 \<Rightarrow> u64 \<Rightarrow> u64 \<Rightarrow> u32 \<Rightarrow> u64 \<Rightarrow> u32 \<Rightarrow> u64 \<Rightarrow> syscall list" where
  "consumer_calls os args h ip io cq sz1 p1 sz2 p2 =
     [WSASocket WSA_FLAG_REGISTERED_IO, CreateIoCompletionPort,
      Bind h ip (net_htons os (McastPort args))]
     @ concat (map (\<lambda>g. [SetReuseAddr h,
         AddMembership h (net_inet_addr os (Ipv4_str (net os) g))
           (net_inet_addr os (IfIndex args))]) (McastAddrStr args))
     @ [WSAIoctl h, RIOCreateCompletionQueue 1500000 io,
        RIOCreateRequestQueue h 1500000 1 0 1 cq cq,
        VirtualAlloc sz1, RIORegisterBuffer p1 sz1, VirtualAlloc sz2, RIORegisterBuffer p2 sz2]"

lemma consumer_new_steps:
  assumes "RioConsumer_new os args = Inr s"
  obtains s1 s2 s3 s4 s5 s6 p1 i1 s7 p2 i2 s8
    where "RioSession_new os args = Inr s1"
  and "BindSocket os (McastPort args) (IfIndex args) s1 = Inr s2"
  and "JoinGroups os (McastAddrStr args) s2 = Inr s3"
  and "InitializeRIO os (s3\<lparr>m_MaxOutstandingReceive := 1500000,
           m_MaxReceiveDataBuffers := 1, m_MaxOutstandingSend := 0, m_MaxSendDataBuffers := 1,
           m_RioBuffDescr := replicate 1500000 RIO_BUF_zero\<rparr>) = Inr s4"
  and "CreateCompletionQueue os (m_MaxOutstandingReceive s4) s4 = Inr s5"
  and "CreateRequestQueue os s5 = Inr s6"
  and "AllocateAndRegisterBuffer os 100 (m_MaxOutstandingReceive s6) s6 = Inr (p1, i1, s7)"
  and "AllocateAndRegisterBuffer os 28 (m_MaxOutstandingReceive s7)
        (s7\<lparr>m_RioBuffPtr := p1, m_RioBuffId := i1\<rparr>) = Inr (p2, i2, s8)"
  and "s = RioConsumer_InitMcAddrDescriptors (s8\<lparr>m_McAddrBuffPtr := p2, m_McAddrBuffId := i2\<rparr>)"
  using assms
  by (auto simp: RioConsumer_new_def bind_res_eq_Inr Let_def MAX_PENDING_RECVS_def
      EXPECTED_DATA_SIZE_def ADDR_SIZE_def)

lemma consumer_built:
  assumes "RioConsumer_new os args = Inr s"
  shows "\<exists>h ip io sz1 sz2. calls s = consumer_calls os args h ip io (m_CompletionQueue s)
        sz1 (m_RioBuffPtr s) sz2 (m_McAddrBuffPtr s)
    \<and> m_SocketHandle s = h
    \<and> buffer_sizes (alloc_granularity os) 100 1500000 = (sz1, 1500000)
    \<and> buffer_sizes (alloc_granularity os) 28 1500000 = (sz2, 1500000)
    \<and> unat (alloc_granularity os) < 2 ^ 32 \<and> alloc_granularity os \<noteq> 0"
    and "m_MaxOutstandingReceive s = 1500000"
    and "length (m_RioBuffDescr s) = 1500000"
    and "m_McAddrDescr s = map (addr_slot (m_McAddrBuffId s)) [0..<1500000]"
    and "m_GroupStats s = InitGroupStats (map ipNetOrder (McastAddrStr args)) []"
    and "m_TotalPkts s = 0" and "m_Args s = args"
proof -
  from assms obtain s1 s2 s3 s4 s5 s6 p1 i1 s7 p2 i2 s8
    where n: "RioSession_new os args = Inr s1"
      and b: "BindSocket os (McastPort args) (IfIndex args) s1 = Inr s2"
      and j: "JoinGroups os (McastAddrStr args) s2 = Inr s3"
      and r: "InitializeRIO os (s3\<lparr>m_MaxOutstandingReceive := 1500000,
           m_MaxReceiveDataBuffers := 1, m_MaxOutstandingSend := 0, m_MaxSendDataBuffers := 1,
           m_RioBuffDescr := replicate 1500000 RIO_BUF_zero\<rparr>) = Inr s4"
      and c: "CreateCompletionQueue os (m_MaxOutstandingReceive s4) s4 = Inr s5"
      and q: "CreateRequestQueue os s5 = Inr s6"
      and a1: "AllocateAndRegisterBuffer os 100 (m_MaxOutstandingReceive s6) s6 = Inr (p1, i1, s7)"
      and a2: "AllocateAndRegisterBuffer os 28 (m_MaxOutstandingReceive s7)
        (s7\<lparr>m_RioBuffPtr := p1, m_RioBuffId := i1\<rparr>) = Inr (p2, i2, s8)"
      and s: "s = RioConsumer_InitMcAddrDescriptors (s8\<lparr>m_McAddrBuffPtr := p2, m_McAddrBuffId := i2\<rparr>)"
    by (rule consumer_new_steps)
  note eff = RioSession_new_effect [OF n] BindSocket_effect [OF b] JoinGroups_effect [OF j]
    InitializeRIO_effect [OF r] CreateCompletionQueue_effect [OF c, unfolded Let_def]
    CreateRequestQueue_effect [OF q, unfolded Let_def]
  from eff have s6: "m_MaxOutstandingReceive s6 = 1500000" by auto
  from alloc_effect [OF a1] s6 obtain sz1
    where b1: "buffer_sizes (alloc_granularity os) 100 1500000 = (sz1, 1500000)"
      and g: "alloc_granularity os \<noteq> 0"
      and s7: "s7 = s6\<lparr>calls := calls s6 @ [VirtualAlloc sz1, RIORegisterBuffer p1 sz1]\<rparr>"
    by auto
  from alloc_effect [OF a2] s6 s7 obtain sz2
    where b2: "buffer_sizes (alloc_granularity os) 28 1500000 = (sz2, 1500000)"
      and s8: "s8 = s7\<lparr>m_RioBuffPtr := p1, m_RioBuffId := i1,
        calls := calls s7 @ [VirtualAlloc sz2, RIORegisterBuffer p2 sz2]\<rparr>"
    by auto
  have g32: "unat (alloc_granularity os) < 2 ^ 32"
    using unat_below [of "allocation_granularity os"] by (simp add: alloc_granularity_unat)
  note sdef = s s8 s7 InitMcAddrDescriptors_eq
  show "\<exists>h ip io sz1 sz2. calls s = consumer_calls os args h ip io (m_CompletionQueue s)
        sz1 (m_RioBuffPtr s) sz2 (m_McAddrBuffPtr s)
    \<and> m_SocketHandle s = h
    \<and> buffer_sizes (alloc_granularity os) 100 1500000 = (sz1, 1500000)
    \<and> buffer_sizes (alloc_granularity os) 28 1500000 = (sz2, 1500000)
    \<and> unat (alloc_granularity os) < 2 ^ 32 \<and> alloc_granularity os \<noteq> 0"
    using eff g g32 b1 b2
    by (auto simp: sdef consumer_calls_def RioSession_uninit_def)
  show "m_MaxOutstandingReceive s = 1500000" "length (m_RioBuffDescr s) = 1500000"
    "m_McAddrDescr s = map (addr_slot (m_McAddrBuffId s)) [0..<1500000]"
    "m_GroupStats s = InitGroupStats (map ipNetOrder (McastAddrStr args)) []"
    "m_TotalPkts s = 0" "m_Args s = args"
    using eff by (auto simp: sdef RioSession_uninit_def)
qed

section \<open>The receives in flight\<close>

text \<open>The receive requests of a trace, in the order they were posted.\<close>

definition posted :: "syscall list \<Rightarrow> (RIO_BUF \<times> RIO_BUF \<times> nat) list" where
  "posted cs = concat (map (\<lambda>c. case c of RIOReceiveEx q d a x \<Rightarrow> [(d, a, x)] | _ \<Rightarrow> []) cs)"

lemma posted_simps [simp]:
  "posted [] = []" "posted (cs @ ds) = posted cs @ posted ds"
  "posted (RIOReceiveEx q d a x # cs) = (d, a, x) # posted cs"
  "posted (RIONotify cq # cs) = posted cs"
  "posted (map (\<lambda>j. RIOReceiveEx q (f j) (g j) (h j)) js) = map (\<lambda>j. (f j, g j, h j)) js"
  by (simp_all add: posted_def comp_def)

lemma posted_consumer_calls: "posted (consumer_calls os args h ip io cq sz1 p1 sz2 p2) = []"
proof -
  have "posted (concat (map (\<lambda>g. [SetReuseAddr h, AddMembership h (f g) i]) gs)) = []" for f i gs
    by (induction gs) (simp_all add: posted_def)
  then show ?thesis by (simp add: consumer_calls_def) (simp add: posted_def)
qed

lemma first_receives:
  assumes "RioConsumer_new os args = Inr s"
    and "PostFirstRecvs os (m_MaxOutstandingReceive s) (s\<lparr>m_Timing := t\<rparr>) = Inr s'"
  shows "s' = s\<lparr>m_Timing := t, m_RioBuffDescr := map (data_slot (m_RioBuffId s)) [0..<1500000],
      calls := calls s @ map (\<lambda>j. RIOReceiveEx (m_RequestQueue s) (data_slot (m_RioBuffId s) j)
        (m_McAddrDescr s ! j) j) [0..<1500000]\<rparr>"
    and "posted (calls s') = map (\<lambda>j. (data_slot (m_RioBuffId s) j,
      addr_slot (m_McAddrBuffId s) j, j)) [0..<1500000]"
proof -
  note built = consumer_built [OF assms(1)]
  show s': "s' = s\<lparr>m_Timing := t, m_RioBuffDescr := map (data_slot (m_RioBuffId s)) [0..<1500000],
      calls := calls s @ map (\<lambda>j. RIOReceiveEx (m_RequestQueue s) (data_slot (m_RioBuffId s) j)
        (m_McAddrDescr s ! j) j) [0..<1500000]\<rparr>"
    using PostFirstRecvs_effect [OF assms(2)] built(2,3) by simp
  have "posted (calls s) = []"
    using built(1) by (auto simp: posted_consumer_calls)
  then show "posted (calls s') = map (\<lambda>j. (data_slot (m_RioBuffId s) j,
      addr_slot (m_McAddrBuffId s) j, j)) [0..<1500000]"
    by (simp add: s' built(4))
qed

lemma slot_offsets:
  assumes "j < 1500000"
  shows "unat (Offset (data_slot i j)) = 100 * j" "unat (Offset (addr_slot i j)) = 28 * j"
  using assms by (simp_all add: data_slot_def addr_slot_def unat_of_nat_less del: of_nat_mult)

text \<open>
  C12: Every posted receive writes inside memory the consumer registered, and no two write to
  the same place. After construction and the first posting, exactly 1500000 receives are in
  flight; the \<open>j\<close>-th uses bytes \<open>100 * j\<close> to \<open>100 * j + 99\<close> of the data buffer and bytes
  \<open>28 * j\<close> to \<open>28 * j + 27\<close> of the address buffer, with descriptor \<open>j\<close> as its context, and
  both ranges lie within the sizes with which the two buffers were registered.
\<close>

theorem receives_in_bounds:
  assumes "RioConsumer_new os args = Inr s"
    and "PostFirstRecvs os (m_MaxOutstandingReceive s) s = Inr s'"
  shows "\<exists>sz1 sz2. RIORegisterBuffer (m_RioBuffPtr s) sz1 \<in> set (calls s)
    \<and> RIORegisterBuffer (m_McAddrBuffPtr s) sz2 \<in> set (calls s)
    \<and> length (posted (calls s')) = 1500000
    \<and> (\<forall>j < 1500000. \<exists>d a. posted (calls s') ! j = (d, a, j)
         \<and> d = m_RioBuffDescr s' ! j \<and> a = m_McAddrDescr s' ! j
         \<and> BufferId d = m_RioBuffId s \<and> BufferId a = m_McAddrBuffId s
         \<and> unat (Offset d) = 100 * j \<and> unat (Length d) = 100 \<and> 100 * j + 100 \<le> unat sz1
         \<and> unat (Offset a) = 28 * j \<and> unat (Length a) = 28 \<and> 28 * j + 28 \<le> unat sz2)"
proof -
  note built = consumer_built [OF assms(1)]
  note first = first_receives [OF assms(1), of "m_Timing s" s', simplified, OF assms(2)]
  from built(1) obtain sz1 sz2
    where reg: "RIORegisterBuffer (m_RioBuffPtr s) sz1 \<in> set (calls s)"
        "RIORegisterBuffer (m_McAddrBuffPtr s) sz2 \<in> set (calls s)"
      and b: "buffer_sizes (alloc_granularity os) 100 1500000 = (sz1, 1500000)"
        "buffer_sizes (alloc_granularity os) 28 1500000 = (sz2, 1500000)"
      and g: "unat (alloc_granularity os) < 2 ^ 32" "alloc_granularity os \<noteq> 0"
    by (auto simp: consumer_calls_def)
  have sz: "150000000 \<le> unat sz1" "42000000 \<le> unat sz2"
    using buffer_sizes_sound(1) [OF b(1) refl _ g(2,1)]
      buffer_sizes_sound(1) [OF b(2) refl _ g(2,1)] by simp_all
  have "\<exists>d a. posted (calls s') ! j = (d, a, j)
         \<and> d = m_RioBuffDescr s' ! j \<and> a = m_McAddrDescr s' ! j
         \<and> BufferId d = m_RioBuffId s \<and> BufferId a = m_McAddrBuffId s
         \<and> unat (Offset d) = 100 * j \<and> unat (Length d) = 100 \<and> 100 * j + 100 \<le> unat sz1
         \<and> unat (Offset a) = 28 * j \<and> unat (Length a) = 28 \<and> 28 * j + 28 \<le> unat sz2"
    if j: "j < 1500000" for j
  proof -
    have "m_RioBuffDescr s' ! j = data_slot (m_RioBuffId s) j"
      "m_McAddrDescr s' ! j = addr_slot (m_McAddrBuffId s) j"
      using j by (simp_all add: first(1) built(4))
    moreover have "posted (calls s') ! j = (data_slot (m_RioBuffId s) j, addr_slot (m_McAddrBuffId s) j, j)"
      using j by (simp add: first(2))
    ultimately show ?thesis
      using slot_offsets [OF j] sz j by (simp add: data_slot_def addr_slot_def)
  qed
  moreover have "length (posted (calls s')) = 1500000" by (simp add: first(2))
  ultimately show ?thesis using reg by blast
qed

context os_up
begin

lemma join_up: "\<exists>s'. JoinGroups os gs s = Inr s'"
proof (induction gs arbitrary: s)
  case (Cons g gs)
  have "\<not> sint (sys os tr (AddMembership h x y)) < 0" for tr h x y
    using call_succeeds [of "AddMembership h x y" tr] by simp
  then show ?case using Cons.IH by (simp add: JoinGroup_def do_call_def Let_def)
qed simp

lemma first_recvs_up:
  "i + n \<le> length (m_RioBuffDescr s) \<Longrightarrow> i + n \<le> length (m_McAddrDescr s) \<Longrightarrow>
     \<exists>s'. first_recvs_loop os n i off s = Inr s'"
proof (induction n arbitrary: i off s)
  case (Suc n)
  let ?d = "\<lparr>BufferId = m_RioBuffId s, Offset = off, Length = EXPECTED_DATA_SIZE\<rparr>"
  let ?c = "RIOReceiveEx (m_RequestQueue s) ?d (m_McAddrDescr s ! i) i"
  let ?s = "s\<lparr>m_RioBuffDescr := (m_RioBuffDescr s)[i := ?d], calls := calls s @ [?c]\<rparr>"
  have "first_recvs_loop os (Suc n) i off s =
      first_recvs_loop os n (i + 1) (off + EXPECTED_DATA_SIZE) ?s"
    using Suc.prems call_succeeds [of ?c "calls s"]
    by (simp add: post_recv_def do_call_def Let_def)
  moreover have "\<exists>s'. first_recvs_loop os n (i + 1) (off + EXPECTED_DATA_SIZE) ?s = Inr s'"
    by (rule Suc.IH) (use Suc.prems in simp_all)
  ultimately show ?case by simp
qed simp

lemma consumer_new_up:
  assumes a: "inet_pton4 (net os) (IfIndex args) = Some ip"
    and g: "allocation_granularity os \<noteq> 0"
      "150000000 + unat (allocation_granularity os) \<le> 2 ^ 32"
  shows "\<exists>s. RioConsumer_new os args = Inr s"
proof -
  have n: "\<exists>s. RioSession_new os args = Inr s"
    using call_succeeds [of "WSASocket WSA_FLAG_REGISTERED_IO" "[]"]
    by (simp add: RioSession_new_def CreateSocket_def do_call_def Let_def RioSession_uninit_def)
  have b: "\<exists>s'. BindSocket os p (IfIndex args) s = Inr s'" for p s
    using a call_succeeds [of "Bind (m_SocketHandle s) ip (net_htons os p)" "calls s"]
      call_succeeds [of "Bind (m_SocketHandle s) 0 (net_htons os p)" "calls s"]
    by (simp add: BindSocket_def do_call_def eq_commute [of SOCKET_ERROR])
  have r: "\<exists>s'. InitializeRIO os s = Inr s'" for s
    using call_succeeds [of "WSAIoctl (m_SocketHandle s)" "calls s"]
    by (simp add: InitializeRIO_def do_call_def)
  have c: "\<exists>s'. CreateCompletionQueue os k s = Inr s'" for k s
    using call_succeeds [of "RIOCreateCompletionQueue k (m_hIOCP s)" "calls s"]
    by (simp add: CreateCompletionQueue_def do_call_def)
  have q: "\<exists>s'. CreateRequestQueue os s = Inr s'" for s
    using call_succeeds [of "RIOCreateRequestQueue (m_SocketHandle s) (m_MaxOutstandingReceive s)
      (m_MaxReceiveDataBuffers s) (m_MaxOutstandingSend s) (m_MaxSendDataBuffers s)
      (m_CompletionQueue s) (m_CompletionQueue s)" "calls s"]
    by (simp add: CreateRequestQueue_def do_call_def)
  obtain s1 where s1: "RioSession_new os args = Inr s1" using n by blast
  obtain s2 where s2: "BindSocket os (McastPort args) (IfIndex args) s1 = Inr s2" using b by blast
  obtain s3 where s3: "JoinGroups os (McastAddrStr args) s2 = Inr s3" using join_up by blast
  let ?s3 = "s3\<lparr>m_MaxOutstandingReceive := 1500000,
     m_MaxReceiveDataBuffers := 1, m_MaxOutstandingSend := 0, m_MaxSendDataBuffers := 1,
     m_RioBuffDescr := replicate 1500000 RIO_BUF_zero\<rparr>"
  obtain s4 where s4: "InitializeRIO os ?s3 = Inr s4" using r by blast
  obtain s5 where s5: "CreateCompletionQueue os (m_MaxOutstandingReceive s4) s4 = Inr s5"
    using c by blast
  obtain s6 where s6: "CreateRequestQueue os s5 = Inr s6" using q by blast
  have m6: "m_MaxOutstandingReceive s6 = 1500000"
    using InitializeRIO_effect [OF s4] CreateCompletionQueue_effect [OF s5]
      CreateRequestQueue_effect [OF s6] by (simp add: Let_def)
  obtain p i s7 where s7: "AllocateAndRegisterBuffer os 100 1500000 s6 = Inr (p, i, s7)"
    using buffer_up [of 100 1500000 s6] g by auto
  have m7: "m_MaxOutstandingReceive s7 = 1500000"
    using alloc_effect [OF s7] m6 by auto
  obtain p' i' s8 where s8: "AllocateAndRegisterBuffer os 28 1500000
      (s7\<lparr>m_RioBuffPtr := p, m_RioBuffId := i\<rparr>) = Inr (p', i', s8)"
    using buffer_up [of 28 1500000 "s7\<lparr>m_RioBuffPtr := p, m_RioBuffId := i\<rparr>"] g by auto
  show ?thesis
    using s1 s2 s3 s4 s5 s6 s7 s8 m6 m7
    by (simp add: RioConsumer_new_def Let_def MAX_PENDING_RECVS_def EXPECTED_DATA_SIZE_def
        ADDR_SIZE_def)
qed

lemma consumer_starts_up:
  assumes "inet_pton4 (net os) (IfIndex args) = Some ip"
    and "allocation_granularity os \<noteq> 0"
    and "150000000 + unat (allocation_granularity os) \<le> 2 ^ 32"
  shows "\<exists>s s'. RioConsumer_new os args = Inr s
    \<and> PostFirstRecvs os (m_MaxOutstandingReceive s) s = Inr s'"
proof -
  obtain s where s: "RioConsumer_new os args = Inr s" using consumer_new_up [OF assms] by blast
  have "\<exists>s'. PostFirstRecvs os (m_MaxOutstandingReceive s) s = Inr s'"
    unfolding PostFirstRecvs_def
    by (rule first_recvs_up) (simp_all add: consumer_built(2,3,4) [OF s])
  with s show ?thesis by blast
qed

end

text \<open>
  The consumer starts. On a system where every call reports success, with an interface
  address that converts and an allocation granularity that leaves room below 4 GB, the
  constructor returns and all the first receives are posted.
\<close>

theorem consumer_starts:
  assumes "\<And>c tr. succeeded c (sys os tr c)"
    and "inet_pton4 (net os) (IfIndex args) = Some ip"
    and "allocation_granularity os \<noteq> 0"
    and "150000000 + unat (allocation_granularity os) \<le> 2 ^ 32"
  shows "\<exists>s s'. RioConsumer_new os args = Inr s
    \<and> PostFirstRecvs os (m_MaxOutstandingReceive s) s = Inr s'
    \<and> length (posted (calls s')) = 1500000"
proof -
  from assms(1) have "os_up os" by unfold_locales
  from os_up.consumer_starts_up [OF this assms(2-4)] obtain s s'
    where "RioConsumer_new os args = Inr s"
      "PostFirstRecvs os (m_MaxOutstandingReceive s) s = Inr s'" by blast
  then show ?thesis
    using first_receives(2) [of os args s "m_Timing s" s'] by auto
qed

theorem consumer_starts_witness:
  "\<exists>s s'. RioConsumer_new ref_os ref_args = Inr s
    \<and> PostFirstRecvs ref_os (m_MaxOutstandingReceive s) s = Inr s'
    \<and> length (posted (calls s')) = 1500000"
  by (rule consumer_starts [OF refos.call_succeeds ref_args_addr]) simp_all

text \<open>The consumer on the reference system, and the state after its first receives.\<close>

lemma ref_consumer:
  "\<exists>s s'. RioConsumer_new ref_os ref_args = Inr s
    \<and> PostFirstRecvs ref_os (m_MaxOutstandingReceive s) s = Inr s'"
  by (rule refos.consumer_starts_up [OF ref_args_addr]) simp_all

theorem receives_in_bounds_witness:
  "\<exists>s s' sz. RioConsumer_new ref_os ref_args = Inr s
    \<and> PostFirstRecvs ref_os (m_MaxOutstandingReceive s) s = Inr s'
    \<and> RIORegisterBuffer (m_RioBuffPtr s) sz \<in> set (calls s)
    \<and> (\<exists>d a. posted (calls s') ! 7 = (d, a, 7) \<and> unat (Offset d) = 700 \<and> 800 \<le> unat sz)"
proof -
  from ref_consumer obtain s s' where s: "RioConsumer_new ref_os ref_args = Inr s"
    "PostFirstRecvs ref_os (m_MaxOutstandingReceive s) s = Inr s'" by blast
  obtain sz where r: "RIORegisterBuffer (m_RioBuffPtr s) sz \<in> set (calls s)"
    and b: "\<forall>j < 1500000. \<exists>d a. posted (calls s') ! j = (d, a, j)
      \<and> unat (Offset d) = 100 * j \<and> 100 * j + 100 \<le> unat sz"
    using receives_in_bounds [OF s] by blast
  have "\<exists>d a. posted (calls s') ! 7 = (d, a, 7) \<and> unat (Offset d) = 700 \<and> 800 \<le> unat sz"
    using b [THEN spec, of 7] by simp
  with s r show ?thesis by blast
qed

section \<open>Runs of the receive loop\<close>

text \<open>
  A run of the loop as a path: the results it processes one after the other, and the
  housekeeping between them (the timing, the notification, the flag).
\<close>

inductive recv_path :: "os_env \<Rightarrow> RIORESULT list \<Rightarrow> recv_state \<Rightarrow> recv_state \<Rightarrow> bool"
  for os where
  path_nil: "recv_path os [] st st"
| path_result: "process_result os r st = Inr st1 \<Longrightarrow> recv_path os rs st1 st2 \<Longrightarrow>
    recv_path os (r # rs) st st2"
| path_keep: "set cs \<subseteq> {RIONotify (m_CompletionQueue s)} \<Longrightarrow>
    recv_path os rs (s\<lparr>m_Timing := t, calls := calls s @ cs\<rparr>, l\<lparr>shouldNotify := b\<rparr>) st2 \<Longrightarrow>
    recv_path os rs (s, l) st2"

inductive_simps recv_path_Nil_simps: "recv_path os [] st st'"
inductive_cases recv_path_ConsE: "recv_path os (r # rs) st st'"

lemma recv_path_append:
  "recv_path os rs st st1 \<Longrightarrow> recv_path os rs' st1 st2 \<Longrightarrow> recv_path os (rs @ rs') st st2"
  by (induction rule: recv_path.induct) (auto intro: recv_path.intros)

lemma process_results_path:
  "process_results os rs st = Inr st' \<Longrightarrow> recv_path os rs st st'"
  by (induction rs arbitrary: st) (auto simp: bind_res_eq_Inr intro: recv_path.intros)

lemma keep_path:
  "set cs \<subseteq> {RIONotify (m_CompletionQueue s)} \<Longrightarrow>
     recv_path os [] (s, l) (s\<lparr>m_Timing := t, calls := calls s @ cs\<rparr>, l\<lparr>shouldNotify := b\<rparr>)"
  by (rule path_keep) (auto intro: path_nil)

definition round_results :: "recv_round list \<Rightarrow> RIORESULT list" where
  "round_results rds =
     concat (map (\<lambda>rd. case rd_results rd of None \<Rightarrow> [] | Some rs \<Rightarrow> rs) rds)"

lemma recv_batch_path:
  assumes "recv_batch os rd (s, l) = Inr st'"
  shows "recv_path os (round_results [rd]) (s, l) st'"
proof (cases "round_results [rd] = []")
  case True
  with assms have "st' = (s, l)"
    by (auto simp: recv_batch_def round_results_def split: option.splits)
  with True show ?thesis by (simp add: path_nil)
next
  case False
  then have rs: "(case rd_results rd of None \<Rightarrow> [] | Some rs \<Rightarrow> rs) = round_results [rd]"
    by (auto simp: round_results_def split: option.splits)
  define t where "t = (if m_TotalPkts s = 0 then setStart (rd_start rd) (m_Timing s) else m_Timing s)"
  have "(if m_TotalPkts s = 0 then s\<lparr>m_Timing := setStart (rd_start rd) (m_Timing s)\<rparr> else s)
      = s\<lparr>m_Timing := t\<rparr>"
    by (simp add: t_def)
  with assms False obtain s3 l3
    where p: "process_results os (round_results [rd]) (s\<lparr>m_Timing := t\<rparr>, l) = Inr (s3, l3)"
      and st': "st' = (s3, l3\<lparr>shouldNotify := True\<rparr>)"
    by (auto simp: recv_batch_def rs bind_res_eq_Inr Let_def)
  have "recv_path os [] (s, l) (s\<lparr>m_Timing := t\<rparr>, l)"
    using keep_path [of "[]" s os l t "shouldNotify l"] by simp
  moreover have "recv_path os [] (s3, l3) st'"
    using keep_path [of "[]" s3 os l3 "m_Timing s3" True] by (simp add: st')
  ultimately show ?thesis
    using recv_path_append [OF recv_path_append [OF _ process_results_path [OF p]], of "[]"]
    by fastforce
qed

lemma recv_step_path:
  assumes "recv_step os rd st = Inr (ended, st')"
  shows "recv_path os (if ended then [] else round_results [rd]) st st'"
proof -
  obtain s l where st: "st = (s, l)" by (cases st)
  define t where "t = setStop (rd_now rd) (m_Timing s)"
  define go where "go = fst (ShouldStop (rd_signal rd) (rd_now rd) s)"
  have ss: "ShouldStop (rd_signal rd) (rd_now rd) s = (go, s\<lparr>m_Timing := t\<rparr>)"
    using ShouldStop_state [of "rd_signal rd" "rd_now rd" s]
    by (simp add: go_def t_def prod_eq_iff)
  show ?thesis
  proof (cases go)
    case False
    then have "ended" "st' = (s\<lparr>m_Timing := t\<rparr>, l)"
      using assms by (auto simp: recv_step_def st ss)
    then show ?thesis using keep_path [of "[]" s os l t "shouldNotify l"] by (simp add: st)
  next
    case True
    define cs where "cs = (if shouldNotify l then [RIONotify (m_CompletionQueue s)] else [])"
    define b where "b = (rd_completed rd \<and> shouldNotify l)"
    have cs: "set cs \<subseteq> {RIONotify (m_CompletionQueue s)}" by (auto simp: cs_def)
    have l: "(if rd_completed rd then l else l\<lparr>shouldNotify := False\<rparr>) = l\<lparr>shouldNotify := b\<rparr>"
      by (simp add: b_def)
    have n: "(if shouldNotify l then NotifyCompletionQueue os (s\<lparr>m_Timing := t\<rparr>)
        else Inr (s\<lparr>m_Timing := t\<rparr>)) = Inr s2 \<Longrightarrow> s2 = s\<lparr>m_Timing := t, calls := calls s @ cs\<rparr>" for s2
      by (auto simp: cs_def dest: NotifyCompletionQueue_effect split: if_splits)
    have "recv_batch os rd (s\<lparr>m_Timing := t, calls := calls s @ cs\<rparr>, l\<lparr>shouldNotify := b\<rparr>) = Inr st'"
      and "\<not> ended"
      using assms True by (auto simp: recv_step_def st ss l Let_def bind_res_eq_Inr dest!: n)
    with recv_path_append [OF keep_path [OF cs] recv_batch_path] show ?thesis
      by (simp add: st)
  qed
qed

lemma recv_loop_path:
  assumes "recv_loop os rds st = Inr (ended, st')"
  shows "\<exists>k \<le> length rds. (\<not> ended \<longrightarrow> k = length rds)
    \<and> recv_path os (round_results (take k rds)) st st'"
  using assms
proof (induction rds arbitrary: st)
  case Nil
  then show ?case by (auto simp: round_results_def intro: path_nil)
next
  case (Cons rd rds)
  then obtain e st1 where step: "recv_step os rd st = Inr (e, st1)"
    and rest: "if e then ended \<and> st' = st1 else recv_loop os rds st1 = Inr (ended, st')"
    by (auto simp: bind_res_eq_Inr split: if_splits)
  note p = recv_step_path [OF step]
  show ?case
  proof (cases e)
    case True
    with p rest show ?thesis by (intro exI [of _ 0]) (simp add: round_results_def)
  next
    case False
    with rest Cons.IH [of st1] obtain k where k: "k \<le> length rds" "\<not> ended \<longrightarrow> k = length rds"
      "recv_path os (round_results (take k rds)) st1 st'" by auto
    have "round_results (take (Suc k) (rd # rds)) = round_results [rd] @ round_results (take k rds)"
      by (simp add: round_results_def)
    with recv_path_append [OF _ k(3), of "round_results [rd]" st] p False k(1,2)
    show ?thesis by (intro exI [of _ "Suc k"]) simp
  qed
qed

section \<open>What one result changes\<close>

definition full_size :: "RIORESULT \<Rightarrow> bool" where
  "full_size r \<longleftrightarrow> BytesTransferred r = 100"

definition next_addr :: "recv_state \<Rightarrow> nat" where
  "next_addr st = unat (mcAddrDescrIndex (snd st) mod m_MaxOutstandingReceive (fst st))"

lemma process_odd:
  "\<not> full_size r \<Longrightarrow> process_result os r (s, l) =
     Inr (s\<lparr>m_TotalPkts := m_TotalPkts s + 1\<rparr>, l\<lparr>otherPacketCounter := otherPacketCounter l + 1\<rparr>)"
  by (simp add: process_result_def full_size_def EXPECTED_DATA_SIZE_def Let_def)

lemma process_full:
  assumes "full_size r" and "process_result os r (s, l) = Inr st'"
  defines "d \<equiv> m_RioBuffDescr s ! RequestContext r" and "a \<equiv> m_McAddrDescr s ! next_addr (s, l)"
  shows "st' = (s\<lparr>m_TotalPkts := m_TotalPkts s + 1,
        m_GroupStats := RioConsumer_GroupStatsUpdate (addr_at r (Offset a)) 100 (data_at r (Offset d))
          (m_GroupStats s),
        calls := calls s @ [RIOReceiveEx (m_RequestQueue s) d a (RequestContext r)]\<rparr>,
      l\<lparr>packetCounter := packetCounter l + 1, mcAddrDescrIndex := mcAddrDescrIndex l + 1\<rparr>)"
    and "RequestContext r < length (m_RioBuffDescr s)"
  using assms(1,2)
  by (auto simp: process_result_def full_size_def EXPECTED_DATA_SIZE_def next_addr_def d_def a_def
      post_recv_effect bind_res_eq_Inr Let_def split: if_splits)

section \<open>Accounting\<close>

definition count_full :: "RIORESULT list \<Rightarrow> nat" where
  "count_full rs = length (filter full_size rs)"

definition count_other :: "RIORESULT list \<Rightarrow> nat" where
  "count_other rs = length (filter (\<lambda>r. \<not> full_size r) rs)"

lemma counts_add: "count_full rs + count_other rs = length rs"
  by (simp add: count_full_def count_other_def sum_length_filter_compl)

lemma path_counters:
  "recv_path os rs (s, l) (s', l') \<Longrightarrow>
    m_TotalPkts s' = m_TotalPkts s + of_nat (length rs)
    \<and> packetCounter l' = packetCounter l + of_nat (count_full rs)
    \<and> otherPacketCounter l' = otherPacketCounter l + of_nat (count_other rs)
    \<and> mcAddrDescrIndex l' = mcAddrDescrIndex l + of_nat (count_full rs)
    \<and> length (posted (calls s')) = length (posted (calls s)) + count_full rs"
proof (induction rs "(s, l)" "(s', l')" arbitrary: s l s' l' rule: recv_path.induct)
  case path_nil
  then show ?case by (simp add: count_full_def count_other_def)
next
  case (path_result r st1 rs s l s' l')
  obtain s1 l1 where st1: "st1 = (s1, l1)" by (cases st1)
  note IH = path_result(3) [OF st1] and step = path_result(1) [unfolded st1]
  show ?case
  proof (cases "full_size r")
    case True
    with IH process_full [OF True step] show ?thesis
      by (simp add: count_full_def count_other_def)
  next
    case False
    with IH step show ?thesis
      by (auto simp: process_odd count_full_def count_other_def)
  qed
next
  case (path_keep cs s rs t b l s' l')
  have "posted cs = []" using path_keep(1) by (induction cs) auto
  with path_keep(3) show ?case by simp
qed

text \<open>Members the loop never writes, and the calls it adds.\<close>

lemma path_frame:
  "recv_path os rs (s, l) (s', l') \<Longrightarrow>
    \<exists>t g n cs. s' = s\<lparr>m_Timing := t, m_GroupStats := g, m_TotalPkts := n, calls := calls s @ cs\<rparr>
      \<and> list_all neutral_call cs"
proof (induction rs "(s, l)" "(s', l')" arbitrary: s l s' l' rule: recv_path.induct)
  case (path_nil s l)
  show ?case
    by (intro exI [of _ "m_Timing s"] exI [of _ "m_GroupStats s"] exI [of _ "m_TotalPkts s"]
        exI [of _ "[]"]) simp
next
  case (path_result r st1 rs s l s' l')
  obtain s1 l1 where st1: "st1 = (s1, l1)" by (cases st1)
  note step = path_result(1) [unfolded st1]
  have "\<exists>t g n cs. s1 = s\<lparr>m_Timing := t, m_GroupStats := g, m_TotalPkts := n, calls := calls s @ cs\<rparr>
      \<and> list_all neutral_call cs"
  proof (cases "full_size r")
    case True
    show ?thesis
      using process_full(1) [OF True step]
      by (intro exI [of _ "m_Timing s"] exI [of _ "m_GroupStats s1"] exI [of _ "m_TotalPkts s1"]
          exI [of _ "[RIOReceiveEx (m_RequestQueue s) (m_RioBuffDescr s ! RequestContext r)
            (m_McAddrDescr s ! next_addr (s, l)) (RequestContext r)]"]) simp
  next
    case False
    show ?thesis
      using step False
      by (intro exI [of _ "m_Timing s"] exI [of _ "m_GroupStats s"] exI [of _ "m_TotalPkts s1"]
          exI [of _ "[]"]) (auto simp: process_odd)
  qed
  with path_result(3) [OF st1] show ?case by fastforce
next
  case (path_keep cs s rs t b l s' l')
  have "list_all neutral_call cs" using path_keep(1) by (induction cs) auto
  with path_keep(3) show ?case by fastforce
qed

end
