(* ===== verification/Consumer_Accounting.thy ===== *)
theory Consumer_Accounting
  imports Rio_Consumer
begin

text \<open>
  What the receiver's loop guarantees: the counters and the receives in flight, the
  attribution of packets to groups under in-order completion, the end of the loop, and
  the release of the resources.
\<close>

section \<open>From construction to the end of Start\<close>

lemma started:
  assumes "RioConsumer_new os args = Inr s" and "RioConsumer_Start os t0 rds th s = Inr (s', rep)"
  shows "\<exists>s1 l' k. PostFirstRecvs os (m_MaxOutstandingReceive s)
        (s\<lparr>m_Timing := setStart t0 (m_Timing s)\<rparr>) = Inr s1
    \<and> k \<le> length rds \<and> (rep = None \<longrightarrow> k = length rds)
    \<and> recv_path os (round_results (take k rds)) (s1, recv_locals_init) (s', l')
    \<and> (rep \<noteq> None \<longrightarrow> rep = Some (PrintTimings (packetCounter l') (otherPacketCounter l') s',
        RioConsumer_GroupStatsPrint (inet_ntop4 (net os)) (m_GroupStats s')))"
proof -
  let ?s = "s\<lparr>m_Timing := setStart t0 (m_Timing s)\<rparr>"
  from assms(2) obtain s1 e s2 l'
    where p: "PostFirstRecvs os (m_MaxOutstandingReceive s) ?s = Inr s1"
      and r: "recv_loop os rds (s1, recv_locals_init) = Inr (e, s2, l')"
      and ending: "if e then (\<exists>t. JoinThread (make_thread th) s2 = Inr (t, s'))
        \<and> rep = Some (PrintTimings (packetCounter l') (otherPacketCounter l') s',
            RioConsumer_GroupStatsPrint (inet_ntop4 (net os)) (m_GroupStats s'))
        else rep = None \<and> s' = s2"
    by (auto simp: RioConsumer_Start_def bind_res_eq_Inr Let_def split: if_splits)
  from recv_loop_path [OF r] obtain k where k: "k \<le> length rds" "\<not> e \<longrightarrow> k = length rds"
    and path: "recv_path os (round_results (take k rds)) (s1, recv_locals_init) (s2, l')" by blast
  obtain tm where s': "s' = s2\<lparr>m_Timing := tm\<rparr>"
  proof (cases e)
    case True
    with ending JoinThread_effect that show thesis by force
  next
    case False
    with ending show thesis by (intro that [of "m_Timing s2"]) simp
  qed
  have "recv_path os (round_results (take k rds)) (s1, recv_locals_init) (s', l')"
    using recv_path_append [OF path keep_path [of "[]" s2 os l' tm "shouldNotify l'"]]
    by (simp add: s')
  with p k ending show ?thesis
    by (intro exI [of _ s1] exI [of _ l'] exI [of _ k]) (auto split: if_splits)
qed

lemma path_totals:
  "recv_path os rs (s, l) (s', l') \<Longrightarrow> std_map_ok (m_GroupStats s) \<Longrightarrow>
    std_map_ok (m_GroupStats s')
    \<and> TotalPackets (GetMcTotals (m_GroupStats s')) =
        TotalPackets (GetMcTotals (m_GroupStats s)) + of_nat (count_full rs)
    \<and> TotalBytes (GetMcTotals (m_GroupStats s')) =
        TotalBytes (GetMcTotals (m_GroupStats s)) + of_nat (count_full rs) * 100"
proof (induction rs "(s, l)" "(s', l')" arbitrary: s l s' l' rule: recv_path.induct)
  case path_nil
  then show ?case by (simp add: count_full_def)
next
  case (path_result r st1 rs s l s' l')
  obtain s1 l1 where st1: "st1 = (s1, l1)" by (cases st1)
  note IH = path_result(3) [OF st1] and step = path_result(1) [unfolded st1]
  show ?case
  proof (cases "full_size r")
    case True
    have "m_GroupStats s1 = RioConsumer_GroupStatsUpdate
        (addr_at r (Offset (m_McAddrDescr s ! next_addr (s, l)))) 100
        (data_at r (Offset (m_RioBuffDescr s ! RequestContext r))) (m_GroupStats s)"
      using process_full(1) [OF True step] by simp
    then obtain addr :: SOCKADDR_INET and hdr :: ProtocolHeader_t where g: "m_GroupStats s1 =
        std_map_modify McGroupStats_init (s_addr addr) (consumer_update 100 (Seq hdr)) (m_GroupStats s)"
      unfolding RioConsumer_GroupStatsUpdate_def by blast
    have "std_map_ok (m_GroupStats s1)"
      by (simp add: g std_map_modify_ok path_result.prems)
    moreover have "TotalPackets (GetMcTotals (m_GroupStats s1)) =
        TotalPackets (GetMcTotals (m_GroupStats s)) + 1"
      "TotalBytes (GetMcTotals (m_GroupStats s1)) = TotalBytes (GetMcTotals (m_GroupStats s)) + 100"
      by (simp_all only: GetMcTotals_sel g consumer_stats.total_packets_step [OF path_result.prems]
          consumer_stats.total_bytes_step [OF path_result.prems])
    ultimately show ?thesis
      using IH True by (simp add: count_full_def algebra_simps)
  next
    case False
    with IH step path_result.prems show ?thesis by (auto simp: process_odd count_full_def)
  qed
qed auto

text \<open>
  C5: The receiver's books balance. At any time of a run, with the results processed so far,
  the packet counter is the number of results, the statistics of all groups together count
  exactly the results of the expected size and 100 bytes for each, the final report prints
  both counts, and the receives still in flight are the 1500000 posted at the start less one
  for every result of another size: such a result is never followed by a new receive.
\<close>

theorem receiver_accounts:
  assumes "RioConsumer_new os args = Inr s" and "RioConsumer_Start os t0 rds th s = Inr (s', rep)"
  shows "\<exists>k \<le> length rds. (rep = None \<longrightarrow> k = length rds) \<and>
    (let rs = round_results (take k rds)
     in m_TotalPkts s' = of_nat (length rs)
      \<and> TotalPackets (GetMcTotals (m_GroupStats s')) = of_nat (count_full rs)
      \<and> TotalBytes (GetMcTotals (m_GroupStats s')) = of_nat (count_full rs) * 100
      \<and> length (posted (calls s')) + count_other rs = 1500000 + length rs
      \<and> (rep \<noteq> None \<longrightarrow> fst (snd (fst (the rep))) = of_nat (count_full rs)
          \<and> fst (snd (snd (fst (the rep)))) = of_nat (count_other rs)))"
proof -
  from started [OF assms] obtain s1 l' k
    where p: "PostFirstRecvs os (m_MaxOutstandingReceive s)
        (s\<lparr>m_Timing := setStart t0 (m_Timing s)\<rparr>) = Inr s1"
      and k: "k \<le> length rds" "rep = None \<longrightarrow> k = length rds"
      and r: "recv_path os (round_results (take k rds)) (s1, recv_locals_init) (s', l')"
      and rep: "rep \<noteq> None \<longrightarrow> rep = Some (PrintTimings (packetCounter l') (otherPacketCounter l') s',
        RioConsumer_GroupStatsPrint (inet_ntop4 (net os)) (m_GroupStats s'))" by blast
  let ?rs = "round_results (take k rds)"
  note built = consumer_built [OF assms(1)] and first = first_receives [OF assms(1) p]
  have g: "m_GroupStats s1 = InitGroupStats (map ipNetOrder (McastAddrStr args)) []"
    and n: "m_TotalPkts s1 = 0"
    by (simp_all add: first(1) built(5,6))
  have z: "TotalPackets (GetMcTotals (m_GroupStats s1)) = 0" "TotalBytes (GetMcTotals (m_GroupStats s1)) = 0"
    by (simp_all add: g GetMcTotals_sel totals_Init)
  have "std_map_ok (m_GroupStats s1)" by (simp add: g InitGroupStats_ok)
  note totals = path_totals [OF r this, unfolded z]
  have "length (posted (calls s1)) = 1500000" by (simp add: first(2))
  with path_counters [OF r] n have c: "m_TotalPkts s' = of_nat (length ?rs)"
    "packetCounter l' = of_nat (count_full ?rs)" "otherPacketCounter l' = of_nat (count_other ?rs)"
    "length (posted (calls s')) = 1500000 + count_full ?rs"
    by (simp_all add: recv_locals_init_def)
  have "length (posted (calls s')) + count_other ?rs = 1500000 + length ?rs"
    using c(4) counts_add [of ?rs] by simp
  moreover have "rep \<noteq> None \<longrightarrow> fst (snd (fst (the rep))) = of_nat (count_full ?rs)
      \<and> fst (snd (snd (fst (the rep)))) = of_nat (count_other ?rs)"
    using rep c(2,3) by (cases "rep = None") (simp_all add: PrintTimings_def Let_def)
  moreover note k
  ultimately show ?thesis
    using totals c(1) unfolding Let_def by (intro exI [of _ k] conjI) simp_all
qed

text \<open>A run on the reference system: one result of 60 bytes, then the exit signal.\<close>

definition short_result :: RIORESULT where
  "short_result = \<lparr>BytesTransferred = 60, RequestContext = 0,
     data_at = (\<lambda>_. \<lparr>Token = 0, CmdType = 0, Tag = 0, Seq = 0, Timestamp = 0\<rparr>),
     addr_at = (\<lambda>_. \<lparr>sin_family = 2, sin_port = 0, s_addr = 1\<rparr>)\<rparr>"

definition quiet_round :: recv_round where
  "quiet_round = \<lparr>rd_signal = 0, rd_now = 0, rd_completed = True, rd_results = None, rd_start = 0\<rparr>"

definition ref_rounds :: "recv_round list" where
  "ref_rounds = [quiet_round\<lparr>rd_results := Some [short_result]\<rparr>, quiet_round\<lparr>rd_signal := 1\<rparr>]"

lemma ref_run:
  "\<exists>s s' rep. RioConsumer_new ref_os ref_args = Inr s
    \<and> RioConsumer_Start ref_os 0 ref_rounds [(1, 0)] s = Inr (s', Some rep)"
proof -
  obtain s where s: "RioConsumer_new ref_os ref_args = Inr s" using ref_consumer by blast
  note built = consumer_built [OF s]
  have "\<exists>s1. PostFirstRecvs ref_os (m_MaxOutstandingReceive s)
      (s\<lparr>m_Timing := setStart 0 (m_Timing s)\<rparr>) = Inr s1"
    unfolding PostFirstRecvs_def
    by (rule refos.first_recvs_up) (simp_all add: built(2,3,4))
  then obtain s1 where s1: "PostFirstRecvs ref_os (m_MaxOutstandingReceive s)
      (s\<lparr>m_Timing := setStart 0 (m_Timing s)\<rparr>) = Inr s1" by blast
  have a: "m_Args s1 = ref_args" using first_receives(1) [OF s s1] built(7) by simp
  have "\<exists>s' l'. recv_loop ref_os ref_rounds (s1, recv_locals_init) = Inr (True, s', l')"
    (is "\<exists>s' l'. ?run s' l'")
    using a
    by (simp add: ref_rounds_def quiet_round_def recv_step_def recv_batch_def ShouldStop_def Let_def
        recv_locals_init_def refos.notify_up process_odd full_size_def short_result_def ref_args_def)
  then obtain s' l' where r: "?run s' l'" by blast
  obtain s2 where "JoinThread (make_thread [(1, 0)]) s' = Inr (None, s2)"
    using join_on_signal [of 1 0 "[(1, 0)]"] by auto
  with s s1 r show ?thesis
    unfolding RioConsumer_Start_def Let_def by (intro exI [of _ s] exI [of _ s2] exI conjI) simp_all
qed

theorem receiver_accounts_witness:
  "\<exists>s s' rep k. RioConsumer_new ref_os ref_args = Inr s
    \<and> RioConsumer_Start ref_os 0 ref_rounds [(1, 0)] s = Inr (s', Some rep)
    \<and> length (posted (calls s')) + count_other (round_results (take k ref_rounds)) =
        1500000 + length (round_results (take k ref_rounds))"
proof -
  from ref_run obtain s s' rep where s: "RioConsumer_new ref_os ref_args = Inr s"
    "RioConsumer_Start ref_os 0 ref_rounds [(1, 0)] s = Inr (s', Some rep)" by blast
  from receiver_accounts [OF s] obtain k where
    "length (posted (calls s')) + count_other (round_results (take k ref_rounds)) =
      1500000 + length (round_results (take k ref_rounds))"
    by (auto simp: Let_def)
  with s show ?thesis by blast
qed

section \<open>Which group a packet is counted for\<close>

text \<open>
  The documented behaviour of the receive queue that the loop relies on: requests complete
  in the order in which they were posted, each completed request carries the packet's
  length and its own context, and its two buffers hold the packet and its address when the
  result is processed.
\<close>

type_synonym packet = "SOCKADDR_INET \<times> ProtocolHeader_t \<times> u32"

definition delivers :: "RIO_BUF \<times> RIO_BUF \<times> nat \<Rightarrow> packet \<Rightarrow> RIORESULT \<Rightarrow> bool" where
  "delivers req pkt r \<longleftrightarrow>
     (case req of (d, a, x) \<Rightarrow> case pkt of (addr, hdr, len) \<Rightarrow>
        RequestContext r = x \<and> BytesTransferred r = len
        \<and> data_at r (Offset d) = hdr \<and> addr_at r (Offset a) = addr)"

definition fifo_delivery :: "(RIO_BUF \<times> RIO_BUF \<times> nat) list \<Rightarrow> packet list \<Rightarrow> RIORESULT list \<Rightarrow> bool"
  where
  "fifo_delivery reqs pkts rs \<longleftrightarrow> length pkts = length rs \<and> length rs \<le> length reqs
     \<and> list_all2 (\<lambda>(req, pkt) r. delivers req pkt r) (zip (take (length rs) reqs) pkts) rs"

lemma fifo_nth:
  "fifo_delivery reqs pkts rs \<Longrightarrow> k < length rs \<Longrightarrow> delivers (reqs ! k) (pkts ! k) (rs ! k)"
  by (auto simp: fifo_delivery_def list_all2_conv_all_nth)

definition headers :: "packet list \<Rightarrow> (SOCKADDR_INET \<times> ProtocolHeader_t) list" where
  "headers pkts = map (\<lambda>(addr, hdr, len). (addr, hdr)) pkts"

text \<open>
  The invariant behind the attribution: after \<open>k\<close> results, the index is \<open>k\<close>, and request
  \<open>j\<close> of the trace uses address slot \<open>j mod N\<close>.
\<close>

definition slots_aligned :: "nat \<Rightarrow> u64 \<Rightarrow> u64 \<Rightarrow> nat \<Rightarrow> recv_state \<Rightarrow> bool" where
  "slots_aligned N i i' k st \<longleftrightarrow>
     (let (s, l) = st
      in unat (m_MaxOutstandingReceive s) = N \<and> 0 < N
       \<and> m_RioBuffDescr s = map (data_slot i) [0..<N] \<and> m_McAddrDescr s = map (addr_slot i') [0..<N]
       \<and> mcAddrDescrIndex l = of_nat k \<and> length (posted (calls s)) = N + k
       \<and> (\<forall>j < N + k. \<exists>x < N. posted (calls s) ! j = (data_slot i x, addr_slot i' (j mod N), x)))"

lemma slots_aligned_next:
  assumes "slots_aligned N i i' k (s, l)" and "k < 2 ^ 32"
  shows "next_addr (s, l) = k mod N" and "m_McAddrDescr s ! next_addr (s, l) = addr_slot i' (k mod N)"
proof -
  have "unat (of_nat k :: u32) = k" using assms(2) by (simp add: unat_of_nat_less)
  with assms(1) show n: "next_addr (s, l) = k mod N"
    by (simp add: slots_aligned_def next_addr_def unat_mod)
  have "k mod N < N" using assms(1) by (simp add: slots_aligned_def)
  with assms(1) n show "m_McAddrDescr s ! next_addr (s, l) = addr_slot i' (k mod N)"
    by (simp add: slots_aligned_def)
qed

lemma slots_aligned_step:
  assumes inv: "slots_aligned N i i' k (s, l)" and k: "k < 2 ^ 32"
    and full: "full_size r" and step: "process_result os r (s, l) = Inr (s', l')"
  shows "slots_aligned N i i' (Suc k) (s', l')"
proof -
  let ?x = "RequestContext r"
  note eff = process_full [OF full step]
  note nxt = slots_aligned_next [OF inv k]
  have x: "?x < N" using eff(2) inv by (simp add: slots_aligned_def)
  then have d: "m_RioBuffDescr s ! ?x = data_slot i ?x" using inv by (simp add: slots_aligned_def)
  have cs: "posted (calls s') = posted (calls s) @ [(data_slot i ?x, addr_slot i' (k mod N), ?x)]"
    using eff(1) by (simp add: nxt(2) d)
  have len: "length (posted (calls s)) = N + k" using inv by (simp add: slots_aligned_def)
  have "\<exists>y < N. posted (calls s') ! j = (data_slot i y, addr_slot i' (j mod N), y)"
    if j: "j < N + Suc k" for j
  proof (cases "j < N + k")
    case True
    then show ?thesis using inv by (simp add: slots_aligned_def cs nth_append)
  next
    case False
    with j have "j = N + k" by simp
    then show ?thesis using x len by (simp add: cs nth_append)
  qed
  then show ?thesis
    using inv eff(1) cs len by (simp add: slots_aligned_def)
qed

lemma path_posted_prefix:
  assumes "recv_path os rs (s, l) (s', l')" and "j < length (posted (calls s))"
  shows "posted (calls s') ! j = posted (calls s) ! j"
  using path_frame [OF assms(1)] assms(2) by (auto simp: nth_append)

lemma consumer_stream_Cons:
  "consumer_stream n ((addr, hdr) # ps) m =
     consumer_stream n ps (RioConsumer_GroupStatsUpdate addr n hdr m)"
  by (simp add: consumer_stream_def)

lemma fifo_path:
  "recv_path os rs (s, l) (s', l') \<Longrightarrow> slots_aligned N i i' k (s, l) \<Longrightarrow>
    k + length rs \<le> 2 ^ 32 \<Longrightarrow> list_all full_size rs \<Longrightarrow> length pkts = length rs \<Longrightarrow>
    (\<And>j. j < length rs \<Longrightarrow> delivers (posted (calls s') ! (k + j)) (pkts ! j) (rs ! j)) \<Longrightarrow>
    m_GroupStats s' = consumer_stream 100 (headers pkts) (m_GroupStats s)"
proof (induction rs "(s, l)" "(s', l')" arbitrary: s l s' l' k pkts rule: recv_path.induct)
  case path_nil
  then show ?case by (simp add: headers_def consumer_stream_def)
next
  case (path_result r st1 rs s l s' l')
  obtain s1 l1 where st1: "st1 = (s1, l1)" by (cases st1)
  note step = path_result(1) [unfolded st1] and path = path_result(2) [unfolded st1]
  have full: "full_size r" using path_result.prems(3) by simp
  have k: "k < 2 ^ 32" using path_result.prems(2) by simp
  note inv = path_result.prems(1) and inv1 = slots_aligned_step [OF path_result.prems(1) k full step]
  obtain addr hdr len ps where pkts: "pkts = (addr, hdr, len) # ps"
    using path_result.prems(4) by (cases pkts) auto
  have lenN: "length (posted (calls s)) = N + k" "0 < N" using inv by (simp_all add: slots_aligned_def)
  obtain x where x: "x < N" "posted (calls s) ! k = (data_slot i x, addr_slot i' (k mod N), x)"
  proof -
    have "\<forall>j < N + k. \<exists>x < N. posted (calls s) ! j = (data_slot i x, addr_slot i' (j mod N), x)"
      using inv by (simp add: slots_aligned_def)
    from this [rule_format, of k] lenN(2) that show thesis by auto
  qed
  have "posted (calls s') ! k = posted (calls s) ! k"
    using path_posted_prefix [OF path, of k] path_posted_prefix [of os "[r]" s l s1 l1 k] lenN
      recv_path.path_result [OF step recv_path.path_nil] inv1
    by (simp add: slots_aligned_def)
  with path_result.prems(5) [of 0] x have del: "RequestContext r = x"
      "data_at r (Offset (data_slot i x)) = hdr" "addr_at r (Offset (addr_slot i' (k mod N))) = addr"
    by (simp_all add: pkts delivers_def)
  have "m_RioBuffDescr s ! x = data_slot i x" using inv x(1) by (simp add: slots_aligned_def)
  then have g: "m_GroupStats s1 = RioConsumer_GroupStatsUpdate addr 100 hdr (m_GroupStats s)"
    using process_full(1) [OF full step] slots_aligned_next(2) [OF inv k] del by simp
  have "m_GroupStats s' = consumer_stream 100 (headers ps) (m_GroupStats s1)"
  proof (rule path_result(3) [OF st1 inv1])
    show "delivers (posted (calls s') ! (Suc k + j)) (ps ! j) (rs ! j)" if "j < length rs" for j
      using path_result.prems(5) [of "Suc j"] that by (simp add: pkts)
  qed (use path_result.prems pkts in auto)
  then show ?case by (simp add: g pkts headers_def consumer_stream_Cons)
next
  case (path_keep cs s rs t b l s' l')
  have "posted cs = []" using path_keep(1) by (induction cs) auto
  then have "slots_aligned N i i' k (s\<lparr>m_Timing := t, calls := calls s @ cs\<rparr>, l\<lparr>shouldNotify := b\<rparr>)"
    using path_keep.prems(1) by (simp add: slots_aligned_def)
  from path_keep(3) [OF this path_keep.prems(2-5)] show ?case by simp
qed

lemma aligned_at_start:
  assumes "RioConsumer_new os args = Inr s"
    and "PostFirstRecvs os (m_MaxOutstandingReceive s) (s\<lparr>m_Timing := t\<rparr>) = Inr s1"
  shows "slots_aligned 1500000 (m_RioBuffId s) (m_McAddrBuffId s) 0 (s1, recv_locals_init)"
proof -
  note built = consumer_built [OF assms(1)] and first = first_receives [OF assms]
  have "\<exists>x < 1500000. posted (calls s1) ! j =
      (data_slot (m_RioBuffId s) x, addr_slot (m_McAddrBuffId s) (j mod 1500000), x)"
    if "j < 1500000" for j
    using that by (intro exI [of _ j]) (simp add: first(2))
  moreover have "m_MaxOutstandingReceive s1 = 1500000"
    "m_RioBuffDescr s1 = map (data_slot (m_RioBuffId s)) [0..<1500000]"
    "m_McAddrDescr s1 = map (addr_slot (m_McAddrBuffId s)) [0..<1500000]"
    by (simp_all add: first(1) built(2,4))
  moreover have "length (posted (calls s1)) = 1500000" by (simp add: first(2))
  ultimately show ?thesis
    by (simp add: slots_aligned_def recv_locals_init_def)
qed

lemma attribution:
  assumes "RioConsumer_new os args = Inr s" and "RioConsumer_Start os t0 rds th s = Inr (s', rep)"
  shows "\<exists>k \<le> length rds. (rep = None \<longrightarrow> k = length rds) \<and>
    m_TotalPkts s' = of_nat (length (round_results (take k rds))) \<and>
    (\<forall>pkts. fifo_delivery (posted (calls s')) pkts (round_results (take k rds))
       \<and> (\<forall>(addr, hdr, len) \<in> set pkts. len = 100) \<and> length pkts \<le> 2 ^ 32 \<longrightarrow>
       m_GroupStats s' = consumer_stream 100 (headers pkts)
         (InitGroupStats (map ipNetOrder (McastAddrStr args)) []))"
proof -
  from started [OF assms] obtain s1 l' k
    where p: "PostFirstRecvs os (m_MaxOutstandingReceive s)
        (s\<lparr>m_Timing := setStart t0 (m_Timing s)\<rparr>) = Inr s1"
      and k: "k \<le> length rds" "rep = None \<longrightarrow> k = length rds"
      and r: "recv_path os (round_results (take k rds)) (s1, recv_locals_init) (s', l')" by blast
  let ?rs = "round_results (take k rds)"
  have "m_GroupStats s' = consumer_stream 100 (headers pkts)
         (InitGroupStats (map ipNetOrder (McastAddrStr args)) [])"
    if f: "fifo_delivery (posted (calls s')) pkts ?rs"
      and full: "\<forall>(addr, hdr, len) \<in> set pkts. len = 100" and bound: "length pkts \<le> 2 ^ 32" for pkts
  proof -
    have len: "length pkts = length ?rs" using f by (simp add: fifo_delivery_def)
    have "full_size (?rs ! j)" if "j < length ?rs" for j
    proof -
      have "pkts ! j \<in> set pkts" using that len by simp
      with full have "snd (snd (pkts ! j)) = 100" by (cases "pkts ! j") auto
      with fifo_nth [OF f that] show ?thesis
        by (auto simp: delivers_def full_size_def split: prod.splits)
    qed
    then have "list_all full_size ?rs" by (simp add: list_all_length)
    then have "m_GroupStats s' = consumer_stream 100 (headers pkts) (m_GroupStats s1)"
      using fifo_path [OF r aligned_at_start [OF assms(1) p]] len bound fifo_nth [OF f] by simp
    moreover have "m_GroupStats s1 = InitGroupStats (map ipNetOrder (McastAddrStr args)) []"
      by (simp add: first_receives(1) [OF assms(1) p] consumer_built(5) [OF assms(1)])
    ultimately show ?thesis by simp
  qed
  moreover have "m_TotalPkts s' = of_nat (length ?rs)"
    using path_counters [OF r] first_receives(1) [OF assms(1) p] consumer_built(6) [OF assms(1)] by simp
  ultimately show ?thesis using k by blast
qed

text \<open>
  C2: End to end, each packet is counted for the group it was sent to. If requests complete
  in posting order and all packets have the expected size, then after any run of up to
  \<open>2 ^ 32\<close> packets the record of every group is the tracker's record of exactly the
  sequence numbers sent to that group, in their order (so the loss accounting of the tracker
  holds for the receiver); groups that were configured and got no packet keep a zero record.
\<close>

theorem packets_attributed_to_their_groups:
  assumes "RioConsumer_new os args = Inr s" and "RioConsumer_Start os t0 rds th s = Inr (s', rep)"
  shows "\<exists>k \<le> length rds. (rep = None \<longrightarrow> k = length rds) \<and>
    (\<forall>pkts. fifo_delivery (posted (calls s')) pkts (round_results (take k rds))
       \<and> (\<forall>(addr, hdr, len) \<in> set pkts. len = 100) \<and> length pkts \<le> 2 ^ 32 \<longrightarrow>
       std_map_find (m_GroupStats s') g =
         (if seqs_of_group g (headers pkts) = []
          then (if g \<in> ipNetOrder ` set (McastAddrStr args) then Some McGroupStats_init else None)
          else Some (consumer_run 100 (seqs_of_group g (headers pkts)))))"
proof -
  have "std_map_find (consumer_stream 100 hs (InitGroupStats (map ipNetOrder gs) [])) g =
      (if seqs_of_group g hs = [] then (if g \<in> ipNetOrder ` set gs then Some McGroupStats_init else None)
       else Some (consumer_run 100 (seqs_of_group g hs)))" for hs gs
    by (simp add: consumer_stream_find InitGroupStats_ok find_Init_empty consumer_run_def
        split: option.split)
  with attribution [OF assms] show ?thesis by auto
qed

text \<open>A run of one packet with sequence number 7 for group 5.\<close>

definition ref_addr :: SOCKADDR_INET where
  "ref_addr = \<lparr>sin_family = 2, sin_port = 0, s_addr = 5\<rparr>"

definition ref_header :: ProtocolHeader_t where
  "ref_header = \<lparr>Token = 490, CmdType = 0, Tag = 0, Seq = 7, Timestamp = 0\<rparr>"

definition full_result :: RIORESULT where
  "full_result = \<lparr>BytesTransferred = 100, RequestContext = 0,
     data_at = (\<lambda>_. ref_header), addr_at = (\<lambda>_. ref_addr)\<rparr>"

definition full_round :: recv_round where
  "full_round = quiet_round\<lparr>rd_results := Some [full_result]\<rparr>"

lemma ref_start:
  "\<exists>s s1. RioConsumer_new ref_os ref_args = Inr s
    \<and> PostFirstRecvs ref_os (m_MaxOutstandingReceive s) (s\<lparr>m_Timing := setStart 0 (m_Timing s)\<rparr>) = Inr s1"
proof -
  obtain s where s: "RioConsumer_new ref_os ref_args = Inr s" using ref_consumer by blast
  have "\<exists>s1. PostFirstRecvs ref_os (m_MaxOutstandingReceive s)
      (s\<lparr>m_Timing := setStart 0 (m_Timing s)\<rparr>) = Inr s1"
    unfolding PostFirstRecvs_def
    by (rule refos.first_recvs_up) (simp_all add: consumer_built(2,3,4) [OF s])
  with s show ?thesis by blast
qed

context os_up
begin

lemma full_result_up:
  assumes "full_size r" and "m_MaxOutstandingReceive (s :: RioSession) \<noteq> 0"
    and "RequestContext r < length (m_RioBuffDescr s)"
    and "unat (m_MaxOutstandingReceive s) \<le> length (m_McAddrDescr s)"
  shows "\<exists>st'. process_result os r (s, l) = Inr st'"
proof -
  let ?n = "next_addr (s, l)"
  have "?n < unat (m_MaxOutstandingReceive s)"
    using assms(2) by (simp add: next_addr_def unat_mod unat_gt_0)
  with assms(4) have "?n < length (m_McAddrDescr s)" by simp
  moreover have "r' \<noteq> 0" if "r' = sys os tr (RIOReceiveEx q d a x)" for r' tr q d a x
    using call_succeeds [of "RIOReceiveEx q d a x" tr] that by simp
  ultimately show ?thesis
    using assms by (simp add: process_result_def full_size_def EXPECTED_DATA_SIZE_def next_addr_def
        post_recv_def do_call_def Let_def)
qed

end

lemma ref_full_run:
  "\<exists>s s'. RioConsumer_new ref_os ref_args = Inr s
    \<and> RioConsumer_Start ref_os 0 [full_round] [] s = Inr (s', None)
    \<and> posted (calls s') ! 0 = (data_slot (m_RioBuffId s) 0, addr_slot (m_McAddrBuffId s) 0, 0)
    \<and> length (posted (calls s')) = 1500001"
proof -
  from ref_start obtain s s1 where s: "RioConsumer_new ref_os ref_args = Inr s"
    and s1: "PostFirstRecvs ref_os (m_MaxOutstandingReceive s)
      (s\<lparr>m_Timing := setStart 0 (m_Timing s)\<rparr>) = Inr s1" by blast
  note built = consumer_built [OF s] and first = first_receives [OF s s1]
  define t where "t = setStart 0 (setStop 0 (m_Timing s1))"
  define s2 where "s2 = s1\<lparr>calls := calls s1 @ [RIONotify (m_CompletionQueue s1)], m_Timing := t\<rparr>"
  have members: "m_Args s1 = ref_args" "m_TotalPkts s1 = 0" "m_MaxOutstandingReceive s1 = 1500000"
    "length (m_RioBuffDescr s1) = 1500000" "length (m_McAddrDescr s1) = 1500000"
    by (simp_all add: first(1) built(2,4,6,7))
  have full: "full_size full_result" by (simp add: full_size_def full_result_def)
  obtain s3 l3 where p: "process_result ref_os full_result (s2, recv_locals_init) = Inr (s3, l3)"
    using refos.full_result_up [OF full, of s2 recv_locals_init] members
    by (auto simp: s2_def full_result_def)
  have run: "recv_loop ref_os [full_round] (s1, recv_locals_init) = Inr (False, s3, l3\<lparr>shouldNotify := True\<rparr>)"
    using p members
    by (simp add: full_round_def quiet_round_def recv_step_def recv_batch_def ShouldStop_def Let_def
        recv_locals_init_def refos.notify_up ref_args_def s2_def t_def)
  have path: "recv_path ref_os [full_result] (s2, recv_locals_init) (s3, l3)"
    by (rule path_result [OF p path_nil])
  have len: "length (posted (calls s1)) = 1500000" by (simp add: first(2))
  have "posted (calls s3) ! 0 = posted (calls s1) ! 0"
    using path_posted_prefix [OF path, of 0] len by (simp add: s2_def)
  moreover have "posted (calls s1) ! 0 = (data_slot (m_RioBuffId s) 0, addr_slot (m_McAddrBuffId s) 0, 0)"
    by (simp add: first(2))
  moreover have "length (posted (calls s3)) = 1500001"
    using path_counters [OF path] len full by (simp add: s2_def count_full_def)
  ultimately show ?thesis
    using s s1 run unfolding RioConsumer_Start_def Let_def
    by (intro exI [of _ s] exI [of _ s3] conjI) simp_all
qed

theorem packets_attributed_to_their_groups_witness:
  "\<exists>s s'. RioConsumer_new ref_os ref_args = Inr s
    \<and> RioConsumer_Start ref_os 0 [full_round] [] s = Inr (s', None)
    \<and> std_map_find (m_GroupStats s') 5 = Some (consumer_run 100 [7])"
proof -
  from ref_full_run obtain s s' where s: "RioConsumer_new ref_os ref_args = Inr s"
    and run: "RioConsumer_Start ref_os 0 [full_round] [] s = Inr (s', None)"
    and post: "posted (calls s') ! 0 = (data_slot (m_RioBuffId s) 0, addr_slot (m_McAddrBuffId s) 0, 0)"
      "length (posted (calls s')) = 1500001" by blast
  let ?pkts = "[(ref_addr, ref_header, 100)]"
  have rs: "round_results (take 1 [full_round]) = [full_result]"
    by (simp add: round_results_def full_round_def)
  have req: "take (Suc 0) (posted (calls s')) =
      [(data_slot (m_RioBuffId s) 0, addr_slot (m_McAddrBuffId s) 0, 0)]"
    using post by (cases "posted (calls s')") auto
  have "fifo_delivery (posted (calls s')) ?pkts [full_result]"
    by (simp add: fifo_delivery_def req post(2) delivers_def full_result_def)
  with packets_attributed_to_their_groups [OF s run, of 5] rs
  have "std_map_find (m_GroupStats s') 5 = Some (consumer_run 100 (seqs_of_group 5 (headers ?pkts)))"
    by (auto simp: headers_def seqs_of_group_def ref_addr_def)
  with s run show ?thesis
    by (auto simp: headers_def seqs_of_group_def ref_addr_def ref_header_def)
qed

section \<open>Where the attribution breaks\<close>

text \<open>
  One packet of another size shifts the attribution. If the first packet does not have
  100 bytes, its address slot stays in use, because the index only advances with packets of
  the expected size; the second packet, sent to another address, is then counted for the
  address of the first one.
\<close>

theorem odd_size_shifts_attribution:
  assumes "RioConsumer_new os args = Inr s"
    and "PostFirstRecvs os (m_MaxOutstandingReceive s) s = Inr s1"
    and "process_results os [r0, r1] (s1, recv_locals_init) = Inr (s2, l2)"
    and "fifo_delivery (posted (calls s2)) [(addr0, hdr0, len0), (addr1, hdr1, 100)] [r0, r1]"
    and "len0 \<noteq> 100"
    and "addr_at r1 (Offset (addr_slot (m_McAddrBuffId s) 0)) = addr0"
  shows "m_GroupStats s2 = RioConsumer_GroupStatsUpdate addr0 100 hdr1 (m_GroupStats s1)"
proof -
  have p: "PostFirstRecvs os (m_MaxOutstandingReceive s) (s\<lparr>m_Timing := m_Timing s\<rparr>) = Inr s1"
    using assms(2) by simp
  note first = first_receives [OF assms(1) p] and inv = aligned_at_start [OF assms(1) p]
  have d0: "delivers (posted (calls s2) ! 0) (addr0, hdr0, len0) r0"
    and d1: "delivers (posted (calls s2) ! 1) (addr1, hdr1, 100) r1"
    using fifo_nth [OF assms(4), of 0] fifo_nth [OF assms(4), of 1] by simp_all
  then have odd: "\<not> full_size r0" and full: "full_size r1"
    using assms(5) by (auto simp: delivers_def full_size_def split: prod.splits)
  define sa where "sa = s1\<lparr>m_TotalPkts := m_TotalPkts s1 + 1\<rparr>"
  define la where "la = recv_locals_init\<lparr>otherPacketCounter := 1\<rparr>"
  have step: "process_result os r1 (sa, la) = Inr (s2, l2)"
    using assms(3) process_odd [OF odd, of os s1 recv_locals_init]
    by (simp add: bind_res_eq_Inr sa_def la_def recv_locals_init_def)
  have inva: "slots_aligned 1500000 (m_RioBuffId s) (m_McAddrBuffId s) 0 (sa, la)"
    using inv by (simp add: slots_aligned_def sa_def la_def)
  have len: "length (posted (calls sa)) = 1500000" using inva by (simp add: slots_aligned_def)
  have "posted (calls s2) ! 1 = posted (calls sa) ! 1"
    using path_posted_prefix [OF path_result [OF step path_nil], of 1] len by simp
  also have "\<dots> = (data_slot (m_RioBuffId s) 1, addr_slot (m_McAddrBuffId s) 1, 1)"
    by (simp add: sa_def first(2))
  finally have "RequestContext r1 = 1" "data_at r1 (Offset (data_slot (m_RioBuffId s) 1)) = hdr1"
    using d1 by (simp_all add: delivers_def)
  moreover have "m_RioBuffDescr sa ! 1 = data_slot (m_RioBuffId s) 1" by (simp add: sa_def first(1))
  moreover have "m_McAddrDescr sa ! next_addr (sa, la) = addr_slot (m_McAddrBuffId s) 0"
    using slots_aligned_next(2) [OF inva] by simp
  ultimately show ?thesis
    using process_full(1) [OF full step] assms(6) by (simp add: sa_def)
qed

definition shifted_result :: RIORESULT where
  "shifted_result = \<lparr>BytesTransferred = 100, RequestContext = 1, data_at = (\<lambda>_. ref_header),
     addr_at = (\<lambda>off. if off = 0 then addr_at short_result 0 else ref_addr)\<rparr>"

theorem odd_size_shifts_attribution_witness:
  "\<exists>s s1 s2 l2. RioConsumer_new ref_os ref_args = Inr s
    \<and> PostFirstRecvs ref_os (m_MaxOutstandingReceive s) s = Inr s1
    \<and> process_results ref_os [short_result, shifted_result] (s1, recv_locals_init) = Inr (s2, l2)
    \<and> s_addr ref_addr = 5
    \<and> m_GroupStats s2 = RioConsumer_GroupStatsUpdate (addr_at short_result 0) 100 ref_header (m_GroupStats s1)
    \<and> s_addr (addr_at short_result 0) = 1"
proof -
  from ref_consumer obtain s s1 where s: "RioConsumer_new ref_os ref_args = Inr s"
    and s1: "PostFirstRecvs ref_os (m_MaxOutstandingReceive s) s = Inr s1" by blast
  note built = consumer_built [OF s]
  note first = first_receives [OF s, of "m_Timing s" s1, simplified, OF s1]
  let ?sa = "s1\<lparr>m_TotalPkts := m_TotalPkts s1 + 1\<rparr>" and ?la = "recv_locals_init\<lparr>otherPacketCounter := 1\<rparr>"
  have odd: "\<not> full_size short_result" and full: "full_size shifted_result"
    by (simp_all add: full_size_def short_result_def shifted_result_def)
  obtain s2 l2 where p: "process_result ref_os shifted_result (?sa, ?la) = Inr (s2, l2)"
    using refos.full_result_up [OF full, of ?sa ?la]
    by (auto simp: first(1) built(2,4) shifted_result_def)
  have run: "process_results ref_os [short_result, shifted_result] (s1, recv_locals_init) = Inr (s2, l2)"
    using p by (simp add: process_odd [OF odd] recv_locals_init_def)
  have len: "length (posted (calls s1)) = 1500000" by (simp add: first(2))
  have path: "recv_path ref_os [shifted_result] (?sa, ?la) (s2, l2)"
    by (rule path_result [OF p path_nil])
  have post: "posted (calls s2) ! 0 = (data_slot (m_RioBuffId s) 0, addr_slot (m_McAddrBuffId s) 0, 0)"
    "posted (calls s2) ! 1 = (data_slot (m_RioBuffId s) 1, addr_slot (m_McAddrBuffId s) 1, 1)"
    using path_posted_prefix [OF path, of 0] path_posted_prefix [OF path, of 1] len
    by (simp_all add: first(2))
  have len2: "length (posted (calls s2)) = 1500001"
    using path_counters [OF path] len full by (simp add: count_full_def)
  have "take 2 (posted (calls s2)) = [posted (calls s2) ! 0, posted (calls s2) ! 1]"
    using len2 by (simp add: numeral_2_eq_2 take_Suc_conv_app_nth)
  then have fifo: "fifo_delivery (posted (calls s2)) [(addr_at short_result 0, data_at short_result 0, 60),
      (ref_addr, ref_header, 100)] [short_result, shifted_result]"
    using post len2
    by (simp add: fifo_delivery_def delivers_def numeral_2_eq_2)
       (simp add: short_result_def shifted_result_def addr_slot_def)
  have slot: "addr_at shifted_result (Offset (addr_slot (m_McAddrBuffId s) 0)) = addr_at short_result 0"
    by (simp add: shifted_result_def addr_slot_def)
  have "m_GroupStats s2 = RioConsumer_GroupStatsUpdate (addr_at short_result 0) 100 ref_header (m_GroupStats s1)"
    by (rule odd_size_shifts_attribution [OF s s1 run fifo _ slot]) simp
  with s s1 run show ?thesis
    by (intro exI [of _ s] exI [of _ s1] exI [of _ s2] exI [of _ l2])
       (simp add: ref_addr_def short_result_def)
qed

lemma mod_shift_neq:
  fixes m p n :: nat
  assumes "p mod n \<noteq> 0"
  shows "(m + p) mod n \<noteq> m mod n"
proof
  assume "(m + p) mod n = m mod n"
  then have "n dvd m + p - m" by (subst mod_eq_dvd_iff_nat [symmetric]) simp_all
  with assms show False by (simp add: dvd_eq_mod_eq_0)
qed

lemma wrapped_slot:
  fixes n :: nat
  assumes "2 ^ 32 \<le> n" and "n < 2 ^ 33"
  shows "n mod 2 ^ 32 mod 1500000 \<noteq> n mod 1500000"
proof -
  define m where "m = n - 2 ^ 32"
  have n: "n = m + 2 ^ 32" and m: "m < 2 ^ 32" using assms by (simp_all add: m_def)
  have "n mod 2 ^ 32 = m" unfolding n mod_add_self2 using m by (rule mod_less)
  moreover have "(2 :: nat) ^ 32 mod 1500000 \<noteq> 0" by simp
  then have "(m + 2 ^ 32) mod 1500000 \<noteq> m mod 1500000" by (rule mod_shift_neq)
  ultimately show ?thesis by (simp only: n)
qed

text \<open>
  The address slot the loop reads next. The index has 32 bits and counts packets of the
  expected size, while the receives cycle through 1500000 slots, which does not divide
  \<open>2 ^ 32\<close>: the slot is the one of the oldest receive for the first \<open>2 ^ 32\<close> such packets and
  is a different one for the next \<open>2 ^ 32\<close>.
\<close>

theorem next_address_slot:
  assumes "RioConsumer_new os args = Inr s"
    and "PostFirstRecvs os (m_MaxOutstandingReceive s) (s\<lparr>m_Timing := t\<rparr>) = Inr s1"
    and "recv_loop os rds (s1, recv_locals_init) = Inr (False, s2, l2)"
  defines "n \<equiv> count_full (round_results rds)"
  shows "next_addr (s2, l2) = n mod 2 ^ 32 mod 1500000
    \<and> (n < 2 ^ 32 \<longrightarrow> next_addr (s2, l2) = n mod 1500000)
    \<and> (2 ^ 32 \<le> n \<and> n < 2 ^ 33 \<longrightarrow> next_addr (s2, l2) \<noteq> n mod 1500000)"
proof -
  have r: "recv_path os (round_results rds) (s1, recv_locals_init) (s2, l2)"
    using recv_loop_path [OF assms(3)] by auto
  have "m_MaxOutstandingReceive s1 = 1500000"
    using first_receives(1) [OF assms(1,2)] consumer_built(2) [OF assms(1)] by simp
  then have "m_MaxOutstandingReceive s2 = 1500000"
    using path_frame [OF r] by auto
  moreover have "mcAddrDescrIndex l2 = of_nat n"
    using path_counters [OF r] by (simp add: n_def recv_locals_init_def)
  moreover have "unat (of_nat n :: u32) = n mod 2 ^ 32"
    by (simp add: unat_of_nat)
  ultimately have "next_addr (s2, l2) = n mod 2 ^ 32 mod 1500000"
    by (simp add: next_addr_def unat_mod)
  then show ?thesis using wrapped_slot [of n] by simp
qed

theorem next_address_slot_witness:
  "\<exists>s s1 s2 l2. RioConsumer_new ref_os ref_args = Inr s
    \<and> recv_loop ref_os [full_round] (s1, recv_locals_init) = Inr (False, s2, l2)
    \<and> next_addr (s2, l2) = 1"
proof -
  from ref_full_run obtain s s2 where s: "RioConsumer_new ref_os ref_args = Inr s"
    and run: "RioConsumer_Start ref_os 0 [full_round] [] s = Inr (s2, None)" by blast
  from run obtain s1 l2
    where s1: "PostFirstRecvs ref_os (m_MaxOutstandingReceive s)
        (s\<lparr>m_Timing := setStart 0 (m_Timing s)\<rparr>) = Inr s1"
      and r: "recv_loop ref_os [full_round] (s1, recv_locals_init) = Inr (False, s2, l2)"
    by (auto simp: RioConsumer_Start_def bind_res_eq_Inr Let_def simp del: recv_loop.simps
        split: if_splits)
  have "count_full (round_results [full_round]) = 1"
    by (simp add: round_results_def full_round_def count_full_def full_size_def full_result_def)
  with next_address_slot [OF s s1 r] s r show ?thesis by auto
qed

section \<open>Ending a run\<close>

lemma recv_loop_append:
  "recv_loop os rds st = Inr (False, st') \<Longrightarrow> recv_loop os (rds @ rds') st = recv_loop os rds' st'"
proof (induction rds arbitrary: st)
  case (Cons rd rds)
  then obtain st1 where "recv_step os rd st = Inr (False, st1)"
    and "recv_loop os rds st1 = Inr (False, st')"
    by (auto simp: bind_res_eq_Inr split: if_splits)
  with Cons.IH [of st1] show ?case by simp
qed simp

text \<open>A running receiver ends with the next round and the next pass that see the signal.\<close>

lemma signal_ends_run:
  assumes "RioConsumer_Start os t0 rds th s = Inr (s', None)"
    and "rd_signal rd \<noteq> 0" and "sig \<noteq> 0"
  shows "\<exists>tm rep. RioConsumer_Start os t0 (rds @ [rd]) [(sig, now)] s = Inr (s'\<lparr>m_Timing := tm\<rparr>, Some rep)"
proof -
  let ?s = "s\<lparr>m_Timing := setStart t0 (m_Timing s)\<rparr>"
  from assms(1) obtain s1 l where p: "PostFirstRecvs os (m_MaxOutstandingReceive s) ?s = Inr s1"
    and r: "recv_loop os rds (s1, recv_locals_init) = Inr (False, s', l)"
    by (auto simp: RioConsumer_Start_def bind_res_eq_Inr Let_def split: if_splits)
  have "recv_step os rd (s', l) = Inr (True, s'\<lparr>m_Timing := setStop (rd_now rd) (m_Timing s')\<rparr>, l)"
    using assms(2) by (simp add: recv_step_def ShouldStop_def Let_def)
  then have loop: "recv_loop os (rds @ [rd]) (s1, recv_locals_init) =
      Inr (True, s'\<lparr>m_Timing := setStop (rd_now rd) (m_Timing s')\<rparr>, l)"
    by (simp add: recv_loop_append [OF r])
  obtain s2 where j: "JoinThread (make_thread [(sig, now)])
      (s'\<lparr>m_Timing := setStop (rd_now rd) (m_Timing s')\<rparr>) = Inr (None, s2)"
    using join_on_signal [of sig now "[(sig, now)]"] assms(3) by auto
  from JoinThread_effect [OF j] obtain tm where "s2 = s'\<lparr>m_Timing := tm\<rparr>" by auto
  with p loop j show ?thesis
    unfolding RioConsumer_Start_def Let_def by (intro exI [of _ tm] exI) simp
qed

section \<open>The time the consumer reports\<close>

text \<open>
  The running time in the consumer's final report ends with the report thread: the thread is
  joined first, and the last \<open>ShouldStop\<close> of its loop sets the stop time again. When the main
  loop has ended on the signal, the reported time runs to the thread's next pass (up to a
  tenth of a second later), and the printed rate is lower than the rate of the main loop.
\<close>

theorem reported_time_ends_at_join:
  assumes "RioConsumer_Start os t0 rds ((sig, tnow) # th) s = Inr (s', Some (timings, table))"
    and "sig \<noteq> 0"
  shows "stopTime (m_Timing s') = tnow \<and> fst timings = getElapsedTimeMs (m_Timing s')"
proof -
  from assms(1) obtain s2 t and l :: recv_locals where "JoinThread (make_thread ((sig, tnow) # th)) s2 = Inr (t, s')"
    and "timings = PrintTimings (packetCounter l) (otherPacketCounter l) s'"
    by (auto simp: RioConsumer_Start_def bind_res_eq_Inr Let_def split: if_splits)
  moreover have "ShouldStop sig tnow s2 = (False, s2\<lparr>m_Timing := setStop tnow (m_Timing s2)\<rparr>)"
    using assms(2) by (simp add: ShouldStop_def Let_def)
  ultimately show ?thesis
    by (auto simp: JoinThread_def make_thread_def PrintTimings_def Let_def setStop_def)
qed

theorem reported_time_ends_at_join_witness:
  "\<exists>s s' timings table. RioConsumer_Start ref_os 0 ref_rounds [(1, 0)] s = Inr (s', Some (timings, table))
    \<and> stopTime (m_Timing s') = 0"
proof -
  from ref_run obtain s s' timings table where
    run: "RioConsumer_Start ref_os 0 ref_rounds [(1, 0)] s = Inr (s', Some (timings, table))" by auto
  from reported_time_ends_at_join [OF run] run show ?thesis
    by (intro exI [of _ s] exI [of _ s'] exI [of _ timings] exI [of _ table]) simp
qed

section \<open>Releasing the resources\<close>

lemma joins_neutral:
  "list_all neutral_call (concat (map (\<lambda>g. [SetReuseAddr h, AddMembership h (f g) i]) gs))"
  by (induction gs) simp_all

lemma consumer_held:
  assumes "RioConsumer_new os args = Inr s"
  shows "\<exists>io. owns os io s"
proof -
  from assms obtain s1 s2 s3 s4 s5 s6 p1 i1 s7 p2 i2 s8
    where n: "RioSession_new os args = Inr s1"
      and b: "BindSocket os (McastPort args) (IfIndex args) s1 = Inr s2"
      and j: "JoinGroups os (McastAddrStr args) s2 = Inr s3"
      and r: "InitializeRIO os (s3\<lparr>m_MaxOutstandingReceive := 1500000,
           m_MaxReceiveDataBuffers := 1, m_MaxOutstandingSend := 0, m_MaxSendDataBuffers := 1,
           m_RioBuffDescr := replicate 1500000 RIO_BUF_zero\<rparr>) = Inr s4"
      and c: "CreateCompletionQueue os (m_MaxOutstandingReceive s4) s4 = Inr s5"
      and q: "CreateRequestQueue os s5 = Inr s6"
      and a1: "AllocateAndRegisterBuffer os 100 (m_MaxOutstandingReceive s6) s6 = Inr (p1, i1, s7)"
      and a2: "AllocateAndRegisterBuffer os 28 (m_MaxOutstandingReceive s7)
        (s7\<lparr>m_RioBuffPtr := p1, m_RioBuffId := i1\<rparr>) = Inr (p2, i2, s8)"
      and s: "s = RioConsumer_InitMcAddrDescriptors (s8\<lparr>m_McAddrBuffPtr := p2, m_McAddrBuffId := i2\<rparr>)"
    by (rule consumer_new_steps)
  from RioSession_new_effect [OF n] obtain h io
    where h1: "held os (calls s1) = {#Socket h, Port io#}" "m_SocketHandle s1 = h"
    by (auto simp: held_def)
  from BindSocket_effect [OF b] JoinGroups_effect [OF j] InitializeRIO_effect [OF r] h1
  have h4: "held os (calls s4) = {#Socket h, Port io#}" "m_SocketHandle s4 = h"
    by (auto simp: held_append held_from_neutral joins_neutral)
  from CreateCompletionQueue_effect [OF c, unfolded Let_def]
    CreateRequestQueue_effect [OF q, unfolded Let_def] h4
  have h6: "held os (calls s6) = {#Socket h, Port io, Queue (m_CompletionQueue s6)#}"
    "m_SocketHandle s6 = h"
    by (auto simp: held_append)
  from alloc_effect [OF a1] h6
  have h7: "held os (calls s7) = {#Socket h, Port io, Queue (m_CompletionQueue s7), Memory p1,
      Registration i1#}" "m_SocketHandle s7 = h"
    by (auto simp: held_append)
  from alloc_effect [OF a2] h7
  have "held os (calls s8) = {#Socket h, Port io, Queue (m_CompletionQueue s8), Memory p1,
      Registration i1, Memory p2, Registration i2#}" "m_SocketHandle s8 = h"
      "m_RioBuffPtr s8 = p1" "m_RioBuffId s8 = i1"
    by (auto simp: held_append)
  then show ?thesis by (auto simp: s InitMcAddrDescriptors_eq owns_def)
qed

lemma consumer_keeps:
  assumes "RioConsumer_new os args = Inr s" and "RioConsumer_Start os t0 rds th s = Inr (s', rep)"
  shows "session_keeps s s'"
proof -
  from started [OF assms] obtain s1 l' k
    where p: "PostFirstRecvs os (m_MaxOutstandingReceive s)
        (s\<lparr>m_Timing := setStart t0 (m_Timing s)\<rparr>) = Inr s1"
      and r: "recv_path os (round_results (take k rds)) (s1, recv_locals_init) (s', l')" by blast
  have "session_keeps s s1"
    by (simp add: session_keeps_def first_receives(1) [OF assms(1) p] list_all_iff)
  moreover have "session_keeps s1 s'"
    using path_frame [OF r] by (auto simp: session_keeps_def)
  ultimately show ?thesis by (rule session_keeps_trans)
qed

text \<open>
  C14: The consumer gives back what it took. After construction, any finished run and
  \<open>CleanUpRIO\<close>, every socket, completion queue, buffer and buffer registration the program
  acquired has been released, each under the value it was acquired with; only the
  completion port stays open.
\<close>

theorem consumer_releases_resources:
  assumes "RioConsumer_new os args = Inr s" and "RioConsumer_Start os t0 rds th s = Inr (s', rep)"
    and "CleanUpRIO os s' = Inr s''"
  shows "\<exists>io. held os (calls s'') = {#Port io#}"
proof -
  obtain io where "owns os io s" using consumer_held [OF assms(1)] by blast
  then have "owns os io s'" by (rule owns_keeps) (rule consumer_keeps [OF assms(1,2)])
  from owns_cleanup [OF this assms(3)] show ?thesis by blast
qed

theorem consumer_releases_resources_witness:
  "\<exists>s s' rep s'' io. RioConsumer_new ref_os ref_args = Inr s
    \<and> RioConsumer_Start ref_os 0 ref_rounds [(1, 0)] s = Inr (s', Some rep)
    \<and> CleanUpRIO ref_os s' = Inr s'' \<and> held ref_os (calls s'') = {#Port io#}"
proof -
  from ref_run obtain s s' rep where s: "RioConsumer_new ref_os ref_args = Inr s"
    and run: "RioConsumer_Start ref_os 0 ref_rounds [(1, 0)] s = Inr (s', Some rep)" by blast
  obtain s'' where c: "CleanUpRIO ref_os s' = Inr s''" using refos.cleanup_up by blast
  from consumer_releases_resources [OF s run c] s run c show ?thesis by blast
qed

section \<open>The end of the loop\<close>

lemma signal_ends_loop:
  "recv_loop os rds st = Inr (ended, st') \<Longrightarrow> rd \<in> set rds \<Longrightarrow> rd_signal rd \<noteq> 0 \<Longrightarrow> ended"
proof (induction rds arbitrary: st)
  case (Cons rd' rds)
  from Cons.prems(1) obtain e st1 where step: "recv_step os rd' st = Inr (e, st1)"
    and rest: "if e then ended else recv_loop os rds st1 = Inr (ended, st')"
    by (auto simp: bind_res_eq_Inr split: if_splits)
  have "e" if "rd = rd'"
    using step Cons.prems(3) that
    by (auto simp: recv_step_def ShouldStop_def Let_def split: prod.splits)
  with rest Cons.IH [of st1] Cons.prems(2,3) show ?case by (cases e) auto
qed simp

text \<open>The descriptors stay in place, so a valid request context never leaves the arrays.\<close>

definition descriptors_ok :: "RioSession \<Rightarrow> bool" where
  "descriptors_ok s \<longleftrightarrow> m_MaxOutstandingReceive s = 1500000
     \<and> length (m_RioBuffDescr s) = 1500000 \<and> length (m_McAddrDescr s) = 1500000"

lemma path_descriptors:
  "recv_path os rs (s, l) (s', l') \<Longrightarrow> descriptors_ok s \<Longrightarrow> descriptors_ok s'"
  by (drule path_frame) (auto simp: descriptors_ok_def)

context os_up
begin

lemma process_results_up:
  "descriptors_ok s \<Longrightarrow> (\<And>r. r \<in> set rs \<Longrightarrow> RequestContext r < 1500000) \<Longrightarrow>
     \<exists>st'. process_results os rs (s, l) = Inr st'"
proof (induction rs arbitrary: s l)
  case (Cons r rs)
  have "\<exists>st'. process_result os r (s, l) = Inr st'"
  proof (cases "full_size r")
    case True
    then show ?thesis
      by (rule full_result_up) (use Cons.prems in \<open>simp_all add: descriptors_ok_def\<close>)
  next
    case False
    then show ?thesis by (simp add: process_odd)
  qed
  then obtain s1 l1 where r: "process_result os r (s, l) = Inr (s1, l1)" by fastforce
  have "descriptors_ok s1"
    using path_descriptors [OF path_result [OF r path_nil]] Cons.prems(1) by simp
  from Cons.IH [OF this] Cons.prems(2) show ?case by (simp add: r)
qed simp

lemma recv_step_up:
  assumes "descriptors_ok s" and "\<And>r. r \<in> set (round_results [rd]) \<Longrightarrow> RequestContext r < 1500000"
  shows "\<exists>e st'. recv_step os rd (s, l) = Inr (e, st')"
proof -
  have "\<exists>st'. process_results os (round_results [rd]) (s', l') = Inr st'"
    if "descriptors_ok s'" for s' l'
    using process_results_up [OF that assms(2)] .
  moreover have "round_results [rd] = (case rd_results rd of None \<Rightarrow> [] | Some rs \<Rightarrow> rs)"
    by (simp add: round_results_def)
  ultimately have results: "\<exists>st'. process_results os
      (case rd_results rd of None \<Rightarrow> [] | Some rs \<Rightarrow> rs) (s', l') = Inr st'"
    if "descriptors_ok s'" for s' l' using that by simp
  have batch: "\<exists>st'. recv_batch os rd (s', l') = Inr st'" if ok: "descriptors_ok s'" for s' l'
  proof -
    let ?s = "if m_TotalPkts s' = 0 then s'\<lparr>m_Timing := setStart (rd_start rd) (m_Timing s')\<rparr> else s'"
    have "descriptors_ok ?s" using ok by (simp add: descriptors_ok_def)
    from results [OF this, of l'] obtain s2 l2
      where "process_results os (case rd_results rd of None \<Rightarrow> [] | Some rs \<Rightarrow> rs) (?s, l') = Inr (s2, l2)"
      by fastforce
    then show ?thesis by (simp add: recv_batch_def Let_def)
  qed
  obtain go t where ss: "ShouldStop (rd_signal rd) (rd_now rd) s = (go, s\<lparr>m_Timing := t\<rparr>)"
    using ShouldStop_state [of "rd_signal rd" "rd_now rd" s] by (metis prod.collapse)
  have "descriptors_ok (s\<lparr>m_Timing := t\<rparr>)"
    "descriptors_ok (s\<lparr>m_Timing := t, calls := calls s @ [RIONotify (m_CompletionQueue s)]\<rparr>)"
    using assms(1) by (simp_all add: descriptors_ok_def)
  then have b: "\<exists>s2 l2. recv_batch os rd (s\<lparr>m_Timing := t\<rparr>, l') = Inr (s2, l2)"
    "\<exists>s2 l2. recv_batch os rd (s\<lparr>m_Timing := t,
       calls := calls s @ [RIONotify (m_CompletionQueue s)]\<rparr>, l') = Inr (s2, l2)" for l'
    using batch by fastforce+
  let ?l = "if rd_completed rd then l else l\<lparr>shouldNotify := False\<rparr>"
  from b [of ?l] show ?thesis
    by (cases go; cases "shouldNotify l") (auto simp: recv_step_def ss notify_up Let_def)
qed

lemma recv_loop_up:
  "descriptors_ok s \<Longrightarrow> (\<And>r. r \<in> set (round_results rds) \<Longrightarrow> RequestContext r < 1500000) \<Longrightarrow>
     \<exists>e st'. recv_loop os rds (s, l) = Inr (e, st')"
proof (induction rds arbitrary: s l)
  case (Cons rd rds)
  have rr: "set (round_results (rd # rds)) = set (round_results [rd]) \<union> set (round_results rds)"
    by (simp add: round_results_def)
  obtain e s1 l1 where step: "recv_step os rd (s, l) = Inr (e, s1, l1)"
    using recv_step_up [OF Cons.prems(1), of rd l] Cons.prems(2) rr by (metis Un_iff prod.collapse)
  have "descriptors_ok s1" by (rule path_descriptors [OF recv_step_path [OF step] Cons.prems(1)])
  from Cons.IH [OF this] Cons.prems(2) rr
  have "\<exists>e' st'. recv_loop os rds (s1, l1) = Inr (e', st')" by blast
  then show ?case by (cases e) (auto simp: step intro: exI [of _ True])
qed (auto intro: exI [of _ False])

lemma consumer_stops_up:
  assumes "RioConsumer_new os args = Inr s"
    and "\<And>r. r \<in> set (round_results rds) \<Longrightarrow> RequestContext r < 1500000"
    and "rd \<in> set rds" and "rd_signal rd \<noteq> 0" and th: "(sig, tnow) \<in> set th" "sig \<noteq> 0"
  shows "\<exists>s' rep. RioConsumer_Start os t0 rds th s = Inr (s', Some rep)"
proof -
  note built = consumer_built [OF assms(1)]
  have "\<exists>s1. PostFirstRecvs os (m_MaxOutstandingReceive s)
      (s\<lparr>m_Timing := setStart t0 (m_Timing s)\<rparr>) = Inr s1"
    unfolding PostFirstRecvs_def by (rule first_recvs_up) (simp_all add: built(2,3,4))
  then obtain s1 where s1: "PostFirstRecvs os (m_MaxOutstandingReceive s)
      (s\<lparr>m_Timing := setStart t0 (m_Timing s)\<rparr>) = Inr s1" by blast
  have "descriptors_ok s1"
    by (simp add: descriptors_ok_def first_receives(1) [OF assms(1) s1] built(2,4))
  from recv_loop_up [OF this assms(2)] obtain e s' l'
    where r: "recv_loop os rds (s1, recv_locals_init) = Inr (e, s', l')"
    by (metis prod.collapse)
  have "e" using signal_ends_loop [OF r assms(3,4)] .
  moreover obtain s2 where "JoinThread (make_thread th) s' = Inr (None, s2)"
    using join_on_signal [OF th] by blast
  ultimately show ?thesis
    using s1 r unfolding RioConsumer_Start_def Let_def by (intro exI [of _ s2] exI) simp
qed

end

text \<open>
  The consumer stops when it is told to. On a system where every call reports success
  and every result carries the context of one of the receives, a run with a round in which
  the exit signal is set, and with a pass of the report thread that sees it, ends with the
  final report, whatever else the rounds deliver.
\<close>

theorem consumer_stops_on_signal:
  assumes "\<And>c tr. succeeded c (sys os tr c)"
    and "RioConsumer_new os args = Inr s"
    and "\<And>r. r \<in> set (round_results rds) \<Longrightarrow> RequestContext r < 1500000"
    and "rd \<in> set rds" and "rd_signal rd \<noteq> 0" and "(sig, tnow) \<in> set th" and "sig \<noteq> 0"
  shows "\<exists>s' rep. RioConsumer_Start os t0 rds th s = Inr (s', Some rep)"
proof -
  from assms(1) have "os_up os" by unfold_locales
  from os_up.consumer_stops_up [OF this assms(2-7)] show ?thesis .
qed

theorem consumer_stops_on_signal_witness:
  "\<exists>s s' rep. RioConsumer_new ref_os ref_args = Inr s
    \<and> RioConsumer_Start ref_os 0 [full_round, quiet_round\<lparr>rd_signal := 1\<rparr>] [(1, 0)] s = Inr (s', Some rep)"
proof -
  from ref_consumer obtain s where s: "RioConsumer_new ref_os ref_args = Inr s" by blast
  have "\<exists>s' rep. RioConsumer_Start ref_os 0 [full_round, quiet_round\<lparr>rd_signal := 1\<rparr>] [(1, 0)] s
      = Inr (s', Some rep)"
    by (rule consumer_stops_on_signal [OF refos.call_succeeds s, of _ "quiet_round\<lparr>rd_signal := 1\<rparr>" 1 0])
       (simp_all add: round_results_def full_round_def quiet_round_def full_result_def)
  with s show ?thesis by blast
qed

lemma step_packets:
  assumes "recv_step os rd (s, l) = Inr (e, s', l')"
  shows "m_TotalPkts s' = m_TotalPkts s
    \<or> fst (ShouldStop (rd_signal rd) (rd_now rd) s)
      \<and> m_TotalPkts s' = m_TotalPkts s + of_nat (length (round_results [rd]))"
    and "m_Args s' = m_Args s"
proof -
  note p = recv_step_path [OF assms]
  have "e \<longleftrightarrow> \<not> fst (ShouldStop (rd_signal rd) (rd_now rd) s)"
    using assms by (auto simp: recv_step_def bind_res_eq_Inr Let_def split: prod.splits if_splits)
  with path_counters [OF p] show "m_TotalPkts s' = m_TotalPkts s
    \<or> fst (ShouldStop (rd_signal rd) (rd_now rd) s)
      \<and> m_TotalPkts s' = m_TotalPkts s + of_nat (length (round_results [rd]))"
    by (cases e) auto
  show "m_Args s' = m_Args s" using path_frame [OF p] by auto
qed

text \<open>
  The packet limit is kept up to one batch. With a limit of \<open>P > 0\<close> packets and batches
  of at most \<open>MAX_RIO_RESULTS\<close> results, the receiver never counts \<open>P + 1000\<close> packets or more,
  in any run, finished or not.
\<close>

theorem packet_limit_overshoot:
  assumes "recv_loop os rds (s, l) = Inr (ended, s', l')"
    and "PktsToCount (m_Args s) \<noteq> 0" and "unat (PktsToCount (m_Args s)) + 1000 \<le> 2 ^ 32"
    and "unat (m_TotalPkts s) < unat (PktsToCount (m_Args s)) + 1000"
    and "\<And>rd. rd \<in> set rds \<Longrightarrow> length (round_results [rd]) \<le> unat MAX_RIO_RESULTS"
  shows "unat (m_TotalPkts s') < unat (PktsToCount (m_Args s)) + 1000"
  using assms
proof (induction rds arbitrary: s l)
  case Nil
  then show ?case by simp
next
  case (Cons rd rds)
  let ?P = "unat (PktsToCount (m_Args s))"
  from Cons.prems(1) obtain e s1 l1 where step: "recv_step os rd (s, l) = Inr (e, s1, l1)"
    and rest: "if e then s' = s1 else recv_loop os rds (s1, l1) = Inr (ended, s', l')"
    by (auto simp: bind_res_eq_Inr split: if_splits)
  note sp = step_packets [OF step]
  have s1: "unat (m_TotalPkts s1) < ?P + 1000"
  proof (cases "m_TotalPkts s1 = m_TotalPkts s")
    case True
    then show ?thesis using Cons.prems(4) by simp
  next
    case False
    with sp(1) have go: "fst (ShouldStop (rd_signal rd) (rd_now rd) s)"
      and eq: "m_TotalPkts s1 = m_TotalPkts s + of_nat (length (round_results [rd]))" by auto
    have "ucast (m_TotalPkts s) < PktsToCount (m_Args s)"
      using go Cons.prems(2) by (simp add: ShouldStop_def Let_def)
    then have lt: "unat (m_TotalPkts s) < ?P"
      using unat_below [of "m_TotalPkts s"] by (simp add: word_less_nat_alt unat_ucast_less)
    have b: "length (round_results [rd]) \<le> 1000"
      using Cons.prems(5) [of rd] by (simp add: MAX_RIO_RESULTS_def)
    then have "unat (of_nat (length (round_results [rd])) :: u32) = length (round_results [rd])"
      by (simp add: unat_of_nat_less)
    with eq lt b Cons.prems(3) have "unat (m_TotalPkts s1) =
        unat (m_TotalPkts s) + length (round_results [rd])"
      by (simp add: unat_add_less)
    with lt b show ?thesis by simp
  qed
  show ?case
  proof (cases e)
    case True
    with rest s1 show ?thesis by simp
  next
    case False
    with rest have "recv_loop os rds (s1, l1) = Inr (ended, s', l')" by simp
    from Cons.IH [OF this] show ?thesis
      using Cons.prems(2,3,5) s1 by (simp add: sp(2))
  qed
qed

theorem packet_limit_overshoot_witness:
  "\<exists>s l s' l'. PktsToCount (m_Args s) = 1
    \<and> recv_loop ref_os ref_rounds (s, l) = Inr (True, s', l') \<and> unat (m_TotalPkts s') < 1001"
proof -
  let ?s = "RioSession_uninit (ref_args\<lparr>PktsToCount := 1\<rparr>)" and ?l = "recv_locals_init"
  have "\<exists>s' l'. recv_loop ref_os ref_rounds (?s, ?l) = Inr (True, s', l')"
    by (simp add: ref_rounds_def quiet_round_def recv_step_def recv_batch_def ShouldStop_def Let_def
        recv_locals_init_def refos.notify_up process_odd full_size_def short_result_def ref_args_def
        RioSession_uninit_def)
  then obtain s' l' where r: "recv_loop ref_os ref_rounds (?s, ?l) = Inr (True, s', l')" by blast
  have small: "length (round_results [rd]) \<le> unat MAX_RIO_RESULTS" if "rd \<in> set ref_rounds" for rd
    using that by (auto simp: ref_rounds_def quiet_round_def round_results_def MAX_RIO_RESULTS_def)
  have "unat (m_TotalPkts s') < 1001"
    using packet_limit_overshoot [OF r _ _ _ small] by (simp add: RioSession_uninit_def)
  with r show ?thesis
    by (intro exI [of _ ?s] exI [of _ ?l] exI [of _ s'] exI [of _ l'])
       (simp add: RioSession_uninit_def)
qed

end
