(* ===== verification/Consumer_Reports.thy ===== *)
theory Consumer_Reports
  imports Report_Run Consumer_Accounting
begin

text \<open>
  The receiver and its report thread in one run of the consumer (RioConsumer.cpp): the rows
  that \<open>ReportWorker\<close> prints while packets come in, and the final table of the same run.
\<close>

section \<open>Packets and passes in one order\<close>

fun packets_of :: "rx_event list \<Rightarrow> (SOCKADDR_INET \<times> ProtocolHeader_t) list" where
  "packets_of [] = []"
| "packets_of (Packet addr hdr # es) = (addr, hdr) # packets_of es"
| "packets_of (Tick now # es) = packets_of es"

lemma length_packets_of: "length (packets_of es) = packets_in es"
  by (induction es rule: packets_of.induct) simp_all

text \<open>The passes only read: the map is that of the packets, wherever the passes are.\<close>

lemma rx_run_map: "fst (fst (rx_run es (m, st))) = consumer_stream 100 (packets_of es) m"
proof (induction es arbitrary: m st rule: packets_of.induct)
  case 1
  then show ?case by (simp add: consumer_stream_def)
next
  case (2 addr hdr es)
  have "fst (fst (rx_run (Packet addr hdr # es) (m, st))) =
      fst (fst (rx_run es (RioConsumer_GroupStatsUpdate addr 100 hdr m, st)))"
    by (simp split: prod.splits)
  then show ?case by (simp only: 2 packets_of.simps consumer_stream_Cons)
next
  case (3 now es)
  have "fst (fst (rx_run (Tick now # es) (m, st))) =
      fst (fst (rx_run es (m, fst (ReportWorker_step now m st))))"
    by (simp split: prod.splits)
  then show ?case by (simp only: 3 packets_of.simps)
qed

text \<open>The packets of the abstract rows are the reported ones.\<close>

lemma spec_reported:
  "reported a \<le> seen a \<Longrightarrow> spec_run es a = (a', outa) \<Longrightarrow>
     sum_list (map (\<lambda>(n, k, dt). k) outa) + reported a = reported a' \<and> reported a' \<le> seen a'"
proof (induction es arbitrary: a a' outa)
  case (Cons e es)
  obtain a1 out1 where s: "spec_step e a = (a1, out1)" by fastforce
  obtain a2 out2 where r: "spec_run es a1 = (a2, out2)" by fastforce
  have "sum_list (map (\<lambda>(n, k, dt). k) out1) + reported a = reported a1 \<and> reported a1 \<le> seen a1"
    using s Cons.prems(1) by (cases e) (auto split: if_splits)
  with Cons.IH [OF _ r] Cons.prems(2) show ?case by (auto simp: s r)
qed simp

lemma printed_rows:
  "list_all2 row_shows rs xs \<Longrightarrow>
     sum_list (map (\<lambda>r. unat (rxDeltaPackets r)) rs) = sum_list (map (\<lambda>(n, k, dt). k) xs)"
  by (induction rule: list_all2_induct) (auto simp: row_shows_def)

section \<open>Rows and final table\<close>

text \<open>
  C9: The rows of the report thread and the final table agree. Take any finished run of the
  consumer over at most \<open>2 ^ 32\<close> packets of the expected size that complete in posting order,
  and put passes of the report thread anywhere between the packets. Then the rows show the
  reports of the abstract reporter, the packets of the rows and those that came after the last
  row are together the packets of the final table, each counted once, and the bytes of the
  final table are 100 for each packet. Longer runs are not covered: the index of the address
  slots wraps at \<open>2 ^ 32\<close>.
\<close>

theorem rows_add_up_to_final_table:
  assumes "RioConsumer_new os args = Inr s"
    and "RioConsumer_Start os t0 rds th s = Inr (s', Some (timings, rows, totals))"
  shows "\<exists>k \<le> length rds. m_TotalPkts s' = of_nat (length (round_results (take k rds)))
    \<and> (\<forall>pkts es. fifo_delivery (posted (calls s')) pkts (round_results (take k rds))
      \<and> (\<forall>(addr, hdr, len) \<in> set pkts. len = 100) \<and> length pkts \<le> 2 ^ 32
      \<and> packets_of es = headers pkts \<longrightarrow>
    (let ((m, st), out) = rx_run es (InitGroupStats (map ipNetOrder (McastAddrStr args)) [], ReportState_init);
         (a, spec_rows) = spec_run es \<lparr>seen = 0, reported = 0, since = 0\<rparr>;
         printed = sum_list (map (\<lambda>r. unat (rxDeltaPackets r)) (rows_of out))
     in m = m_GroupStats s' \<and> list_all2 row_shows (rows_of out) spec_rows
      \<and> printed + (seen a - reported a) = length pkts \<and> reported a \<le> seen a
      \<and> unat (fst totals) = length pkts \<and> unat (fst (snd totals)) = 100 * length pkts))"
proof -
  from attribution [OF assms] obtain k where k: "k \<le> length rds"
    and count: "m_TotalPkts s' = of_nat (length (round_results (take k rds)))"
    and stream: "\<forall>pkts. fifo_delivery (posted (calls s')) pkts (round_results (take k rds))
       \<and> (\<forall>(addr, hdr, len) \<in> set pkts. len = 100) \<and> length pkts \<le> 2 ^ 32 \<longrightarrow>
       m_GroupStats s' = consumer_stream 100 (headers pkts)
         (InitGroupStats (map ipNetOrder (McastAddrStr args)) [])" by blast
  have "(rows, totals) = RioConsumer_GroupStatsPrint (inet_ntop4 (net os)) (m_GroupStats s')"
    using started [OF assms] by auto
  then have totals: "totals = snd (RioConsumer_GroupStatsPrint (inet_ntop4 (net os)) (m_GroupStats s'))"
    by (metis snd_conv)
  show ?thesis
  proof (intro exI [of _ k] conjI k count allI impI)
    fix pkts es
    let ?m0 = "InitGroupStats (map ipNetOrder (McastAddrStr args)) []"
      and ?a0 = "\<lparr>seen = 0, reported = 0, since = 0\<rparr>"
    assume h: "fifo_delivery (posted (calls s')) pkts (round_results (take k rds))
      \<and> (\<forall>(addr, hdr, len) \<in> set pkts. len = 100) \<and> length pkts \<le> 2 ^ 32
      \<and> packets_of es = headers pkts"
    obtain m st out where run: "rx_run es (?m0, ReportState_init) = ((m, st), out)"
      by (metis prod.collapse)
    obtain a spec_rows where spec: "spec_run es ?a0 = (a, spec_rows)" by fastforce
    have "m_GroupStats s' = consumer_stream 100 (headers pkts) ?m0" using stream h by blast
    then have m: "m = m_GroupStats s'" using rx_run_map [of es ?m0 ReportState_init] run h by simp
    have n: "packets_in es = length pkts"
      using h length_packets_of [of es] by (simp add: headers_def)
    then have "seen ?a0 + packets_in es < 2 ^ 57" using h by simp
    from run_refines [OF abstracts_init this run spec] n
    have ref: "abstracts (m, st) a" "list_all2 row_shows (rows_of out) spec_rows" "seen a = length pkts"
      by simp_all
    have printed: "sum_list (map (\<lambda>r. unat (rxDeltaPackets r)) (rows_of out)) = reported a"
      and rep: "reported a \<le> seen a"
      using spec_reported [OF _ spec] printed_rows [OF ref(2)] by simp_all
    have "TotalPackets (GetMcTotals m) = of_nat (length pkts)"
      "TotalBytes (GetMcTotals m) = of_nat (100 * length pkts)"
      using ref(1,3) by (auto simp: abstracts_def counted_def)
    moreover have "unat (of_nat n :: u64) = n" if "n \<le> 100 * 2 ^ 32" for n
      using that by (intro unat_of_nat_less) simp
    ultimately have "unat (fst totals) = length pkts" "unat (fst (snd totals)) = 100 * length pkts"
      using h by (simp_all add: totals final_report_totals m del: of_nat_mult)
    then show "let ((m, st), out) = rx_run es (?m0, ReportState_init);
         (a, spec_rows) = spec_run es ?a0;
         printed = sum_list (map (\<lambda>r. unat (rxDeltaPackets r)) (rows_of out))
     in m = m_GroupStats s' \<and> list_all2 row_shows (rows_of out) spec_rows
      \<and> printed + (seen a - reported a) = length pkts \<and> reported a \<le> seen a
      \<and> unat (fst totals) = length pkts \<and> unat (fst (snd totals)) = 100 * length pkts"
      using m ref(2,3) printed rep by (simp add: run spec)
  qed
qed

text \<open>A run of one packet, reported five seconds into the run.\<close>

theorem rows_add_up_to_final_table_witness:
  "\<exists>s s' timings rows totals. RioConsumer_new ref_os ref_args = Inr s
    \<and> RioConsumer_Start ref_os 0 ([full_round] @ [quiet_round\<lparr>rd_signal := 1\<rparr>]) [(1, 0)] s
        = Inr (s', Some (timings, rows, totals))
    \<and> unat (fst totals) = 1
    \<and> sum_list (map (\<lambda>r. unat (rxDeltaPackets r)) (rows_of (snd (rx_run
        [Packet ref_addr ref_header, Tick 5000000000]
        (InitGroupStats (map ipNetOrder (McastAddrStr ref_args)) [], ReportState_init))))) = 1"
proof -
  let ?rds = "[full_round] @ [quiet_round\<lparr>rd_signal := 1\<rparr>]" and ?pkts = "[(ref_addr, ref_header, 100)]"
    and ?es = "[Packet ref_addr ref_header, Tick 5000000000]"
  from ref_full_run obtain s s1 where s: "RioConsumer_new ref_os ref_args = Inr s"
    and run: "RioConsumer_Start ref_os 0 [full_round] [] s = Inr (s1, None)"
    and post: "posted (calls s1) ! 0 = (data_slot (m_RioBuffId s) 0, addr_slot (m_McAddrBuffId s) 0, 0)"
      "length (posted (calls s1)) = 1500001" by blast
  from signal_ends_run [OF run, of "quiet_round\<lparr>rd_signal := 1\<rparr>" 1 0] obtain tm rep
    where run2: "RioConsumer_Start ref_os 0 ?rds [(1, 0)] s = Inr (s1\<lparr>m_Timing := tm\<rparr>, Some rep)" by auto
  obtain timings rows totals where rep: "rep = (timings, rows, totals)" by (metis prod.collapse)
  have one: "round_results [full_round] = [full_result]"
    by (simp add: round_results_def full_round_def)
  have total: "m_TotalPkts s1 = 1" using attribution [OF s run] by (auto simp: one)
  have results: "round_results (take k ?rds) = (if k = 0 then [] else [full_result])" for k
    by (cases k; cases "k - 1") (simp_all add: round_results_def full_round_def quiet_round_def)
  have "take (Suc 0) (posted (calls s1)) =
      [(data_slot (m_RioBuffId s) 0, addr_slot (m_McAddrBuffId s) 0, 0)]"
    using post by (cases "posted (calls s1)") auto
  then have fifo: "fifo_delivery (posted (calls s1)) ?pkts [full_result]"
    by (simp add: fifo_delivery_def post(2) delivers_def full_result_def)
  have es: "packets_of ?es = headers ?pkts" by (simp add: headers_def)
  from rows_add_up_to_final_table [OF s run2 [unfolded rep]] obtain k
    where count: "m_TotalPkts (s1\<lparr>m_Timing := tm\<rparr>) = of_nat (length (round_results (take k ?rds)))"
      and rows: "\<forall>pkts es. fifo_delivery (posted (calls (s1\<lparr>m_Timing := tm\<rparr>))) pkts (round_results (take k ?rds))
      \<and> (\<forall>(addr, hdr, len) \<in> set pkts. len = 100) \<and> length pkts \<le> 2 ^ 32
      \<and> packets_of es = headers pkts \<longrightarrow>
    (let ((m, st), out) = rx_run es (InitGroupStats (map ipNetOrder (McastAddrStr ref_args)) [], ReportState_init);
         (a, spec_rows) = spec_run es \<lparr>seen = 0, reported = 0, since = 0\<rparr>;
         printed = sum_list (map (\<lambda>r. unat (rxDeltaPackets r)) (rows_of out))
     in m = m_GroupStats (s1\<lparr>m_Timing := tm\<rparr>) \<and> list_all2 row_shows (rows_of out) spec_rows
      \<and> printed + (seen a - reported a) = length pkts \<and> reported a \<le> seen a
      \<and> unat (fst totals) = length pkts \<and> unat (fst (snd totals)) = 100 * length pkts)" by blast
  have "k \<noteq> 0" using count total by (cases k) (simp_all add: round_results_def)
  then have rr: "round_results (take k ?rds) = [full_result]" using results [of k] by simp
  note all = rows [unfolded rr, THEN spec [of _ ?pkts], THEN spec [of _ ?es]]
  have "fifo_delivery (posted (calls (s1\<lparr>m_Timing := tm\<rparr>))) ?pkts [full_result]
      \<and> (\<forall>(addr, hdr, len) \<in> set ?pkts. len = 100) \<and> length ?pkts \<le> 2 ^ 32
      \<and> packets_of ?es = headers ?pkts"
    using fifo es by simp
  note all = mp [OF all this]
  have "spec_run ?es \<lparr>seen = 0, reported = 0, since = 0\<rparr> =
      (\<lparr>seen = 1, reported = 1, since = 5000000000\<rparr>, [(1, 1, 5000000000)])" by simp
  with all s run2 rep show ?thesis
    by (intro exI [of _ s] exI [of _ "s1\<lparr>m_Timing := tm\<rparr>"] exI [of _ timings] exI [of _ rows] exI [of _ totals])
       (simp add: case_prod_beta Let_def del: rx_run.simps spec_run.simps)
qed

end
