(* ===== verification/Adapters.thy ===== *)
theory Adapters
  imports Cpp_Std "HOL-Library.Multiset"
begin

text \<open>
  Finding the network interface and the texts of system errors (Utilities.hpp). The heap and
  the IP helper API are an argument: the functions of \<open>adapter_env\<close> give what a call returns
  after the calls in a trace, and the conversion of wide names. Every operation returns its result with the trace extended by
  its own calls, so that what it leaves allocated can be read off, also when it throws.
\<close>

section \<open>The interface to the system\<close>

record IP_ADAPTER_ADDRESSES =
  aa_IfIndex :: u32
  aa_FriendlyName :: "u16 list"

record IP_ADAPTER_INFO =
  ai_Index :: u32
  ai_IpAddress :: string

text \<open>The calls, an allocation with the pointer it returned.\<close>

datatype heap_call =
    Malloc u32 u64
  | Free u64
  | GetAdaptersAddressesCall u64 u32
  | GetAdaptersInfoCall u64 u32

text \<open>
  The two queries take the buffer and its size and return the code, the updated size, and the
  list the buffer holds afterwards. \<open>to_bytes\<close> is the member of \<open>std::wstring_convert\<close> for
  \<open>std::codecvt_utf8_utf16\<close>.
\<close>

record adapter_env =
  malloc :: "heap_call list \<Rightarrow> u32 \<Rightarrow> u64"
  GetAdaptersAddresses ::
    "heap_call list \<Rightarrow> u64 \<Rightarrow> u32 \<Rightarrow> u32 \<times> u32 \<times> IP_ADAPTER_ADDRESSES list"
  GetAdaptersInfo :: "heap_call list \<Rightarrow> u64 \<Rightarrow> u32 \<Rightarrow> u32 \<times> u32 \<times> IP_ADAPTER_INFO list"
  sizeof_addresses :: u32
  sizeof_info :: u32
  to_bytes :: "u16 list \<Rightarrow> string result"

definition NO_ERROR :: u32 where "NO_ERROR = 0"
definition ERROR_BUFFER_OVERFLOW :: u32 where "ERROR_BUFFER_OVERFLOW = 111"
definition ERROR_NO_DATA :: u32 where "ERROR_NO_DATA = 232"

type_synonym 'a heap_op = "heap_call list \<Rightarrow> 'a result \<times> heap_call list"

definition do_malloc :: "adapter_env \<Rightarrow> u32 \<Rightarrow> heap_call list \<Rightarrow> u64 \<times> heap_call list" where
  "do_malloc env n tr = (let p = malloc env tr n in (p, tr @ [Malloc n p]))"

section \<open>Names\<close>

text \<open>
  \<open>std::isdigit\<close> is undefined for a negative argument other than \<open>EOF\<close> (-1), so for the
  characters from 128 to 254 of a signed \<open>char\<close>.
\<close>

fun nicIsNumber :: "string \<Rightarrow> bool result" where
  "nicIsNumber [] = Inr True"
| "nicIsNumber (c # cs) =
     (if 128 \<le> (of_char c :: nat) \<and> (of_char c :: nat) < 255 then Inl (Undefined ''isdigit'')
      else if \<not> is_digit c then Inr False
      else nicIsNumber cs)"

text \<open>The conversion of a wide name is the one of the standard library, an argument of the model.\<close>

definition wstr_to_str :: "adapter_env \<Rightarrow> u16 list \<Rightarrow> string result" where
  "wstr_to_str env wstr = to_bytes env wstr"

section \<open>LocateAdapterWithIfName\<close>

text \<open>The loop over the list; the index is stored in a \<open>uint8_t\<close>.\<close>

fun locate_loop :: "adapter_env \<Rightarrow> bool \<Rightarrow> string \<Rightarrow> IP_ADAPTER_ADDRESSES list \<Rightarrow> u8 option result" where
  "locate_loop env isNumeric ifNameToFind [] = Inr None"
| "locate_loop env isNumeric ifNameToFind (a # as) =
     bind_res (if isNumeric then Inr (dec_of_nat (unat (aa_IfIndex a)))
               else wstr_to_str env (aa_FriendlyName a))
       (\<lambda>fName. if fName = ifNameToFind then Inr (Some (ucast (aa_IfIndex a)))
                else locate_loop env isNumeric ifNameToFind as)"

definition locate_in :: "adapter_env \<Rightarrow> string \<Rightarrow> IP_ADAPTER_ADDRESSES list \<Rightarrow> u8 result" where
  "locate_in env ifNameToFind addresses =
     bind_res (nicIsNumber ifNameToFind) (\<lambda>isNumeric.
     bind_res (locate_loop env isNumeric ifNameToFind addresses) (\<lambda>found.
       case found of
         Some ifIndex \<Rightarrow> Inr ifIndex
       | None \<Rightarrow> Inl (Throw (runtime_error
           (if isNumeric then ''--- No interface with index: '' @ ifNameToFind @ '' was found ''
            else ''--- No interface with name: '' @ ifNameToFind @ '' was found '')))))"

definition LocateAdapterWithIfName :: "adapter_env \<Rightarrow> string \<Rightarrow> u8 heap_op" where
  "LocateAdapterWithIfName env ifNameToFind tr =
     (let outBufLen = sizeof_addresses env;
          (p, tr) = do_malloc env outBufLen tr;
          (r, len, _) = GetAdaptersAddresses env tr p outBufLen;
          tr = tr @ [GetAdaptersAddressesCall p outBufLen];
          (p, tr) = (if r = ERROR_BUFFER_OVERFLOW then do_malloc env len (tr @ [Free p])
                     else (p, tr))
      in if p = 0 then
           (Inl (Throw (runtime_error ''--- Memory Allocation failed for IP_ADAPTER_ADDRESSES struct '')), tr)
         else
           (let (r, _, addresses) = GetAdaptersAddresses env tr p len;
                tr = tr @ [GetAdaptersAddressesCall p len]
            in if r \<noteq> NO_ERROR then
                 (if r = ERROR_NO_DATA then
                    (Inl (Throw (runtime_error ''--- Unable to found any IPv4 Interface '')), tr)
                  else (Inl (Throw (runtime_error ''-- Unexpected error trying to get Interface Info '')),
                        tr @ [Free p]))
               else (locate_in env ifNameToFind addresses, tr)))"

section \<open>GetInterfaceIpAddress\<close>

definition FreeAdapterInfo :: "u64 \<Rightarrow> heap_call list \<Rightarrow> heap_call list" where
  "FreeAdapterInfo p tr = (if p \<noteq> 0 then tr @ [Free p] else tr)"

text \<open>The result is \<open>None\<close> for the null pointer, otherwise the pointer and the list behind it.\<close>

definition CreateAdapterInfo ::
    "adapter_env \<Rightarrow> heap_call list \<Rightarrow> (u64 \<times> IP_ADAPTER_INFO list) option \<times> heap_call list" where
  "CreateAdapterInfo env tr =
     (let Buflen = sizeof_info env;
          (p, tr) = do_malloc env Buflen tr;
          (r, len, _) = GetAdaptersInfo env tr p Buflen;
          tr = tr @ [GetAdaptersInfoCall p Buflen];
          (p, tr) = (if r = ERROR_BUFFER_OVERFLOW then do_malloc env len (tr @ [Free p])
                     else (p, tr));
          (r, _, infos) = GetAdaptersInfo env tr p len;
          tr = tr @ [GetAdaptersInfoCall p len]
      in if r = NO_ERROR then (if p = 0 then None else Some (p, infos), tr)
         else (None, FreeAdapterInfo p tr))"

fun LocateAdapterByIndex :: "int \<Rightarrow> IP_ADAPTER_INFO list \<Rightarrow> IP_ADAPTER_INFO option" where
  "LocateAdapterByIndex index [] = None"
| "LocateAdapterByIndex index (a # as) =
     (if ai_Index a = word_of_int index then Some a else LocateAdapterByIndex index as)"

definition GetInterfaceIpAddress :: "adapter_env \<Rightarrow> string \<Rightarrow> string heap_op" where
  "GetInterfaceIpAddress env ifname tr =
     (let IpAddress = ''0.0.0.0'';
          (info, tr) = CreateAdapterInfo env tr
      in case info of
           None \<Rightarrow> (Inr IpAddress, tr)
         | Some (p, infos) \<Rightarrow>
             (case stoi ifname of
                Inl (invalid_argument _) \<Rightarrow> (Inr IpAddress, tr)
              | Inl e \<Rightarrow> (Inl (Throw e), tr)
              | Inr index \<Rightarrow>
                  (case LocateAdapterByIndex index infos of
                     None \<Rightarrow> (Inr IpAddress, FreeAdapterInfo p tr)
                   | Some a \<Rightarrow> (Inr (ai_IpAddress a), FreeAdapterInfo p tr))))"

section \<open>The interface of the command line\<close>

text \<open>
  What \<open>main\<close> does with the option: the index of the adapter, printed as a decimal number,
  and then the address of the adapter with this index.
\<close>

definition resolve_interface :: "adapter_env \<Rightarrow> string \<Rightarrow> string heap_op" where
  "resolve_interface env IfIndex tr =
     (case LocateAdapterWithIfName env IfIndex tr of
        (Inl e, tr) \<Rightarrow> (Inl e, tr)
      | (Inr i, tr) \<Rightarrow> GetInterfaceIpAddress env (dec_of_nat (unat i)) tr)"

section \<open>GetLastErrorMessage\<close>

text \<open>
  \<open>FormatMessageA k e\<close> is what the \<open>k\<close>-th call writes for error \<open>e\<close>, if it succeeds, and
  \<open>GetLastError k\<close> the error it leaves if it fails. The function calls itself for the error of
  the failed call. An empty message would make it read before the start of the array, and so
  would a message that is only a line feed.
\<close>

record error_env =
  FormatMessageA :: "nat \<Rightarrow> u32 \<Rightarrow> string option"
  GetLastError :: "nat \<Rightarrow> u32"

definition LF :: char where "LF = char_of (10 :: nat)"
definition CR :: char where "CR = char_of (13 :: nat)"

definition strip_line_feed :: "string \<Rightarrow> string result" where
  "strip_line_feed errmsg =
     (if errmsg = [] then Inl (Undefined ''array index'')
      else if last errmsg = LF then
        (let e = butlast errmsg
         in if e = [] then Inl (Undefined ''array index'')
            else Inr (if last e = CR then butlast e else e))
      else Inr errmsg)"

partial_function (option) GetLastErrorMessage ::
    "error_env \<Rightarrow> nat \<Rightarrow> u32 \<Rightarrow> bool \<Rightarrow> string result option" where
  "GetLastErrorMessage env k last_error stripTrailingLineFeed =
     (case FormatMessageA env k last_error of
        None \<Rightarrow>
          (let thisError = GetLastError env k
           in if thisError \<noteq> last_error
              then GetLastErrorMessage env (k + 1) thisError stripTrailingLineFeed
              else Some (Inr ''Failed to obtain error string''))
      | Some errmsg \<Rightarrow>
          Some (if stripTrailingLineFeed then strip_line_feed errmsg else Inr errmsg))"

section \<open>What stays allocated\<close>

fun live :: "u64 multiset \<Rightarrow> heap_call list \<Rightarrow> u64 multiset" where
  "live M [] = M"
| "live M (Malloc n p # tr) = live (if p = 0 then M else add_mset p M) tr"
| "live M (Free p # tr) = live (M - {#p#}) tr"
| "live M (_ # tr) = live M tr"

lemma live_append [simp]: "live M (tr @ tr') = live (live M tr) tr'"
  by (induction M tr rule: live.induct) auto

section \<open>Which adapter is chosen\<close>

lemma LocateAdapterByIndex_find:
  "LocateAdapterByIndex i as = find (\<lambda>d. ai_Index d = word_of_int i) as"
  by (induction as) auto

definition adapter_named :: "adapter_env \<Rightarrow> string \<Rightarrow> IP_ADAPTER_ADDRESSES \<Rightarrow> bool" where
  "adapter_named env name a \<longleftrightarrow>
     (if list_all is_digit name then dec_of_nat (unat (aa_IfIndex a)) = name
      else wstr_to_str env (aa_FriendlyName a) = Inr name)"

lemma nicIsNumber_ascii:
  "\<forall>c\<in>set s. (of_char c :: nat) < 128 \<Longrightarrow> nicIsNumber s = Inr (list_all is_digit s)"
  by (induction s) auto

lemma nicIsNumber_value: "nicIsNumber s = Inr b \<Longrightarrow> b = list_all is_digit s"
  by (induction s) (auto split: if_splits)

lemma locate_in_find:
  assumes "nicIsNumber name = Inr (list_all is_digit name)"
    and "\<forall>a\<in>set as. \<exists>s. wstr_to_str env (aa_FriendlyName a) = Inr s"
  shows "locate_in env name as =
    (case find (adapter_named env name) as of
       Some a \<Rightarrow> Inr (ucast (aa_IfIndex a))
     | None \<Rightarrow> Inl (Throw (runtime_error
         (if list_all is_digit name then ''--- No interface with index: '' @ name @ '' was found ''
          else ''--- No interface with name: '' @ name @ '' was found ''))))"
proof -
  have "locate_loop env (list_all is_digit name) name as =
      Inr (map_option (\<lambda>a. ucast (aa_IfIndex a)) (find (adapter_named env name) as))"
    using assms(2) by (induction as) (auto simp: adapter_named_def)
  then show ?thesis
    by (simp add: locate_in_def assms(1) split: option.split)
qed

section \<open>The documented behaviour of the system\<close>

text \<open>
  The contract of the calls: memory is never exhausted, and a query fills a buffer of at
  least the needed size with the current list and otherwise reports that size.
\<close>

locale ip_helper =
  fixes env :: adapter_env
    and need_addresses :: u32 and adapters :: "IP_ADAPTER_ADDRESSES list"
    and need_info :: u32 and infos :: "IP_ADAPTER_INFO list"
  assumes malloc_ok: "malloc env tr n \<noteq> 0"
    and addresses_doc: "p \<noteq> 0 \<Longrightarrow> GetAdaptersAddresses env tr p n =
      (if n < need_addresses then (ERROR_BUFFER_OVERFLOW, need_addresses, [])
       else (NO_ERROR, n, adapters))"
    and info_doc: "p \<noteq> 0 \<Longrightarrow> GetAdaptersInfo env tr p n =
      (if n < need_info then (ERROR_BUFFER_OVERFLOW, need_info, []) else (NO_ERROR, n, infos))"
begin

text \<open>After the two calls the buffer holds the list, whether or not the first one failed.\<close>

lemma locate_runs:
  "\<exists>p cs. LocateAdapterWithIfName env name tr = (locate_in env name adapters, tr @ cs) \<and> p \<noteq> 0
     \<and> (\<forall>M. live M cs = add_mset p M)"
proof (cases "sizeof_addresses env < need_addresses")
  case True
  let ?p = "malloc env tr (sizeof_addresses env)"
  let ?cs = "[Malloc (sizeof_addresses env) ?p, GetAdaptersAddressesCall ?p (sizeof_addresses env),
    Free ?p]"
  let ?q = "malloc env (tr @ ?cs) need_addresses"
  have "LocateAdapterWithIfName env name tr = (locate_in env name adapters,
      tr @ ?cs @ [Malloc need_addresses ?q, GetAdaptersAddressesCall ?q need_addresses])"
    using True
    by (simp add: LocateAdapterWithIfName_def do_malloc_def malloc_ok addresses_doc Let_def
        NO_ERROR_def ERROR_BUFFER_OVERFLOW_def)
  moreover have "live M (?cs @ [Malloc need_addresses ?q,
      GetAdaptersAddressesCall ?q need_addresses]) = add_mset ?q M" for M
    by (simp add: malloc_ok)
  ultimately show ?thesis using malloc_ok [of "tr @ ?cs" need_addresses] by blast
next
  case False
  let ?n = "sizeof_addresses env"
  let ?p = "malloc env tr ?n"
  have "LocateAdapterWithIfName env name tr = (locate_in env name adapters,
      tr @ [Malloc ?n ?p, GetAdaptersAddressesCall ?p ?n, GetAdaptersAddressesCall ?p ?n])"
    using False
    by (simp add: LocateAdapterWithIfName_def do_malloc_def malloc_ok addresses_doc Let_def
        NO_ERROR_def ERROR_BUFFER_OVERFLOW_def)
  moreover have "live M [Malloc ?n ?p, GetAdaptersAddressesCall ?p ?n,
      GetAdaptersAddressesCall ?p ?n] = add_mset ?p M" for M
    by (simp add: malloc_ok)
  ultimately show ?thesis using malloc_ok [of tr ?n] by blast
qed

lemma create_runs:
  "\<exists>p cs. CreateAdapterInfo env tr = (Some (p, infos), tr @ cs) \<and> p \<noteq> 0
     \<and> (\<forall>M. live M cs = add_mset p M)"
proof (cases "sizeof_info env < need_info")
  case True
  let ?p = "malloc env tr (sizeof_info env)"
  let ?cs = "[Malloc (sizeof_info env) ?p, GetAdaptersInfoCall ?p (sizeof_info env), Free ?p]"
  let ?q = "malloc env (tr @ ?cs) need_info"
  have "CreateAdapterInfo env tr = (Some (?q, infos),
      tr @ ?cs @ [Malloc need_info ?q, GetAdaptersInfoCall ?q need_info])"
    using True
    by (simp add: CreateAdapterInfo_def do_malloc_def malloc_ok info_doc Let_def
        NO_ERROR_def ERROR_BUFFER_OVERFLOW_def)
  moreover have "live M (?cs @ [Malloc need_info ?q, GetAdaptersInfoCall ?q need_info]) =
      add_mset ?q M" for M
    by (simp add: malloc_ok)
  ultimately show ?thesis using malloc_ok [of "tr @ ?cs" need_info] by blast
next
  case False
  let ?n = "sizeof_info env"
  let ?p = "malloc env tr ?n"
  have "CreateAdapterInfo env tr = (Some (?p, infos),
      tr @ [Malloc ?n ?p, GetAdaptersInfoCall ?p ?n, GetAdaptersInfoCall ?p ?n])"
    using False
    by (simp add: CreateAdapterInfo_def do_malloc_def malloc_ok info_doc Let_def
        NO_ERROR_def ERROR_BUFFER_OVERFLOW_def)
  moreover have "live M [Malloc ?n ?p, GetAdaptersInfoCall ?p ?n, GetAdaptersInfoCall ?p ?n] =
      add_mset ?p M" for M
    by (simp add: malloc_ok)
  ultimately show ?thesis using malloc_ok [of tr ?n] by blast
qed

lemma get_address_runs:
  assumes "stoi ifname = Inr i"
  shows "\<exists>cs. GetInterfaceIpAddress env ifname tr =
      (Inr (case find (\<lambda>d. ai_Index d = word_of_int i) infos of
          None \<Rightarrow> ''0.0.0.0'' | Some d \<Rightarrow> ai_IpAddress d), tr @ cs)
    \<and> (\<forall>M. live M cs = M)"
proof -
  obtain p cs where c: "CreateAdapterInfo env tr = (Some (p, infos), tr @ cs)"
    and p: "p \<noteq> 0" and l: "live M cs = add_mset p M" for M using create_runs by blast
  have "GetInterfaceIpAddress env ifname tr =
      (Inr (case find (\<lambda>d. ai_Index d = word_of_int i) infos of
          None \<Rightarrow> ''0.0.0.0'' | Some d \<Rightarrow> ai_IpAddress d), tr @ (cs @ [Free p]))"
    using p by (simp add: GetInterfaceIpAddress_def c assms LocateAdapterByIndex_find
        FreeAdapterInfo_def split: option.split)
  moreover have "live M (cs @ [Free p]) = M" for M by (simp add: l)
  ultimately show ?thesis by blast
qed

lemma get_address_leaks:
  assumes "stoi ifname = Inl (invalid_argument e)"
  shows "\<exists>p cs. GetInterfaceIpAddress env ifname tr = (Inr ''0.0.0.0'', tr @ cs)
    \<and> (\<forall>M. live M cs = add_mset p M)"
proof -
  obtain p cs where "CreateAdapterInfo env tr = (Some (p, infos), tr @ cs)"
    and "live M cs = add_mset p M" for M using create_runs by blast
  then show ?thesis by (auto simp: GetInterfaceIpAddress_def assms)
qed

lemma resolve_found:
  assumes "locate_in env name adapters = Inr i"
  shows "\<exists>p cs. resolve_interface env name tr =
      (Inr (case find (\<lambda>d. unat (ai_Index d) = unat i) infos of
          None \<Rightarrow> ''0.0.0.0'' | Some d \<Rightarrow> ai_IpAddress d), tr @ cs)
    \<and> (\<forall>M. live M cs = add_mset p M)"
proof -
  obtain p cs where c: "LocateAdapterWithIfName env name tr = (Inr i, tr @ cs)"
    and l: "live M cs = add_mset p M" for M using locate_runs [of name tr] assms by auto
  have small: "unat i < 256" using unat_below [of i] by simp
  then have "stoi (dec_of_nat (unat i)) = Inr (int (unat i))" by (intro stoi_dec_of_nat) simp
  from get_address_runs [OF this, of "tr @ cs"] obtain ds
    where g: "GetInterfaceIpAddress env (dec_of_nat (unat i)) (tr @ cs) =
        (Inr (case find (\<lambda>d. ai_Index d = word_of_int (int (unat i))) infos of
            None \<Rightarrow> ''0.0.0.0'' | Some d \<Rightarrow> ai_IpAddress d), (tr @ cs) @ ds)"
      and d: "live M ds = M" for M by blast
  have idx: "(\<lambda>d. ai_Index d = word_of_int (int (unat i))) = (\<lambda>d. unat (ai_Index d) = unat i)"
    using small by (intro ext) (simp add: word_eq_unat unat_of_nat_less unat_ucast_less)
  have "resolve_interface env name tr =
      (Inr (case find (\<lambda>d. unat (ai_Index d) = unat i) infos of
          None \<Rightarrow> ''0.0.0.0'' | Some d \<Rightarrow> ai_IpAddress d), tr @ (cs @ ds))"
    using g unfolding idx by (simp add: resolve_interface_def c)
  moreover have "live M (cs @ ds) = add_mset p M" for M by (simp add: l d)
  ultimately show ?thesis by blast
qed

lemma resolve_fails:
  assumes "locate_in env name adapters = Inl e"
  shows "fst (resolve_interface env name tr) = Inl e"
  using locate_runs [of name tr] assms by (auto simp: resolve_interface_def)

end

section \<open>An instance of the system\<close>

text \<open>
  An instance of the conversion, from UTF-16 to UTF-8: one code unit or a pair of surrogates at
  a time. Here anything else is a \<open>std::range_error\<close>, which is a \<open>std::runtime_error\<close>;
  libraries differ in what they do with an unpaired surrogate, and no property rests on it.
\<close>

definition utf8 :: "nat \<Rightarrow> string" where
  "utf8 cp =
     (if cp < 0x80 then [char_of cp]
      else if cp < 0x800 then [char_of (0xC0 + cp div 64), char_of (0x80 + cp mod 64)]
      else if cp < 0x10000 then
        [char_of (0xE0 + cp div 4096), char_of (0x80 + cp div 64 mod 64), char_of (0x80 + cp mod 64)]
      else [char_of (0xF0 + cp div 262144), char_of (0x80 + cp div 4096 mod 64),
            char_of (0x80 + cp div 64 mod 64), char_of (0x80 + cp mod 64)])"

definition high_surrogate :: "u16 \<Rightarrow> bool" where
  "high_surrogate u \<longleftrightarrow> 0xD800 \<le> unat u \<and> unat u < 0xDC00"

definition low_surrogate :: "u16 \<Rightarrow> bool" where
  "low_surrogate u \<longleftrightarrow> 0xDC00 \<le> unat u \<and> unat u < 0xE000"

fun ref_to_bytes :: "u16 list \<Rightarrow> string result" where
  "ref_to_bytes [] = Inr []"
| "ref_to_bytes (u # us) =
     (if high_surrogate u then
        (case us of
           [] \<Rightarrow> Inl (Throw (runtime_error ''bad conversion''))
         | v # vs \<Rightarrow>
             if low_surrogate v then
               bind_res (ref_to_bytes vs) (\<lambda>s.
                 Inr (utf8 (0x10000 + (unat u - 0xD800) * 1024 + (unat v - 0xDC00)) @ s))
             else Inl (Throw (runtime_error ''bad conversion'')))
      else if low_surrogate u then Inl (Throw (runtime_error ''bad conversion''))
      else bind_res (ref_to_bytes us) (\<lambda>s. Inr (utf8 (unat u) @ s)))"

definition ref_lan :: IP_ADAPTER_ADDRESSES where
  "ref_lan = \<lparr>aa_IfIndex = 7, aa_FriendlyName =
     [0x45, 0x74, 0x68, 0x65, 0x72, 0x6E, 0x65, 0x74]\<rparr>"

definition ref_wifi :: IP_ADAPTER_ADDRESSES where
  "ref_wifi = \<lparr>aa_IfIndex = 300, aa_FriendlyName = [0x57, 0x69, 0x46, 0x69]\<rparr>"

definition ref_adapters :: "IP_ADAPTER_ADDRESSES list" where
  "ref_adapters = [ref_lan, ref_wifi]"

definition ref_infos :: "IP_ADAPTER_INFO list" where
  "ref_infos =
     [\<lparr>ai_Index = 7, ai_IpAddress = ''10.0.0.7''\<rparr>, \<lparr>ai_Index = 300, ai_IpAddress = ''10.2.0.5''\<rparr>,
      \<lparr>ai_Index = 44, ai_IpAddress = ''192.168.44.1''\<rparr>]"

definition ref_adapter_env :: adapter_env where
  "ref_adapter_env =
     \<lparr>malloc = (\<lambda>tr n. 0x10000 + 0x100 * ucast n),
      GetAdaptersAddresses = (\<lambda>tr p n. if n < 900 then (ERROR_BUFFER_OVERFLOW, 900, [])
        else (NO_ERROR, n, ref_adapters)),
      GetAdaptersInfo = (\<lambda>tr p n. if n < 2112 then (ERROR_BUFFER_OVERFLOW, 2112, [])
        else (NO_ERROR, n, ref_infos)),
      sizeof_addresses = 448, sizeof_info = 704,
      to_bytes = ref_to_bytes\<rparr>"

lemma ref_malloc: "malloc ref_adapter_env tr n \<noteq> 0"
proof -
  have n: "unat n < 2 ^ 32" using unat_below [of n] by simp
  then have "unat (0x100 * ucast n :: u64) = 256 * unat n"
    by (subst unat_mult_less) (simp_all add: unat_ucast_less)
  with n have "unat (0x10000 + 0x100 * ucast n :: u64) = 65536 + 256 * unat n"
    by (subst unat_add_less) simp_all
  then show ?thesis by (auto simp: ref_adapter_env_def word_eq_unat)
qed

interpretation refad: ip_helper ref_adapter_env 900 ref_adapters 2112 ref_infos
  by unfold_locales (simp_all only: ref_malloc, simp_all add: ref_adapter_env_def)

section \<open>Properties of the interface lookup\<close>

lemma resolve_named:
  assumes "ip_helper env need_a adapters need_i infos"
    and "nicIsNumber name = Inr (list_all is_digit name)"
    and "\<forall>a\<in>set adapters. \<exists>s. wstr_to_str env (aa_FriendlyName a) = Inr s"
  shows "fst (resolve_interface env name tr) =
    (case find (adapter_named env name) adapters of
       None \<Rightarrow> Inl (Throw (runtime_error
         (if list_all is_digit name then ''--- No interface with index: '' @ name @ '' was found ''
          else ''--- No interface with name: '' @ name @ '' was found '')))
     | Some a \<Rightarrow> Inr (case find (\<lambda>d. unat (ai_Index d) = unat (aa_IfIndex a) mod 256) infos of
         None \<Rightarrow> ''0.0.0.0'' | Some d \<Rightarrow> ai_IpAddress d))"
proof (cases "find (adapter_named env name) adapters")
  case None
  then show ?thesis
    using ip_helper.resolve_fails [OF assms(1)] locate_in_find [OF assms(2,3)] by simp
next
  case (Some a)
  then have l: "locate_in env name adapters = Inr (ucast (aa_IfIndex a))"
    using locate_in_find [OF assms(2,3)] by simp
  have "unat (ucast (aa_IfIndex a) :: u8) = unat (aa_IfIndex a) mod 256"
    by (simp add: unsigned_ucast_eq take_bit_eq_mod)
  with ip_helper.resolve_found [OF assms(1) l, of tr] Some show ?thesis by auto
qed

text \<open>
  C16: Which address an interface option stands for. On a system that behaves as documented,
  and for a name of ASCII characters, the adapter is the first one with that index (for a
  name of digits only) or that friendly name, and without one the program gets the error it
  reports. But the address is looked up for the index modulo 256, because the index passes
  through a \<open>uint8_t\<close>: for an adapter with an index above 255 it is the address of another
  adapter, or 0.0.0.0.
\<close>

theorem interface_resolution:
  assumes "ip_helper env need_a adapters need_i infos"
    and "\<forall>c\<in>set name. (of_char c :: nat) < 128"
    and "\<forall>a\<in>set adapters. \<exists>s. wstr_to_str env (aa_FriendlyName a) = Inr s"
  shows "fst (resolve_interface env name tr) =
    (case find (adapter_named env name) adapters of
       None \<Rightarrow> Inl (Throw (runtime_error
         (if list_all is_digit name then ''--- No interface with index: '' @ name @ '' was found ''
          else ''--- No interface with name: '' @ name @ '' was found '')))
     | Some a \<Rightarrow> Inr (case find (\<lambda>d. unat (ai_Index d) = unat (aa_IfIndex a) mod 256) infos of
         None \<Rightarrow> ''0.0.0.0'' | Some d \<Rightarrow> ai_IpAddress d))"
  using assms(1) nicIsNumber_ascii [OF assms(2)] assms(3) by (rule resolve_named)

lemma ref_names:
  "wstr_to_str ref_adapter_env (aa_FriendlyName ref_lan) = Inr ''Ethernet''"
  "wstr_to_str ref_adapter_env (aa_FriendlyName ref_wifi) = Inr ''WiFi''"
proof -
  have chars: "char_of (69 :: nat) = CHR ''E''" "char_of (116 :: nat) = CHR ''t''"
    "char_of (104 :: nat) = CHR ''h''" "char_of (101 :: nat) = CHR ''e''"
    "char_of (114 :: nat) = CHR ''r''" "char_of (110 :: nat) = CHR ''n''"
    "char_of (87 :: nat) = CHR ''W''" "char_of (105 :: nat) = CHR ''i''"
    "char_of (70 :: nat) = CHR ''F''"
    by code_simp+
  show "wstr_to_str ref_adapter_env (aa_FriendlyName ref_lan) = Inr ''Ethernet''"
    and "wstr_to_str ref_adapter_env (aa_FriendlyName ref_wifi) = Inr ''WiFi''"
    by (simp_all add: wstr_to_str_def ref_adapter_env_def ref_lan_def ref_wifi_def high_surrogate_def low_surrogate_def utf8_def chars)
qed

lemma ref_named: "find (adapter_named ref_adapter_env ''Ethernet'') ref_adapters = Some ref_lan"
proof -
  have "\<not> is_digit CHR ''E''" by code_simp
  then show ?thesis by (simp add: ref_adapters_def adapter_named_def ref_names)
qed

lemma ref_names_convert: "\<forall>a\<in>set ref_adapters. \<exists>s. wstr_to_str ref_adapter_env (aa_FriendlyName a) = Inr s"
  by (simp add: ref_adapters_def ref_names)

theorem interface_resolution_witness:
  "fst (resolve_interface ref_adapter_env ''Ethernet'' []) = Inr ''10.0.0.7''
   \<and> fst (resolve_interface ref_adapter_env ''300'' []) = Inr ''192.168.44.1''"
proof -
  have idx: "aa_IfIndex ref_lan = 7" "aa_IfIndex ref_wifi = 300"
    by (simp_all add: ref_lan_def ref_wifi_def)
  have dec: "dec_of_nat 7 = ''7''" "dec_of_nat 300 = ''300''"
    by (simp_all add: dec_eval)
  have dig: "is_digit CHR ''3''" "is_digit CHR ''0''"
    by code_simp+
  have wifi: "find (adapter_named ref_adapter_env ''300'') ref_adapters = Some ref_wifi"
    by (simp add: ref_adapters_def adapter_named_def idx dec dig)
  have ascii: "\<forall>c\<in>set ''Ethernet''. (of_char c :: nat) < 128" "\<forall>c\<in>set ''300''. (of_char c :: nat) < 128"
    by simp_all
  have info: "find (\<lambda>d. unat (ai_Index d) = 7) ref_infos = Some (hd ref_infos)"
    "find (\<lambda>d. unat (ai_Index d) = 44) ref_infos = Some (last ref_infos)"
    "ai_IpAddress (hd ref_infos) = ''10.0.0.7''" "ai_IpAddress (last ref_infos) = ''192.168.44.1''"
    by (simp_all add: ref_infos_def)
  show ?thesis
    using interface_resolution [OF refad.ip_helper_axioms ascii(1) ref_names_convert, of "[]"]
      interface_resolution [OF refad.ip_helper_axioms ascii(2) ref_names_convert, of "[]"]
    by (simp add: ref_named wifi idx info)
qed

text \<open>
  C35: What the interface lookup leaves allocated. A lookup of an address that finds a number
  frees all it allocated, but for a name that is not a number it returns without freeing the
  list; and a successful start of the program always leaves the list of adapters allocated
  (exactly one block more than before).
\<close>

theorem lookup_memory:
  assumes "ip_helper env need_a adapters need_i infos"
  shows "(\<forall>i. stoi ifname = Inr i \<longrightarrow> live M (snd (GetInterfaceIpAddress env ifname tr)) = live M tr)
    \<and> (\<forall>e. stoi ifname = Inl (invalid_argument e) \<longrightarrow>
        (\<exists>p. live M (snd (GetInterfaceIpAddress env ifname tr)) = add_mset p (live M tr)))
    \<and> (\<forall>i. locate_in env name adapters = Inr i \<longrightarrow>
        (\<exists>p. live M (snd (resolve_interface env name tr)) = add_mset p (live M tr)))"
proof (intro conjI allI impI)
  fix i assume "stoi ifname = Inr i"
  from ip_helper.get_address_runs [OF assms this, of tr]
  show "live M (snd (GetInterfaceIpAddress env ifname tr)) = live M tr" by auto
next
  fix e assume "stoi ifname = Inl (invalid_argument e)"
  from ip_helper.get_address_leaks [OF assms this, of tr]
  show "\<exists>p. live M (snd (GetInterfaceIpAddress env ifname tr)) = add_mset p (live M tr)" by auto
next
  fix i assume "locate_in env name adapters = Inr i"
  from ip_helper.resolve_found [OF assms this, of tr]
  show "\<exists>p. live M (snd (resolve_interface env name tr)) = add_mset p (live M tr)" by auto
qed

theorem lookup_memory_witness:
  "live {#} (snd (GetInterfaceIpAddress ref_adapter_env ''7'' [])) = {#}
   \<and> (\<exists>p. live {#} (snd (GetInterfaceIpAddress ref_adapter_env ''LAN'' [])) = {#p#})"
proof -
  have "stoi ''7'' = Inr 7" "stoi ''LAN'' = Inl (invalid_argument ''invalid stoi argument'')"
    by code_simp+
  then show ?thesis
    using lookup_memory [OF refad.ip_helper_axioms, of "''7''" "{#}" "[]"]
      lookup_memory [OF refad.ip_helper_axioms, of "''LAN''" "{#}" "[]"] by auto
qed

section \<open>Properties of GetLastErrorMessage\<close>

lemma GetLastErrorMessage_stable:
  assumes "\<forall>j\<ge>k. GetLastError env j = e"
  shows "GetLastErrorMessage env k e' strip \<noteq> None"
proof -
  have fixed: "GetLastErrorMessage env j e strip \<noteq> None" if "j \<ge> k" for j
    using assms that
    by (subst GetLastErrorMessage.simps) (auto simp: Let_def split: option.splits)
  show ?thesis
    using assms fixed [of "Suc k"]
    by (subst GetLastErrorMessage.simps) (auto simp: Let_def split: option.splits)
qed

text \<open>
  \<open>GetLastErrorMessage\<close> returns whenever the system settles: if from some call on a failing
  \<open>FormatMessageA\<close> always leaves the same error, the chain of self calls ends. (The code only
  compares an error with the one just before it.)
\<close>

theorem GetLastErrorMessage_terminates:
  assumes "\<forall>j\<ge>n. GetLastError env j = e"
  shows "\<exists>r. GetLastErrorMessage env k last_error strip = Some r"
proof -
  have "GetLastErrorMessage env k last_error strip \<noteq> None"
  proof (induction "n - k" arbitrary: k last_error)
    case 0
    with assms show ?case by (intro GetLastErrorMessage_stable [of k env e]) auto
  next
    case (Suc d)
    then have "GetLastErrorMessage env (k + 1) (GetLastError env k) strip \<noteq> None" by simp
    then show ?case
      by (subst GetLastErrorMessage.simps) (auto simp: Let_def split: option.splits)
  qed
  then show ?thesis by auto
qed

definition silent_env :: error_env where
  "silent_env = \<lparr>FormatMessageA = (\<lambda>_ _. None), GetLastError = (\<lambda>_. 317)\<rparr>"

theorem GetLastErrorMessage_terminates_witness:
  "\<exists>r. GetLastErrorMessage silent_env 0 5 True = Some r"
  by (rule GetLastErrorMessage_terminates [of 0 silent_env 317]) (simp add: silent_env_def)

text \<open>
  The check against an endless chain of self calls only sees two equal errors in a row:
  when the failures of \<open>FormatMessageA\<close> alternate between two errors, no call returns.
\<close>

theorem GetLastErrorMessage_alternation_diverges:
  assumes "a \<noteq> b"
  shows "GetLastErrorMessage \<lparr>FormatMessageA = (\<lambda>_ _. None),
      GetLastError = (\<lambda>k. if even k then a else b)\<rparr> 0 b strip = None"
proof -
  let ?env = "\<lparr>FormatMessageA = (\<lambda>_ _. None), GetLastError = (\<lambda>k. if even k then a else b)\<rparr>"
  have "GetLastErrorMessage ?env k (if even k then b else a) strip \<noteq> Some r" for k r
  proof
    assume ret: "GetLastErrorMessage ?env k (if even k then b else a) strip = Some r"
    let ?P = "\<lambda>env k last_error (s :: bool) (r :: string result).
      env = ?env \<and> last_error = (if even k then b else a) \<longrightarrow> False"
    have "?P ?env k (if even k then b else a) strip r"
    proof (rule GetLastErrorMessage.raw_induct [where P = ?P, OF _ ret])
      fix G env k last_error s r
      assume IH: "\<And>env k last_error s r. G env k last_error s = Some r \<Longrightarrow> ?P env k last_error s r"
        and body: "(case FormatMessageA env k last_error of
            None \<Rightarrow> let thisError = GetLastError env k
              in if thisError \<noteq> last_error then G env (k + 1) thisError s
                 else Some (Inr ''Failed to obtain error string'')
          | Some errmsg \<Rightarrow> Some (if s then strip_line_feed errmsg else Inr errmsg)) = Some r"
      show "?P env k last_error s r"
      proof
        assume "env = ?env \<and> last_error = (if even k then b else a)"
        then have "G ?env (k + 1) (if even (k + 1) then b else a) s = Some r"
          using body assms by (simp add: Let_def split: if_splits)
        from IH [OF this] show False by simp
      qed
    qed
    then show False by simp
  qed
  from this [of 0] show ?thesis by (cases "GetLastErrorMessage ?env 0 b strip") auto
qed

theorem GetLastErrorMessage_alternation_diverges_witness:
  "GetLastErrorMessage \<lparr>FormatMessageA = (\<lambda>_ _. None),
      GetLastError = (\<lambda>k. if even k then 87 else 317)\<rparr> 0 317 True = None"
  by (rule GetLastErrorMessage_alternation_diverges) simp

text \<open>
  A message that the system ends with a line break is returned without it, whatever the
  line break (line feed, or carriage return and line feed); a message without one is returned
  as it is.
\<close>

theorem GetLastErrorMessage_text:
  assumes "t \<noteq> []" and "last t \<noteq> CR" and "last t \<noteq> LF"
    and "FormatMessageA env k e = Some (t @ eol)" and "eol \<in> {[], [LF], [CR, LF]}"
  shows "GetLastErrorMessage env k e True = Some (Inr t)
    \<and> GetLastErrorMessage env k e False = Some (Inr (t @ eol))"
proof -
  have "strip_line_feed (t @ eol) = Inr t"
    using assms(1-3,5) by (auto simp: strip_line_feed_def Let_def butlast_append)
  then show ?thesis
    using assms(4) by (simp add: GetLastErrorMessage.simps [of env k])
qed

theorem GetLastErrorMessage_text_witness:
  "GetLastErrorMessage \<lparr>FormatMessageA = (\<lambda>_ _. Some (''Access is denied.'' @ [CR, LF])),
     GetLastError = (\<lambda>_. 0)\<rparr> 0 5 True = Some (Inr ''Access is denied.'')"
proof -
  have "CHR ''.'' \<noteq> CR" "CHR ''.'' \<noteq> LF" by code_simp+
  then show ?thesis
    using GetLastErrorMessage_text [of "''Access is denied.''"
      "\<lparr>FormatMessageA = (\<lambda>_ _. Some (''Access is denied.'' @ [CR, LF])), GetLastError = (\<lambda>_. 0)\<rparr>"
      0 5 "[CR, LF]"] by simp
qed

end
