(* ===== verification/Name_Encoding.thy ===== *)
theory Name_Encoding
  imports Adapters
begin

text \<open>
  Interface names that are not plain ASCII. The conversion of wide names is the one of the
  standard library (\<open>wstr_to_str\<close> only calls it); what is relied on is that it turns a well-formed
  UTF-16 name into the UTF-8 text of the same code points. A reference decoder of UTF-8 reads
  such a text back, so two adapters with different names never get the same text, and the
  lookup by name finds the adapter that was meant.
\<close>

section \<open>The Unicode encodings\<close>

definition scalar :: "nat \<Rightarrow> bool" where
  "scalar cp \<longleftrightarrow> cp < 0xD800 \<or> 0xE000 \<le> cp \<and> cp < 0x110000"

text \<open>UTF-16: one unit, or a pair of surrogates.\<close>

definition utf16 :: "nat \<Rightarrow> u16 list" where
  "utf16 cp = (if cp < 0x10000 then [of_nat cp]
     else [of_nat (0xD800 + (cp - 0x10000) div 1024), of_nat (0xDC00 + (cp - 0x10000) mod 1024)])"

text \<open>UTF-8, read by the leading byte; each following byte has six bits.\<close>

definition tail6 :: "char \<Rightarrow> nat" where
  "tail6 c = of_char c - 0x80"

fun utf8_decode :: "string \<Rightarrow> nat list option" where
  "utf8_decode [] = Some []"
| "utf8_decode (a # r) =
     (let x = of_char a in
      if x < 0x80 then map_option ((#) x) (utf8_decode r)
      else if x < 0xE0 then
        (case r of b # r \<Rightarrow> map_option ((#) ((x - 0xC0) * 64 + tail6 b)) (utf8_decode r)
         | _ \<Rightarrow> None)
      else if x < 0xF0 then
        (case r of b # c # r \<Rightarrow>
           map_option ((#) ((x - 0xE0) * 4096 + tail6 b * 64 + tail6 c)) (utf8_decode r)
         | _ \<Rightarrow> None)
      else
        (case r of b # c # d # r \<Rightarrow>
           map_option ((#) ((x - 0xF0) * 262144 + tail6 b * 4096 + tail6 c * 64 + tail6 d))
             (utf8_decode r)
         | _ \<Rightarrow> None))"

section \<open>Lemmas\<close>

lemma of_char_nat: "n < 256 \<Longrightarrow> (of_char (char_of n :: char) :: nat) = n"
  by simp

lemma tail6_of: "n < 64 \<Longrightarrow> tail6 (char_of (128 + n)) = n"
  by (simp add: tail6_def)

lemma six_bits:
  fixes cp :: nat
  shows "cp div 64 * 64 + cp mod 64 = cp"
    and "cp div 4096 * 4096 + cp div 64 mod 64 * 64 + cp mod 64 = cp"
    and "cp div 262144 * 262144 + cp div 4096 mod 64 * 4096 + cp div 64 mod 64 * 64 + cp mod 64 = cp"
proof -
  have "cp div 64 div 64 = cp div 4096" "cp div 4096 div 64 = cp div 262144"
    by (simp_all add: div_mult2_eq [symmetric])
  with div_mult_mod_eq [of cp 64] div_mult_mod_eq [of "cp div 64" 64] div_mult_mod_eq [of "cp div 4096" 64]
  show "cp div 64 * 64 + cp mod 64 = cp"
    "cp div 4096 * 4096 + cp div 64 mod 64 * 64 + cp mod 64 = cp"
    "cp div 262144 * 262144 + cp div 4096 mod 64 * 4096 + cp div 64 mod 64 * 64 + cp mod 64 = cp"
    by linarith+
qed

text \<open>Decoding takes off exactly one encoded code point.\<close>

lemma decode_two:
  "a < 32 \<Longrightarrow> b < 64 \<Longrightarrow>
     utf8_decode (char_of (0xC0 + a) # char_of (0x80 + b) # s) = map_option ((#) (a * 64 + b)) (utf8_decode s)"
  by (simp add: tail6_of Let_def)

lemma decode_three:
  "a < 16 \<Longrightarrow> b < 64 \<Longrightarrow> c < 64 \<Longrightarrow>
     utf8_decode (char_of (0xE0 + a) # char_of (0x80 + b) # char_of (0x80 + c) # s) =
     map_option ((#) (a * 4096 + b * 64 + c)) (utf8_decode s)"
  by (simp add: tail6_of Let_def)

lemma decode_four:
  "a < 8 \<Longrightarrow> b < 64 \<Longrightarrow> c < 64 \<Longrightarrow> d < 64 \<Longrightarrow>
     utf8_decode (char_of (0xF0 + a) # char_of (0x80 + b) # char_of (0x80 + c) # char_of (0x80 + d) # s) =
     map_option ((#) (a * 262144 + b * 4096 + c * 64 + d)) (utf8_decode s)"
  by (simp add: tail6_of Let_def)

lemma decode_utf8:
  assumes "cp < 0x110000"
  shows "utf8_decode (utf8 cp @ s) = map_option ((#) cp) (utf8_decode s)"
proof -
  consider "cp < 0x80" | "0x80 \<le> cp" "cp < 0x800" | "0x800 \<le> cp" "cp < 0x10000" | "0x10000 \<le> cp"
    by linarith
  then show ?thesis
  proof cases
    case 1
    then show ?thesis by (simp add: utf8_def)
  next
    case 2
    then have "cp div 64 < 32" by (simp add: less_mult_imp_div_less)
    from decode_two [OF this, of "cp mod 64" s] 2 show ?thesis
      by (simp add: utf8_def six_bits del: utf8_decode.simps)
  next
    case 3
    then have "cp div 4096 < 16" by (simp add: less_mult_imp_div_less)
    from decode_three [OF this, of "cp div 64 mod 64" "cp mod 64" s] 3 show ?thesis
      by (simp add: utf8_def six_bits del: utf8_decode.simps)
  next
    case 4
    have "cp div 262144 < 8" using assms by (simp add: less_mult_imp_div_less)
    from decode_four [OF this, of "cp div 4096 mod 64" "cp div 64 mod 64" "cp mod 64" s] 4 show ?thesis
      by (simp add: utf8_def six_bits del: utf8_decode.simps)
  qed
qed

lemma decode_concat:
  "list_all scalar cps \<Longrightarrow> utf8_decode (concat (map utf8 cps)) = Some cps"
  by (induction cps) (auto simp: decode_utf8 scalar_def simp del: utf8_decode.simps(2))

section \<open>The documented conversion\<close>

locale utf16_conversion =
  fixes env :: adapter_env
  assumes to_bytes_doc: "list_all scalar cps \<Longrightarrow>
      to_bytes env (concat (map utf16 cps)) = Inr (concat (map utf8 cps))"
begin

lemma converts: "list_all scalar cps \<Longrightarrow> wstr_to_str env (concat (map utf16 cps)) = Inr (concat (map utf8 cps))"
  by (simp add: wstr_to_str_def to_bytes_doc)

text \<open>Equal texts come from equal names.\<close>

lemma same_text:
  assumes "list_all scalar cps" and "list_all scalar cps'"
  shows "wstr_to_str env (concat (map utf16 cps')) = Inr (concat (map utf8 cps)) \<longleftrightarrow>
    concat (map utf16 cps') = concat (map utf16 cps)"
proof
  assume "wstr_to_str env (concat (map utf16 cps')) = Inr (concat (map utf8 cps))"
  then have "utf8_decode (concat (map utf8 cps')) = utf8_decode (concat (map utf8 cps))"
    using converts [OF assms(2)] by simp
  then show "concat (map utf16 cps') = concat (map utf16 cps)"
    by (simp add: decode_concat assms)
qed (simp add: converts [OF assms(1)])

end

lemma ref_to_bytes_encoded:
  "list_all scalar cps \<Longrightarrow> ref_to_bytes (concat (map utf16 cps)) = Inr (concat (map utf8 cps))"
proof (induction cps)
  case (Cons cp cps)
  then have IH: "ref_to_bytes (concat (map utf16 cps)) = Inr (concat (map utf8 cps))"
    and cp: "scalar cp" by simp_all
  show ?case
  proof (cases "cp < 0x10000")
    case True
    then have "unat (of_nat cp :: u16) = cp" by (simp add: unat_of_nat_less)
    then have "\<not> high_surrogate (of_nat cp)" "\<not> low_surrogate (of_nat cp)"
      and "utf16 cp = [of_nat cp]" "unat (of_nat cp :: u16) = cp"
      using True cp by (auto simp: high_surrogate_def low_surrogate_def scalar_def utf16_def)
    with IH show ?thesis by simp
  next
    case False
    define i j where "i = (cp - 0x10000) div 1024" and "j = (cp - 0x10000) mod 1024"
    have ij: "i < 1024" "j < 1024" and c: "cp = 0x10000 + i * 1024 + j"
      using False cp by (simp_all add: i_def j_def scalar_def less_mult_imp_div_less)
    have u: "unat (of_nat (0xD800 + i) :: u16) = 0xD800 + i" "unat (of_nat (0xDC00 + j) :: u16) = 0xDC00 + j"
      using ij by (simp_all add: unat_of_nat_less del: of_nat_add)
    have "utf16 cp = [of_nat (0xD800 + i), of_nat (0xDC00 + j)]"
      using False by (simp add: utf16_def i_def j_def)
    moreover have "high_surrogate (of_nat (0xD800 + i))" "low_surrogate (of_nat (0xDC00 + j))"
      using ij by (simp_all add: high_surrogate_def low_surrogate_def u del: of_nat_add)
    ultimately show ?thesis using IH by (simp add: u c del: of_nat_add)
  qed
qed simp

interpretation refconv: utf16_conversion ref_adapter_env
  by unfold_locales (simp add: ref_adapter_env_def ref_to_bytes_encoded)

definition utf16_name :: "u16 list \<Rightarrow> nat list \<Rightarrow> bool" where
  "utf16_name w cps \<longleftrightarrow> list_all scalar cps \<and> w = concat (map utf16 cps)"

section \<open>Properties\<close>

text \<open>
  C19: A friendly name selects the adapter with exactly that name. When the option is the UTF-8
  text of a wide name, is not made of digits only (such an option is looked up as an index
  instead), and the check for digits does not reach a character beyond ASCII, the adapter is
  the first one whose friendly name is that wide name, and its address is the one of the index
  modulo 256; without such an adapter the program reports it. The friendly names of the
  adapters are well-formed UTF-16, the queries behave as documented, and the library's
  conversion turns such names into the UTF-8 text of the same code points.
\<close>

theorem interface_by_friendly_name:
  assumes "ip_helper env need_a adapters need_i infos" and "utf16_conversion env"
    and "utf16_name w cps" and "\<forall>a\<in>set adapters. \<exists>cps. utf16_name (aa_FriendlyName a) cps"
    and "name = concat (map utf8 cps)" and "nicIsNumber name = Inr False"
  shows "fst (resolve_interface env name tr) =
    (case find (\<lambda>a. aa_FriendlyName a = w) adapters of
       None \<Rightarrow> Inl (Throw (runtime_error (''--- No interface with name: '' @ name @ '' was found '')))
     | Some a \<Rightarrow> Inr (case find (\<lambda>d. unat (ai_Index d) = unat (aa_IfIndex a) mod 256) infos of
         None \<Rightarrow> ''0.0.0.0'' | Some d \<Rightarrow> ai_IpAddress d))"
proof -
  have dig: "\<not> list_all is_digit name" using nicIsNumber_value [OF assms(6)] by simp
  then have n: "nicIsNumber name = Inr (list_all is_digit name)" using assms(6) by simp
  have "adapter_named env name a \<longleftrightarrow> aa_FriendlyName a = w" if "a \<in> set adapters" for a
    using dig assms(3,4,5) that utf16_conversion.same_text [OF assms(2)]
    by (auto simp: adapter_named_def utf16_name_def)
  then have f: "find (adapter_named env name) adapters = find (\<lambda>a. aa_FriendlyName a = w) adapters"
    by (intro find_cong) auto
  have "\<forall>a\<in>set adapters. \<exists>s. wstr_to_str env (aa_FriendlyName a) = Inr s"
    using assms(4) utf16_conversion.converts [OF assms(2)] by (fastforce simp: utf16_name_def)
  from resolve_named [OF assms(1) n this, of tr] dig show ?thesis
    unfolding f by (simp cong: option.case_cong)
qed

lemma ref_utf16_names:
  "utf16_name (aa_FriendlyName ref_wifi) [0x57, 0x69, 0x46, 0x69]"
  "utf16_name (aa_FriendlyName ref_lan) [0x45, 0x74, 0x68, 0x65, 0x72, 0x6E, 0x65, 0x74]"
  by (simp_all add: utf16_name_def scalar_def utf16_def ref_wifi_def ref_lan_def)

theorem interface_by_friendly_name_witness:
  "fst (resolve_interface ref_adapter_env ''WiFi'' []) = Inr ''192.168.44.1''"
proof -
  have num: "nicIsNumber ''WiFi'' = Inr False" by code_simp
  have wifi: "''WiFi'' = concat (map utf8 [0x57, 0x69, 0x46, 0x69])" by code_simp
  have names: "\<forall>a\<in>set ref_adapters. \<exists>cps. utf16_name (aa_FriendlyName a) cps"
    using ref_utf16_names by (auto simp: ref_adapters_def)
  have "find (\<lambda>a. aa_FriendlyName a = aa_FriendlyName ref_wifi) ref_adapters = Some ref_wifi"
    by (simp add: ref_adapters_def ref_lan_def ref_wifi_def)
  moreover have "find (\<lambda>d. unat (ai_Index d) = unat (aa_IfIndex ref_wifi) mod 256) ref_infos = Some (last ref_infos)"
    "ai_IpAddress (last ref_infos) = ''192.168.44.1''"
    by (simp_all add: ref_infos_def ref_wifi_def)
  ultimately show ?thesis
    using interface_by_friendly_name [OF refad.ip_helper_axioms refconv.utf16_conversion_axioms
      ref_utf16_names(1) names wifi num, of "[]"]
    by simp
qed

end
