(* ===== verification/Producer_Sequences.thy ===== *)
theory Producer_Sequences
  imports Rio_Producer
begin

text \<open>
  What the producer sends. The abstract schedule is that send number \<open>k\<close> carries sequence
  number \<open>k div n\<close> to group \<open>k mod n\<close>, for \<open>n\<close> groups; the code follows it in the first sends,
  and in the main loop as long as completions arrive in batches of a multiple of \<open>n\<close>.
\<close>

section \<open>Filling the messages\<close>

lemma fill_descrs_effect:
  "fill_descrs g i r j off s = Inr s' \<Longrightarrow>
    unat g * unat i + (j + r) \<le> length (m_RioBuffDescr s) \<Longrightarrow>
    length (m_RioBuffDescr s) \<le> 1000000 \<Longrightarrow>
    \<exists>ds. s' = s\<lparr>m_RioBuffDescr := ds\<rparr> \<and> length ds = length (m_RioBuffDescr s)
      \<and> (\<forall>k < length ds. ds ! k =
          (if unat g * unat i + j \<le> k \<and> k < unat g * unat i + (j + r)
           then \<lparr>BufferId = m_RioBuffId s, Offset = off, Length = 100\<rparr> else m_RioBuffDescr s ! k))"
proof (induction r arbitrary: j s)
  case 0
  then show ?case by (intro exI [of _ "m_RioBuffDescr s"]) auto
next
  case (Suc r)
  let ?base = "unat g * unat i"
  let ?d = "\<lparr>BufferId = m_RioBuffId s, Offset = off, Length = 100\<rparr>"
  have b: "?base + j < 1000000" using Suc.prems(2,3) by simp
  then have "unat (g * i) = ?base" by (intro unat_mult_less) simp
  moreover have "unat (of_nat j :: u32) = j" using b by (simp add: unat_of_nat_less)
  ultimately have k: "unat (g * i + of_nat j) = ?base + j"
    using b by (subst unat_add_less) simp_all
  let ?s = "s\<lparr>m_RioBuffDescr := (m_RioBuffDescr s)[?base + j := ?d]\<rparr>"
  have rest: "fill_descrs g i r (j + 1) off ?s = Inr s'"
    using Suc.prems(1) by (simp add: k EXPECTED_DATA_SIZE_def Let_def split: if_splits)
  from Suc.IH [OF rest] Suc.prems(2,3) obtain ds
    where s': "s' = ?s\<lparr>m_RioBuffDescr := ds\<rparr>" and len: "length ds = length (m_RioBuffDescr s)"
      and ds: "\<And>k. k < length ds \<Longrightarrow> ds ! k =
          (if ?base + (j + 1) \<le> k \<and> k < ?base + (j + 1 + r) then ?d
           else (m_RioBuffDescr s)[?base + j := ?d] ! k)"
    by auto
  have "ds ! k = (if ?base + j \<le> k \<and> k < ?base + (j + Suc r) then ?d else m_RioBuffDescr s ! k)"
    if "k < length ds" for k
    using ds [OF that] that len by (cases "k = ?base + j") auto
  with len show ?case by (intro exI [of _ ds]) (simp add: s')
qed

lemma fill_messages_effect:
  assumes "fill_messages now m i (of_nat (100 * i)) p = Inr p'"
    and "unat (m_NumberOfMcGroups p) = n" and "0 < n"
    and "n * (i + m) \<le> length (m_RioBuffDescr (session p))"
    and "length (m_RioBuffDescr (session p)) \<le> 1000000"
  shows "\<exists>ds D. p' = p\<lparr>session := (session p)\<lparr>m_RioBuffDescr := ds\<rparr>, data_mem := D\<rparr>
    \<and> length ds = length (m_RioBuffDescr (session p))
    \<and> (\<forall>k < n * (i + m). ds ! k = (if k < n * i then m_RioBuffDescr (session p) ! k
         else data_slot (m_RioBuffId (session p)) (k div n)))
    \<and> (\<forall>j < i + m. Seq (D (of_nat (100 * j))) =
         (if j < i then Seq (data_mem p (of_nat (100 * j))) else of_nat j))"
  using assms
proof (induction m arbitrary: i p)
  case 0
  then show ?case
    by (intro exI [of _ "m_RioBuffDescr (session p)"] exI [of _ "data_mem p"]) simp
next
  case (Suc m)
  let ?s = "session p"
  have "i + Suc m \<le> n * (i + Suc m)" using Suc.prems(3) by (cases n) simp_all
  then have im: "i + Suc m \<le> 1000000" by (rule le_trans [OF _ le_trans [OF Suc.prems(4,5)]])
  have i: "unat (of_nat i :: u32) = i" using im by (simp add: unat_of_nat_less)
  have mono: "n * (i + 1) \<le> n * (i + Suc m)" by (rule mult_le_mono2) simp
  have off: "(of_nat (100 * i) :: u32) + EXPECTED_DATA_SIZE = of_nat (100 * (i + 1))"
    by (simp add: EXPECTED_DATA_SIZE_def)
  from Suc.prems(1) obtain s1
    where s1: "fill_descrs (m_NumberOfMcGroups p) (of_nat i) n 0 (of_nat (100 * i)) ?s = Inr s1"
      and rest: "fill_messages now m (i + 1) (of_nat (100 * (i + 1)))
        (p\<lparr>session := s1, data_mem := (data_mem p)(of_nat (100 * i) :=
           (data_mem p (of_nat (100 * i)))\<lparr>Token := 490, CmdType := 0, Seq := of_nat i,
             Timestamp := now i\<rparr>)\<rparr>) = Inr p'"
    by (auto simp: bind_res_eq_Inr lift_op_Inr off Suc.prems(2) simp del: of_nat_mult)
  have "unat (m_NumberOfMcGroups p) * unat (of_nat i :: u32) + (0 + n) \<le> length (m_RioBuffDescr ?s)"
    using le_trans [OF mono Suc.prems(4)] Suc.prems(2) by (simp add: i)
  from fill_descrs_effect [OF s1 this Suc.prems(5)] obtain ds1
    where e1: "s1 = ?s\<lparr>m_RioBuffDescr := ds1\<rparr>" and l1: "length ds1 = length (m_RioBuffDescr ?s)"
      and d1: "\<And>k. k < length ds1 \<Longrightarrow> ds1 ! k = (if n * i \<le> k \<and> k < n * i + n
         then data_slot (m_RioBuffId ?s) i else m_RioBuffDescr ?s ! k)"
    by (auto simp: i Suc.prems(2) data_slot_def)
  define D1 where "D1 = (data_mem p)(of_nat (100 * i) :=
     (data_mem p (of_nat (100 * i)))\<lparr>Token := 490, CmdType := 0, Seq := of_nat i, Timestamp := now i\<rparr>)"
  define p1 where "p1 = p\<lparr>session := s1, data_mem := D1\<rparr>"
  have "\<exists>ds D. p' = p1\<lparr>session := (session p1)\<lparr>m_RioBuffDescr := ds\<rparr>, data_mem := D\<rparr>
    \<and> length ds = length (m_RioBuffDescr (session p1))
    \<and> (\<forall>k < n * (i + 1 + m). ds ! k = (if k < n * (i + 1) then m_RioBuffDescr (session p1) ! k
         else data_slot (m_RioBuffId (session p1)) (k div n)))
    \<and> (\<forall>j < i + 1 + m. Seq (D (of_nat (100 * j))) =
         (if j < i + 1 then Seq (data_mem p1 (of_nat (100 * j))) else of_nat j))"
    by (rule Suc.IH) (use rest Suc.prems l1 in \<open>simp_all add: p1_def D1_def e1 del: of_nat_mult\<close>)
  then obtain ds D where p': "p' = p1\<lparr>session := (session p1)\<lparr>m_RioBuffDescr := ds\<rparr>, data_mem := D\<rparr>"
    and l: "length ds = length ds1"
    and ds: "\<And>k. k < n * (i + 1 + m) \<Longrightarrow> ds ! k = (if k < n * (i + 1) then ds1 ! k
         else data_slot (m_RioBuffId ?s) (k div n))"
    and D: "\<And>j. j < i + 1 + m \<Longrightarrow> Seq (D (of_nat (100 * j))) =
         (if j < i + 1 then Seq (D1 (of_nat (100 * j))) else of_nat j)"
    by (auto simp: p1_def e1)
  have "ds ! k = (if k < n * i then m_RioBuffDescr ?s ! k else data_slot (m_RioBuffId ?s) (k div n))"
    if k: "k < n * (i + Suc m)" for k
  proof -
    have kl: "k < length ds1" using k Suc.prems(4) l1 by linarith
    have "k div n = i" if "n * i \<le> k" "k < n * i + n"
      using that Suc.prems(3) by (simp add: div_nat_eqI algebra_simps)
    then show ?thesis
      using ds [of k] d1 [OF kl] k by (auto simp: algebra_simps)
  qed
  moreover have "Seq (D (of_nat (100 * j))) =
      (if j < i then Seq (data_mem p (of_nat (100 * j))) else of_nat j)" if "j < i + Suc m" for j
    using D [of j] that im of_nat_mult_inj [of 100 j i]
    by (cases "j = i") (auto simp: D1_def simp del: of_nat_mult)
  ultimately show ?case
    using l l1 by (intro exI [of _ ds] exI [of _ D]) (simp add: p' p1_def e1)
qed

section \<open>Sends follow the schedule\<close>

lemma send_one_effect:
  assumes "send_one os x a a' p = Inr p'"
  shows "\<exists>cs. p' = p\<lparr>session := (session p)\<lparr>calls := calls (session p) @ cs,
        m_TotalPkts := m_TotalPkts (session p) + 1,
        m_GroupStats := RioProducer_GroupStatsUpdate
          (addr_mem p (Offset (m_McAddrDescr (session p) ! a'))) 100 (m_GroupStats (session p))\<rparr>,
      sent := sent p @ [(addr_mem p (Offset (m_McAddrDescr (session p) ! a)),
        data_mem p (Offset (m_RioBuffDescr (session p) ! x)))]\<rparr>
    \<and> list_all neutral_call cs"
    and "x < length (m_RioBuffDescr (session p))"
  using assms
  by (auto simp: send_one_def do_call_def Let_def EXPECTED_DATA_SIZE_def split: if_splits)

definition sent_log :: "RioProducer \<Rightarrow> (SOCKADDR_INET \<times> u64) list" where
  "sent_log p = map (\<lambda>(addr, hdr). (addr, Seq hdr)) (sent p)"

definition schedule :: "(nat \<Rightarrow> SOCKADDR_INET) \<Rightarrow> nat \<Rightarrow> nat \<Rightarrow> (SOCKADDR_INET \<times> u64) list" where
  "schedule addr n T = map (\<lambda>k. (addr (k mod n), of_nat (k div n))) [0..<T]"

lemma schedule_Suc:
  "schedule addr n (Suc T) = schedule addr n T @ [(addr (T mod n), of_nat (T div n))]"
  by (simp add: schedule_def)

text \<open>What every send keeps: the descriptors, and the statistics of what was sent.\<close>

definition sender_inv :: "nat \<Rightarrow> nat \<Rightarrow> args_t \<Rightarrow> (nat \<Rightarrow> SOCKADDR_INET) \<Rightarrow> RioProducer \<Rightarrow> bool" where
  "sender_inv n R args addr p \<longleftrightarrow>
     unat (m_NumberOfMcGroups p) = n \<and> 0 < n \<and> n \<le> 1000000 \<and> m_Args (session p) = args
     \<and> m_McAddrDescr (session p) = map (addr_slot (m_McAddrBuffId (session p))) [0..<n]
     \<and> length (m_RioBuffDescr (session p)) = R * n
     \<and> (\<forall>k < R * n. m_RioBuffDescr (session p) ! k = data_slot (m_RioBuffId (session p)) (k div n))
     \<and> (\<forall>j < n. group_addr p j = addr j)
     \<and> m_TotalPkts (session p) = of_nat (length (sent p))
     \<and> m_GroupStats (session p) = producer_stream 100 (map fst (sent p))
         (InitGroupStats (map ipNetOrder (McastAddrStr args)) [])"

lemma sender_addr:
  "sender_inv n R args addr p \<Longrightarrow> a < n \<Longrightarrow>
     addr_mem p (Offset (m_McAddrDescr (session p) ! a)) = addr a"
  by (auto simp: sender_inv_def group_addr_def addr_slot_def)

lemma send_one_inv:
  assumes inv: "sender_inv n R args addr p" and step: "send_one os x a a p = Inr p'" and a: "a < n"
  shows "sender_inv n R args addr p'"
    and "sent p' = sent p @ [(addr a, data_mem p (Offset (data_slot (m_RioBuffId (session p)) (x div n))))]"
    and "data_mem p' = data_mem p" and "m_RioBuffId (session p') = m_RioBuffId (session p)"
    and "x < R * n"
proof -
  note eff = send_one_effect [OF step]
  show x: "x < R * n" using eff(2) inv by (simp add: sender_inv_def)
  then have d: "m_RioBuffDescr (session p) ! x = data_slot (m_RioBuffId (session p)) (x div n)"
    using inv by (simp add: sender_inv_def)
  show "sent p' = sent p @ [(addr a, data_mem p (Offset (data_slot (m_RioBuffId (session p)) (x div n))))]"
    "data_mem p' = data_mem p" "m_RioBuffId (session p') = m_RioBuffId (session p)"
    using eff(1) sender_addr [OF inv a] d by auto
  show "sender_inv n R args addr p'"
    using inv eff(1) sender_addr [OF inv a]
    by (auto simp: sender_inv_def group_addr_def producer_stream_def)
qed

lemma first_sends_schedule:
  assumes "first_sends_loop os m i p = Inr p'" and "sender_inv n R args addr p"
    and "sent_log p = schedule addr n i" and "n = length (McastAddrStr args)"
    and "\<forall>j < R. Seq (data_mem p (of_nat (100 * j))) = of_nat j" and "i + m \<le> R * n"
  shows "sender_inv n R args addr p' \<and> sent_log p' = schedule addr n (i + m)"
  using assms
proof (induction m arbitrary: i p)
  case 0
  then show ?case by simp
next
  case (Suc m)
  have n: "0 < n" "unat (m_NumberOfMcGroups p) = n" "m_Args (session p) = args"
    using Suc.prems(2) by (simp_all add: sender_inv_def)
  from Suc.prems(1,4) n obtain p1 where step: "send_one os i (i mod n) (i mod n) p = Inr p1"
    and rest: "first_sends_loop os m (i + 1) p1 = Inr p'"
    by (auto simp: bind_res_eq_Inr split: if_splits)
  have "i mod n < n" using n by simp
  note s = send_one_inv [OF Suc.prems(2) step this]
  have "i div n < R" using s(5) n by (simp add: less_mult_imp_div_less)
  with Suc.prems(5) have "Seq (data_mem p (of_nat (100 * (i div n)))) = of_nat (i div n)" by simp
  then have log: "sent_log p1 = schedule addr n (i + 1)"
    using Suc.prems(3) by (simp add: s(2) sent_log_def schedule_Suc data_slot_def)
  show ?case
    using Suc.IH [OF rest s(1) log Suc.prems(4)] Suc.prems(5,6) by (simp add: s(3))
qed

section \<open>The main loop\<close>

definition send_locals_ok :: "nat \<Rightarrow> nat \<Rightarrow> send_locals \<Rightarrow> bool" where
  "send_locals_ok n T l \<longleftrightarrow> sequenceNumber l = of_nat (T div n) \<and> unat (groupCounter l) = T mod n"

lemma resend_schedule:
  assumes inv: "sender_inv n R args addr p" and l: "send_locals_ok n T l"
    and i: "i mod n = T mod n" and step: "resend os i r (p, l) = Inr (p', l')"
    and log: "sent_log p = schedule addr n T"
  shows "sender_inv n R args addr p'" and "send_locals_ok n (Suc T) l'"
    and "sent_log p' = schedule addr n (Suc T)"
proof -
  have n: "0 < n" "unat (m_NumberOfMcGroups p) = n" "m_NumberOfMcGroups p \<noteq> 0" "n \<le> 1000000"
    using inv by (auto simp: sender_inv_def)
  let ?x = "SendContext r" and ?off = "Offset (m_RioBuffDescr (session p) ! SendContext r)"
  let ?g = "(groupCounter l + 1) mod m_NumberOfMcGroups p"
  define p1 where "p1 = p\<lparr>data_mem := (data_mem p)(?off := (data_mem p ?off)\<lparr>Seq := sequenceNumber l,
      Timestamp := sr_now r\<rparr>)\<rparr>"
  from step n have send: "send_one os ?x (T mod n) (T mod n) p1 = Inr p'"
    and x: "?x < length (m_RioBuffDescr (session p))"
    and l': "l' = (if ?g = 0 then l\<lparr>groupCounter := ?g, sequenceNumber := sequenceNumber l + 1\<rparr>
      else l\<lparr>groupCounter := ?g\<rparr>)"
    by (auto simp: resend_def Let_def bind_res_eq_Inr p1_def i split: if_splits)
  have inv1: "sender_inv n R args addr p1"
    using inv by (simp add: sender_inv_def p1_def group_addr_def)
  have "T mod n < n" using n by simp
  note s = send_one_inv [OF inv1 send this]
  show "sender_inv n R args addr p'" by (rule s(1))
  have "m_RioBuffDescr (session p) ! ?x = data_slot (m_RioBuffId (session p)) (?x div n)"
    using inv x by (simp add: sender_inv_def)
  then have "Seq (data_mem p1 (Offset (data_slot (m_RioBuffId (session p1)) (?x div n)))) = sequenceNumber l"
    by (simp add: p1_def)
  moreover have "sent p1 = sent p" by (simp add: p1_def)
  ultimately show "sent_log p' = schedule addr n (Suc T)"
    using log l by (simp add: sent_log_def s(2) schedule_Suc send_locals_ok_def)
  have "T mod n < 1000000" using \<open>T mod n < n\<close> n(4) by (rule less_le_trans)
  then have "unat (groupCounter l + 1) = T mod n + 1"
    using l by (subst unat_add_less) (simp_all add: send_locals_ok_def)
  then have "unat ?g = Suc T mod n"
    using n by (simp add: unat_mod mod_Suc_eq)
  moreover from this have "?g = 0 \<longleftrightarrow> Suc T mod n = 0" by (metis unat_eq_zero)
  ultimately show "send_locals_ok n (Suc T) l'"
    using l by (auto simp: l' send_locals_ok_def div_Suc mod_Suc split: if_splits)
qed

lemma resend_batch_schedule:
  assumes "resend_batch os i rs (p, l) = Inr (p', l')" and "sender_inv n R args addr p"
    and "send_locals_ok n T l" and "i mod n = T mod n" and "sent_log p = schedule addr n T"
  shows "sender_inv n R args addr p' \<and> send_locals_ok n (T + length rs) l'
    \<and> sent_log p' = schedule addr n (T + length rs)"
  using assms
proof (induction rs arbitrary: i p l T)
  case Nil
  then show ?case by simp
next
  case (Cons r rs)
  from Cons.prems(1) obtain p1 l1 where step: "resend os i r (p, l) = Inr (p1, l1)"
    and rest: "resend_batch os (i + 1) rs (p1, l1) = Inr (p', l')"
    by (auto simp: bind_res_eq_Inr)
  note s = resend_schedule [OF Cons.prems(2,3,4) step Cons.prems(5)]
  have "(i + 1) mod n = Suc T mod n" using Cons.prems(4) by (metis Suc_eq_plus1 mod_Suc_eq)
  from Cons.IH [OF rest s(1,2) this s(3)] show ?case by simp
qed

definition round_sends :: "send_round list \<Rightarrow> SENDRESULT list" where
  "round_sends rds = concat (map (\<lambda>rd. case sd_results rd of None \<Rightarrow> [] | Some rs \<Rightarrow> rs) rds)"

lemma send_step_schedule:
  assumes step: "send_step os rd (p, l) = Inr (e, p', l')" and inv: "sender_inv n R args addr p"
    and l: "send_locals_ok n T l" and log: "sent_log p = schedule addr n T"
    and T: "n dvd T" and batch: "n dvd length (round_sends [rd])"
  shows "\<exists>T'. n dvd T' \<and> sender_inv n R args addr p' \<and> send_locals_ok n T' l'
    \<and> sent_log p' = schedule addr n T' \<and> T' = (if e then T else T + length (round_sends [rd]))"
proof -
  obtain t where ss: "snd (ShouldStop (sd_signal rd) (sd_now rd) (session p)) = (session p)\<lparr>m_Timing := t\<rparr>"
    by (simp add: ShouldStop_state)
  define p1 where "p1 = p\<lparr>session := (session p)\<lparr>m_Timing := t\<rparr>\<rparr>"
  have inv1: "sender_inv n R args addr p1" and log1: "sent_log p1 = schedule addr n T"
    using inv log by (simp_all add: sender_inv_def p1_def group_addr_def sent_log_def)
  show ?thesis
  proof (cases e)
    case True
    then have "p' = p1" "l' = l"
      using step ss by (auto simp: send_step_def p1_def bind_res_eq_Inr Let_def split: prod.splits
          if_splits option.splits)
    with True T inv1 log1 l show ?thesis by simp
  next
    case False
    then obtain s2 rs where s2: "NotifyCompletionQueue os (session p1) = Inr s2"
      and rs: "sd_results rd = Some rs"
      and b: "resend_batch os 0 rs (p1\<lparr>session := s2\<rparr>, l) = Inr (p', l')"
      using step ss by (auto simp: send_step_def p1_def bind_res_eq_Inr lift_op_Inr Let_def
          split: prod.splits if_splits option.splits)
    have inv2: "sender_inv n R args addr (p1\<lparr>session := s2\<rparr>)" and log2: "sent_log (p1\<lparr>session := s2\<rparr>) = schedule addr n T"
      using NotifyCompletionQueue_effect [OF s2] inv1 log1
      by (simp_all add: sender_inv_def group_addr_def sent_log_def)
    have "0 mod n = T mod n" using T by simp
    from resend_batch_schedule [OF b inv2 l this log2] False T batch rs show ?thesis
      by (intro exI [of _ "T + length rs"]) (simp add: round_sends_def)
  qed
qed

lemma send_loop_schedule:
  assumes "send_loop os rds (p, l) = Inr (e, p', l')" and "sender_inv n R args addr p"
    and "send_locals_ok n T l" and "sent_log p = schedule addr n T" and "n dvd T"
    and "\<And>rd. rd \<in> set rds \<Longrightarrow> n dvd length (round_sends [rd])"
  shows "\<exists>k \<le> length rds. (\<not> e \<longrightarrow> k = length rds) \<and> sender_inv n R args addr p'
    \<and> sent_log p' = schedule addr n (T + length (round_sends (take k rds)))"
  using assms
proof (induction rds arbitrary: p l T)
  case Nil
  then show ?case by (simp add: round_sends_def)
next
  case (Cons rd rds)
  from Cons.prems(1) obtain e1 p1 l1 where step: "send_step os rd (p, l) = Inr (e1, p1, l1)"
    and rest: "if e1 then e \<and> p' = p1 else send_loop os rds (p1, l1) = Inr (e, p', l')"
    by (auto simp: bind_res_eq_Inr split: if_splits)
  from send_step_schedule [OF step Cons.prems(2,3,4,5)] Cons.prems(6) obtain T1
    where s: "n dvd T1" "sender_inv n R args addr p1" "send_locals_ok n T1 l1"
      "sent_log p1 = schedule addr n T1" "T1 = (if e1 then T else T + length (round_sends [rd]))"
    by auto
  show ?case
  proof (cases e1)
    case True
    with rest s show ?thesis by (intro exI [of _ 0]) (simp add: round_sends_def)
  next
    case False
    with rest Cons.IH [OF _ s(2,3,4,1)] Cons.prems(6) obtain k where k: "k \<le> length rds"
      "\<not> e \<longrightarrow> k = length rds" "sender_inv n R args addr p'"
      "sent_log p' = schedule addr n (T1 + length (round_sends (take k rds)))"
      by (auto simp: )
    moreover have "T1 + length (round_sends (take k rds)) =
        T + length (round_sends (take (Suc k) (rd # rds)))"
      using s(5) False by (simp add: round_sends_def)
    ultimately show ?thesis by (intro exI [of _ "Suc k"]) simp
  qed
qed

text \<open>The state after the messages have been filled, before the first send.\<close>

lemma messages_filled:
  assumes new: "RioProducer_new os args = Inr p0" and ok: "rate_ok args"
    and p: "p = p0\<lparr>session := (session p0)\<lparr>m_Timing := t\<rparr>\<rparr>"
    and post: "PostFirstSend os now p = Inr (sq, p')"
  defines "n \<equiv> length (McastAddrStr args)" and "R \<equiv> nat (PacketRate args)"
  obtains p1 where "fill_messages now R 0 0 p = Inr p1" and "first_sends_loop os (R * n) 0 p1 = Inr p'"
    and "sender_inv n R args (mc_sockaddr os args) p1" and "sent p1 = []" and "sq = of_nat R"
    and "\<forall>j < R. Seq (data_mem p1 (of_nat (100 * j))) = of_nat j"
proof -
  note built = producer_built [OF new ok, folded n_def R_def]
  note w = rate_words [OF ok, folded n_def R_def] and b = rate_bounds [OF ok, folded n_def R_def]
  have rn: "R * n \<le> 1000000" using ok by (simp add: rate_ok_def n_def R_def)
  from post obtain p1 where fill: "fill_messages now R 0 0 p = Inr p1"
    and sends: "first_sends_loop os (unat (m_MaxOutstandingSend (session p1))) 0 p1 = Inr p'"
    and sq: "sq = of_nat R"
    by (auto simp: PostFirstSend_def Let_def bind_res_eq_Inr p built(8) w)
  have "\<exists>ds D. p1 = p\<lparr>session := (session p)\<lparr>m_RioBuffDescr := ds\<rparr>, data_mem := D\<rparr>
    \<and> length ds = length (m_RioBuffDescr (session p))
    \<and> (\<forall>k < n * (0 + R). ds ! k = (if k < n * 0 then m_RioBuffDescr (session p) ! k
         else data_slot (m_RioBuffId (session p)) (k div n)))
    \<and> (\<forall>j < 0 + R. Seq (D (of_nat (100 * j))) =
         (if j < 0 then Seq (data_mem p (of_nat (100 * j))) else of_nat j))"
    by (rule fill_messages_effect [where now = now])
       (use fill built(1,3) b(4) rn in \<open>simp_all add: p mult.commute\<close>)
  then obtain ds D where p1: "p1 = p\<lparr>session := (session p)\<lparr>m_RioBuffDescr := ds\<rparr>, data_mem := D\<rparr>"
    and ds: "length ds = R * n" "\<forall>k < R * n. ds ! k = data_slot (m_RioBuffId (session p)) (k div n)"
    and D: "\<forall>j < R. Seq (D (of_nat (100 * j))) = of_nat j"
    using built(3) by (auto simp: p mult.commute)
  have "sender_inv n R args (mc_sockaddr os args) p1"
    using built ds b(2,4)
    by (simp add: sender_inv_def p1 p group_addr_def producer_stream_def)
  moreover have "first_sends_loop os (R * n) 0 p1 = Inr p'"
    using sends by (simp add: p1 p built(2))
  moreover have "sent p1 = []" by (simp add: p1 p built(9))
  ultimately show ?thesis using that [OF fill] sq D by (simp add: p1)
qed

lemma post_first_send:
  assumes new: "RioProducer_new os args = Inr p0" and ok: "rate_ok args"
    and p: "p = p0\<lparr>session := (session p0)\<lparr>m_Timing := t\<rparr>\<rparr>"
    and post: "PostFirstSend os now p = Inr (sq, p')"
  defines "n \<equiv> length (McastAddrStr args)" and "R \<equiv> nat (PacketRate args)"
  shows "sender_inv n R args (mc_sockaddr os args) p'" and "sq = of_nat R"
    and "sent_log p' = schedule (mc_sockaddr os args) n (R * n)"
proof -
  obtain p1 where sends: "first_sends_loop os (R * n) 0 p1 = Inr p'"
    and inv: "sender_inv n R args (mc_sockaddr os args) p1" and "sent p1 = []"
    and sq: "sq = of_nat R" and D: "\<forall>j < R. Seq (data_mem p1 (of_nat (100 * j))) = of_nat j"
    using messages_filled [OF assms(1-4), folded n_def R_def] by metis
  show "sq = of_nat R" by (rule sq)
  have "sent_log p1 = schedule (mc_sockaddr os args) n 0"
    using \<open>sent p1 = []\<close> by (simp add: sent_log_def schedule_def)
  from first_sends_schedule [OF sends inv this n_def [THEN meta_eq_to_obj_eq]] D
  show "sender_inv n R args (mc_sockaddr os args) p'"
    and "sent_log p' = schedule (mc_sockaddr os args) n (R * n)"
    by simp_all
qed

lemma start_schedule:
  assumes "RioProducer_new os args = Inr p" and "rate_ok args"
    and "RioProducer_Start os t0 now rds th p = Inr (p', rep)"
    and "\<And>rd. rd \<in> set rds \<Longrightarrow> length (McastAddrStr args) dvd length (round_sends [rd])"
  shows "\<exists>k \<le> length rds. (rep = None \<longrightarrow> k = length rds)
    \<and> sender_inv (length (McastAddrStr args)) (nat (PacketRate args)) args (mc_sockaddr os args) p'
    \<and> sent_log p' = schedule (mc_sockaddr os args) (length (McastAddrStr args))
        (nat (PacketRate args) * length (McastAddrStr args) + length (round_sends (take k rds)))"
proof -
  let ?n = "length (McastAddrStr args)" and ?R = "nat (PacketRate args)"
  let ?p = "p\<lparr>session := (session p)\<lparr>m_Timing := setStart t0 (m_Timing (session p))\<rparr>\<rparr>"
  from producer_started [OF assms(3)] obtain sq p1 e p2 l' tm
    where post: "PostFirstSend os now ?p = Inr (sq, p1)"
      and loop: "send_loop os rds (p1, \<lparr>sequenceNumber = sq, groupCounter = 0\<rparr>) = Inr (e, p2, l')"
      and p': "p' = p2\<lparr>session := (session p2)\<lparr>m_Timing := tm\<rparr>\<rparr>" and rep: "rep = None \<longleftrightarrow> \<not> e" .
  have joined: "sender_inv n R a addr p' = sender_inv n R a addr p2" "sent_log p' = sent_log p2"
    for n R a addr by (simp_all add: p' sender_inv_def group_addr_def sent_log_def)
  note s = post_first_send [OF assms(1,2) refl post]
  have n: "0 < ?n" using rate_bounds(4) [OF assms(2)] .
  have l: "send_locals_ok ?n (?R * ?n) \<lparr>sequenceNumber = sq, groupCounter = 0\<rparr>"
    using n s(2) by (simp add: send_locals_ok_def)
  from send_loop_schedule [OF loop s(1) l s(3) dvd_triv_right assms(4)] rep show ?thesis
    by (auto simp: joined)
qed

text \<open>
  C4: The producer keeps to the schedule. With a rate and a number of groups that \<open>Check\<close>
  admits, and completions that arrive in batches of a multiple of the number of groups, the
  sends of any run are exactly these, in order: send number \<open>k\<close> goes to group \<open>k mod n\<close>
  with sequence number \<open>k div n\<close>. The packet counter and the group statistics count them.
\<close>

theorem producer_follows_schedule:
  assumes "RioProducer_new os args = Inr p" and "rate_ok args"
    and "RioProducer_Start os t0 now rds th p = Inr (p', rep)"
    and "\<And>rd. rd \<in> set rds \<Longrightarrow> length (McastAddrStr args) dvd length (round_sends [rd])"
  shows "\<exists>k \<le> length rds. (rep = None \<longrightarrow> k = length rds) \<and>
    (let T = nat (PacketRate args) * length (McastAddrStr args) + length (round_sends (take k rds))
     in sent_log p' = schedule (mc_sockaddr os args) (length (McastAddrStr args)) T
      \<and> m_TotalPkts (session p') = of_nat T
      \<and> m_GroupStats (session p') = producer_stream 100 (map fst (sent p'))
          (InitGroupStats (map ipNetOrder (McastAddrStr args)) []))"
proof -
  let ?n = "length (McastAddrStr args)" and ?R = "nat (PacketRate args)"
  from start_schedule [OF assms] obtain k where k: "k \<le> length rds" "rep = None \<longrightarrow> k = length rds"
      and inv: "sender_inv ?n ?R args (mc_sockaddr os args) p'"
      and log: "sent_log p' = schedule (mc_sockaddr os args) ?n (?R * ?n + length (round_sends (take k rds)))"
    by blast
  have "length (sent p') = length (sent_log p')" by (simp add: sent_log_def)
  then have "length (sent p') = ?R * ?n + length (round_sends (take k rds))"
    by (simp add: log schedule_def)
  with inv log k show ?thesis
    by (intro exI [of _ k]) (simp add: sender_inv_def Let_def)
qed

section \<open>Where the schedule breaks\<close>

text \<open>
  A batch that is not a multiple of the number of groups breaks the schedule. The loop
  picks the address by the position in the batch, but the sequence number by a counter that
  runs on: with two or more groups, two completions that arrive one by one after the first
  sends both go to the first group, with the same sequence number, and the second group
  gets no packet with that number.
\<close>

theorem split_batches_break_schedule:
  assumes "RioProducer_new os args = Inr p" and "rate_ok args"
    and "PostFirstSend os now p = Inr (sq, p1)" and "2 \<le> length (McastAddrStr args)"
    and "resend_batch os 0 [r1] (p1, \<lparr>sequenceNumber = sq, groupCounter = 0\<rparr>) = Inr (p2, l2)"
    and "resend_batch os 0 [r2] (p2, l2) = Inr (p3, l3)"
  shows "sent_log p3 = sent_log p1 @ [(mc_sockaddr os args 0, of_nat (nat (PacketRate args))),
    (mc_sockaddr os args 0, of_nat (nat (PacketRate args)))]"
proof -
  let ?n = "length (McastAddrStr args)" and ?R = "nat (PacketRate args)"
  let ?l = "\<lparr>sequenceNumber = sq, groupCounter = 0\<rparr>"
  have p: "p = p\<lparr>session := (session p)\<lparr>m_Timing := m_Timing (session p)\<rparr>\<rparr>" by simp
  note s = post_first_send [OF assms(1,2) p assms(3)]
  note n = rate_bounds(4) [OF assms(2)]
  have l: "send_locals_ok ?n (?R * ?n) ?l" using n s(2) by (simp add: send_locals_ok_def)
  have st1: "resend os 0 r1 (p1, ?l) = Inr (p2, l2)" and st2: "resend os 0 r2 (p2, l2) = Inr (p3, l3)"
    using assms(5,6) by (auto simp: bind_res_eq_Inr)
  note r1 = resend_schedule [OF s(1) l _ st1 s(3)]
  have inv2: "sender_inv ?n ?R args (mc_sockaddr os args) p2"
    and log2: "sent_log p2 = sent_log p1 @ [(mc_sockaddr os args 0, of_nat ?R)]"
    using r1(1,3) s(3) n by (simp_all add: schedule_Suc)
  have "unat (groupCounter l2) = 1" "sequenceNumber l2 = of_nat ?R"
    using r1(2) assms(4) n by (simp_all add: send_locals_ok_def mod_Suc div_Suc)
  note l2 = this(2)
  let ?off = "Offset (m_RioBuffDescr (session p2) ! SendContext r2)"
  let ?p = "p2\<lparr>data_mem := (data_mem p2)(?off := (data_mem p2 ?off)\<lparr>Seq := sequenceNumber l2,
      Timestamp := sr_now r2\<rparr>)\<rparr>"
  have send: "send_one os (SendContext r2) 0 0 ?p = Inr p3"
    and x: "SendContext r2 < length (m_RioBuffDescr (session p2))"
    using st2 by (auto simp: resend_def Let_def bind_res_eq_Inr split: if_splits)
  have inv: "sender_inv ?n ?R args (mc_sockaddr os args) ?p"
    using inv2 by (simp add: sender_inv_def group_addr_def)
  have "m_RioBuffDescr (session p2) ! SendContext r2 =
      data_slot (m_RioBuffId (session p2)) (SendContext r2 div ?n)"
    using inv2 x by (simp add: sender_inv_def)
  then have "sent_log p3 = sent_log p2 @ [(mc_sockaddr os args 0, of_nat ?R)]"
    using send_one_inv(2) [OF inv send n] l2 by (simp add: sent_log_def)
  with log2 show ?thesis by simp
qed

text \<open>
  The messages of one sequence number share one data buffer. When the first of them
  completes, the loop writes the next sequence number into that buffer although the sends
  to the other groups may still be in flight: after the completion of descriptor 0, the
  buffer of descriptor 1, sent with number 0 and not completed, holds another number.
\<close>

theorem resend_overwrites_shared_buffer:
  assumes "RioProducer_new os args = Inr p" and "rate_ok args"
    and "PostFirstSend os now p = Inr (sq, p1)" and "2 \<le> length (McastAddrStr args)"
    and "resend os 0 r (p1, \<lparr>sequenceNumber = sq, groupCounter = 0\<rparr>) = Inr (p2, l2)"
    and "SendContext r = 0"
  shows "sent_log p1 ! 1 = (mc_sockaddr os args 1, 0)
    \<and> Seq (data_mem p2 (Offset (m_RioBuffDescr (session p2) ! 1))) = of_nat (nat (PacketRate args))
    \<and> of_nat (nat (PacketRate args)) \<noteq> (0 :: u64)"
proof -
  let ?n = "length (McastAddrStr args)" and ?R = "nat (PacketRate args)"
  let ?l = "\<lparr>sequenceNumber = sq, groupCounter = 0\<rparr>"
  have p: "p = p\<lparr>session := (session p)\<lparr>m_Timing := m_Timing (session p)\<rparr>\<rparr>" by simp
  note s = post_first_send [OF assms(1,2) p assms(3)] and b = rate_bounds [OF assms(2)]
  have "?n \<le> ?R * ?n" using b(3) by (cases ?R) simp_all
  then have two: "1 < ?R * ?n" using assms(4) by linarith
  have "?R < 2 ^ LENGTH(64)" using b(1) by simp
  then have "unat (of_nat ?R :: u64) = ?R" by (rule unat_of_nat_less)
  moreover have "?R \<noteq> 0" using b(3) by simp
  ultimately have nz: "of_nat ?R \<noteq> (0 :: u64)" by (metis unat_0)
  have first: "sent_log p1 ! 1 = (mc_sockaddr os args 1, 0)"
    using two assms(4) by (simp add: s(3) schedule_def)
  let ?off = "Offset (m_RioBuffDescr (session p1) ! 0)"
  let ?p = "p1\<lparr>data_mem := (data_mem p1)(?off := (data_mem p1 ?off)\<lparr>Seq := sq, Timestamp := sr_now r\<rparr>)\<rparr>"
  have send: "send_one os 0 0 0 ?p = Inr p2"
    using assms(5,6) by (auto simp: resend_def Let_def bind_res_eq_Inr split: if_splits)
  have inv: "sender_inv ?n ?R args (mc_sockaddr os args) ?p"
    using s(1) by (simp add: sender_inv_def group_addr_def)
  note r = send_one_inv [OF inv send b(4)]
  have descr: "sender_inv ?n ?R args addr q \<Longrightarrow> k < ?R * ?n \<Longrightarrow>
      m_RioBuffDescr (session q) ! k = data_slot (m_RioBuffId (session q)) (k div ?n)" for addr q k
    by (simp add: sender_inv_def)
  have "m_RioBuffDescr (session p1) ! 0 = data_slot (m_RioBuffId (session p1)) 0"
    using descr [OF s(1), of 0] two by (simp only: div_0)
  moreover have "m_RioBuffDescr (session p2) ! 1 = data_slot (m_RioBuffId (session p1)) 0"
    using descr [OF r(1), of 1] two assms(4) r(4) by simp
  ultimately show ?thesis
    using first nz s(2) r(3) by simp
qed

end
