(* ===== verification/Producer_Runs.thy ===== *)
theory Producer_Runs
  imports Producer_Sequences
begin

text \<open>
  Runs of the producer: on a system where every call reports success it starts and keeps
  sending; the release of its resources; and the concrete runs that witness the theorems.
\<close>

section \<open>The producer on a system where every call succeeds\<close>

context os_up
begin

lemma send_one_up:
  assumes "x < length (m_RioBuffDescr (session p))" and "a < length (m_McAddrDescr (session p))"
    and "a' < length (m_McAddrDescr (session p))"
  shows "\<exists>p'. send_one os x a a' p = Inr p'"
proof -
  have "sys os tr (RIOSendEx q d ad x) \<noteq> 0" for tr q d ad
    using call_succeeds [of "RIOSendEx q d ad x" tr] by simp
  with assms show ?thesis by (simp add: send_one_def do_call_def Let_def)
qed

lemma init_groups_up:
  "i + n \<le> length (McastAddrStr (m_Args (session p))) \<Longrightarrow>
    (\<And>a. a \<in> set (McastAddrStr (m_Args (session p))) \<Longrightarrow> inet_pton4 (net os) (Ipv4_str (net os) a) \<noteq> None) \<Longrightarrow>
    \<exists>p'. init_groups_loop os n i off p = Inr p'"
proof (induction n arbitrary: i off p)
  case (Suc n)
  let ?ip = "McastAddrStr (m_Args (session p)) ! i"
  have "?ip \<in> set (McastAddrStr (m_Args (session p)))" using Suc.prems(1) by simp
  with Suc.prems(2) obtain a where a: "inet_pton4 (net os) (Ipv4_str (net os) ?ip) = Some a" by blast
  show ?case using Suc.prems a by (auto simp: Let_def intro!: Suc.IH)
qed simp

lemma producer_new_up:
  assumes a: "inet_pton4 (net os) (IfIndex args) = Some ip" and ok: "rate_ok args"
    and g: "allocation_granularity os \<noteq> 0"
      "100000000 + unat (allocation_granularity os) \<le> 2 ^ 32"
    and groups: "\<And>a. a \<in> set (McastAddrStr args) \<Longrightarrow>
      inet_pton4 (net os) (Ipv4_str (net os) a) \<noteq> None"
  shows "\<exists>p. RioProducer_new os args = Inr p"
proof -
  let ?rate = "word_of_int (PacketRate args) :: u32"
    and ?n = "of_nat (length (McastAddrStr args)) :: u32"
  note w = rate_words [OF ok] and b = rate_bounds [OF ok]
  have "\<exists>s. RioSession_new os args = Inr s"
    using call_succeeds [of "WSASocket WSA_FLAG_REGISTERED_IO" "[]"]
    by (simp add: RioSession_new_def CreateSocket_def do_call_def Let_def RioSession_uninit_def)
  then obtain s1 where s1: "RioSession_new os args = Inr s1" by blast
  have "\<exists>s'. BindSocket os 0 (IfIndex args) s1 = Inr s'"
    using a call_succeeds [of "Bind (m_SocketHandle s1) ip (net_htons os 0)" "calls s1"]
      call_succeeds [of "Bind (m_SocketHandle s1) 0 (net_htons os 0)" "calls s1"]
    by (simp add: BindSocket_def do_call_def eq_commute [of SOCKET_ERROR])
  then obtain s2 where s2: "BindSocket os 0 (IfIndex args) s1 = Inr s2" by blast
  define t2 where "t2 = s2\<lparr>m_MaxOutstandingReceive := 0, m_MaxReceiveDataBuffers := 1,
    m_MaxOutstandingSend := ?rate * ?n, m_MaxSendDataBuffers := 1,
    m_RioBuffDescr := replicate (unat (?rate * ?n)) zero_buf\<rparr>"
  have "\<exists>s'. SendOnInterface os (IfIndex args) t2 = Inr s'"
    using call_succeeds [of "SetMulticastIf (m_SocketHandle t2) (net_inet_addr os (IfIndex args))" "calls t2"]
    by (simp add: SendOnInterface_def do_call_def)
  then obtain s3 where s3: "SendOnInterface os (IfIndex args) t2 = Inr s3" by blast
  have "\<exists>s'. InitializeRIO os s3 = Inr s'"
    using call_succeeds [of "WSAIoctl (m_SocketHandle s3)" "calls s3"]
    by (simp add: InitializeRIO_def do_call_def)
  then obtain s4 where s4: "InitializeRIO os s3 = Inr s4" by blast
  have "\<exists>s'. CreateCompletionQueue os (m_MaxOutstandingSend s4) s4 = Inr s'"
    using call_succeeds [of "RIOCreateCompletionQueue (m_MaxOutstandingSend s4) (m_hIOCP s4)" "calls s4"]
    by (simp add: CreateCompletionQueue_def do_call_def)
  then obtain s5 where s5: "CreateCompletionQueue os (m_MaxOutstandingSend s4) s4 = Inr s5" by blast
  have "\<exists>s'. CreateRequestQueue os s5 = Inr s'"
    using call_succeeds [of "RIOCreateRequestQueue (m_SocketHandle s5) (m_MaxOutstandingReceive s5)
      (m_MaxReceiveDataBuffers s5) (m_MaxOutstandingSend s5) (m_MaxSendDataBuffers s5)
      (m_CompletionQueue s5) (m_CompletionQueue s5)" "calls s5"]
    by (simp add: CreateRequestQueue_def do_call_def)
  then obtain s6 where s6: "CreateRequestQueue os s5 = Inr s6" by blast
  have "unat ?rate \<le> 1000000" "unat ?n \<le> 1000000" using w(1,2) b(1,2) by simp_all
  with g obtain b1 i1 s7 where s7: "AllocateAndRegisterBuffer os 100 ?rate s6 = Inr (b1, i1, s7)"
    using buffer_up [of 100 ?rate s6] by auto
  from \<open>unat ?n \<le> 1000000\<close> g obtain b2 i2 s8 where s8: "AllocateAndRegisterBuffer os 28 ?n
      (s7\<lparr>m_RioBuffPtr := b1, m_RioBuffId := i1\<rparr>) = Inr (b2, i2, s8)"
    using buffer_up [of 28 ?n "s7\<lparr>m_RioBuffPtr := b1, m_RioBuffId := i1\<rparr>"] by auto
  have m: "m_MaxOutstandingSend s4 = ?rate * ?n" "m_Args s8 = args"
    using RioSession_new_effect [OF s1] BindSocket_effect [OF s2] SendOnInterface_effect [OF s3]
      InitializeRIO_effect [OF s4] CreateCompletionQueue_effect [OF s5]
      CreateRequestQueue_effect [OF s6] alloc_effect [OF s7] alloc_effect [OF s8]
    by (auto simp: t2_def Let_def RioSession_uninit_def)
  define p where "p = \<lparr>session = s8\<lparr>m_McAddrBuffPtr := b2, m_McAddrBuffId := i2\<rparr>,
        m_SpinDuration = first_pause (PacketRate args),
        m_NumberOfMcGroups = ?n, data_mem = (\<lambda>_. zero_header), addr_mem = (\<lambda>_. zero_addr),
        sent = []\<rparr>"
  have "\<exists>p'. RioProducer_InitMcAddrDescriptors os p = Inr p'"
    unfolding RioProducer_InitMcAddrDescriptors_def Let_def
    by (rule init_groups_up) (use m groups w(2) in \<open>simp_all add: p_def\<close>)
  moreover have "PacketRate args \<noteq> 0" using b(3) by auto
  moreover have "m_MaxOutstandingSend t2 = ?rate * ?n" by (simp add: t2_def)
  moreover have "m_MaxOutstandingSend s3 = ?rate * ?n"
    using SendOnInterface_effect [OF s3] by (simp add: t2_def)
  ultimately show ?thesis
    using s1 s2 s3 s4 s5 s6 s7 s8 m
    by (auto simp: RioProducer_new_def Let_def t2_def p_def EXPECTED_DATA_SIZE_def ADDR_SIZE_def)
qed

lemma fill_descrs_up:
  "unat g * unat i + (j + r) \<le> length (m_RioBuffDescr s) \<Longrightarrow>
    length (m_RioBuffDescr s) \<le> 1000000 \<Longrightarrow> \<exists>s'. fill_descrs g i r j off s = Inr s'"
proof (induction r arbitrary: j s)
  case (Suc r)
  have b: "unat g * unat i + j < 1000000" using Suc.prems by simp
  then have "unat (g * i) = unat g * unat i" by (intro unat_mult_less) simp
  moreover have "unat (of_nat j :: u32) = j" using b by (simp add: unat_of_nat_less)
  ultimately have "unat (g * i + of_nat j) = unat g * unat i + j"
    using b by (subst unat_add_less) simp_all
  then show ?case using Suc.prems by (auto simp: Let_def intro!: Suc.IH)
qed simp

lemma fill_messages_up:
  assumes "unat (m_NumberOfMcGroups p) = n" and "0 < n"
    and "n * (i + m) \<le> length (m_RioBuffDescr (session p))"
    and "length (m_RioBuffDescr (session p)) \<le> 1000000"
  shows "\<exists>p'. fill_messages now m i off p = Inr p'"
  using assms
proof (induction m arbitrary: i off p)
  case (Suc m)
  have "i + Suc m \<le> n * (i + Suc m)" using Suc.prems(2) by (cases n) simp_all
  then have "i + Suc m \<le> 1000000" by (rule le_trans [OF _ le_trans [OF Suc.prems(3,4)]])
  then have i: "unat (of_nat i :: u32) = i" by (simp add: unat_of_nat_less)
  have "n * (i + 1) \<le> n * (i + Suc m)" by (rule mult_le_mono2) simp
  from le_trans [OF this Suc.prems(3)] Suc.prems(1)
  have fit: "unat (m_NumberOfMcGroups p) * unat (of_nat i :: u32) + (0 + n)
      \<le> length (m_RioBuffDescr (session p))"
    by (simp add: i)
  obtain s1 where s1: "fill_descrs (m_NumberOfMcGroups p) (of_nat i) n 0 off (session p) = Inr s1"
    using fill_descrs_up [OF fit Suc.prems(4)] by blast
  have "length (m_RioBuffDescr s1) = length (m_RioBuffDescr (session p))"
    using fill_descrs_effect [OF s1 fit Suc.prems(4)] by auto
  with Suc.prems s1 show ?case
    by (auto simp: lift_op_def intro!: Suc.IH)
qed simp

lemma first_sends_up:
  assumes "sender_inv n R args addr p" and "n = length (McastAddrStr args)" and "i + m \<le> R * n"
  shows "\<exists>p'. first_sends_loop os m i p = Inr p'"
  using assms
proof (induction m arbitrary: i p)
  case (Suc m)
  have n: "0 < n" "unat (m_NumberOfMcGroups p) = n" "m_Args (session p) = args"
    "length (m_RioBuffDescr (session p)) = R * n" "length (m_McAddrDescr (session p)) = n"
    using Suc.prems(1) by (simp_all add: sender_inv_def)
  then obtain p1 where p1: "send_one os i (i mod n) (i mod n) p = Inr p1"
    using send_one_up [of i p "i mod n" "i mod n"] Suc.prems(3) by auto
  have "sender_inv n R args addr p1"
    using send_one_inv(1) [OF Suc.prems(1) p1] n(1) by simp
  from Suc.IH [OF this Suc.prems(2), of "i + 1"] Suc.prems(3)
  have "\<exists>p'. first_sends_loop os m (i + 1) p1 = Inr p'" by simp
  moreover have "m_NumberOfMcGroups p \<noteq> 0" using n(1,2) by auto
  ultimately show ?case using p1 n Suc.prems(2) by simp
qed simp

lemma post_first_send_up:
  assumes new: "RioProducer_new os args = Inr p0" and ok: "rate_ok args"
    and p: "p = p0\<lparr>session := (session p0)\<lparr>m_Timing := t\<rparr>\<rparr>"
  shows "\<exists>sq p'. PostFirstSend os now p = Inr (sq, p')"
proof -
  let ?n = "length (McastAddrStr args)" and ?R = "nat (PacketRate args)"
  note built = producer_built [OF new ok] and w = rate_words [OF ok] and b = rate_bounds [OF ok]
  have rn: "?R * ?n \<le> 1000000" using ok by (simp add: rate_ok_def)
  have len: "?n * (0 + ?R) \<le> length (m_RioBuffDescr (session p))"
    "length (m_RioBuffDescr (session p)) \<le> 1000000"
    using built(3) rn by (simp_all add: p mult.commute)
  have gn: "unat (m_NumberOfMcGroups p) = ?n" using built(1) by (simp add: p)
  obtain p1 where fill: "fill_messages now ?R 0 0 p = Inr p1"
    using fill_messages_up [OF gn b(4) len] by blast
  have "\<exists>ds D. p1 = p\<lparr>session := (session p)\<lparr>m_RioBuffDescr := ds\<rparr>, data_mem := D\<rparr>
    \<and> length ds = length (m_RioBuffDescr (session p))
    \<and> (\<forall>k < ?n * (0 + ?R). ds ! k = (if k < ?n * 0 then m_RioBuffDescr (session p) ! k
         else data_slot (m_RioBuffId (session p)) (k div ?n)))
    \<and> (\<forall>j < 0 + ?R. Seq (D (of_nat (100 * j))) =
         (if j < 0 then Seq (data_mem p (of_nat (100 * j))) else of_nat j))"
    by (rule fill_messages_effect [OF _ gn b(4) len, where now = now]) (use fill in simp)
  then obtain ds D where p1: "p1 = p\<lparr>session := (session p)\<lparr>m_RioBuffDescr := ds\<rparr>, data_mem := D\<rparr>"
    and ds: "length ds = ?R * ?n" "\<forall>k < ?R * ?n. ds ! k = data_slot (m_RioBuffId (session p)) (k div ?n)"
    using built(3) by (auto simp: p mult.commute)
  have inv: "sender_inv ?n ?R args (mc_sockaddr os args) p1"
    using built ds b(2,4)
    by (simp add: sender_inv_def p1 p group_addr_def producer_stream_def)
  have max: "unat (m_MaxOutstandingSend (session p1)) = ?R * ?n"
    by (simp add: p1 p built(2))
  obtain p2 where "first_sends_loop os (?R * ?n) 0 p1 = Inr p2"
    using first_sends_up [OF inv refl, of 0 "?R * ?n"] by auto
  with fill max show ?thesis
    by (auto simp: PostFirstSend_def Let_def p built(8) w(1))
qed

lemma resend_up:
  assumes inv: "sender_inv n R args addr p" and x: "SendContext r < R * n"
  shows "\<exists>p' l'. resend os i r (p, l) = Inr (p', l')"
proof -
  have n: "0 < n" "unat (m_NumberOfMcGroups p) = n" "m_NumberOfMcGroups p \<noteq> 0"
    "length (m_RioBuffDescr (session p)) = R * n" "length (m_McAddrDescr (session p)) = n"
    using inv by (auto simp: sender_inv_def)
  have "\<exists>p'. send_one os (SendContext r) (i mod n) (i mod n) (p\<lparr>data_mem := D\<rparr>) = Inr p'" for D
    using send_one_up [of "SendContext r" "p\<lparr>data_mem := D\<rparr>"] n x by simp
  then show ?thesis
    using n x by (simp add: resend_def Let_def bind_res_def) (metis sum.simps(6))
qed

end

text \<open>
  The producer starts. On a system where every call reports success, with arguments that
  \<open>Check\<close> admits, an interface address and group addresses that convert and an allocation
  granularity that leaves room below 4 GB, the constructor and the first posting return,
  and the first sends are one message for each sequence number below the rate and each group.
\<close>

theorem producer_starts:
  assumes "\<And>c tr. succeeded c (sys os tr c)"
    and "inet_pton4 (net os) (IfIndex args) = Some ip" and "rate_ok args"
    and "allocation_granularity os \<noteq> 0"
    and "100000000 + unat (allocation_granularity os) \<le> 2 ^ 32"
    and "\<And>a. a \<in> set (McastAddrStr args) \<Longrightarrow> inet_pton4 (net os) (Ipv4_str (net os) a) \<noteq> None"
  shows "\<exists>p sq p'. RioProducer_new os args = Inr p \<and> PostFirstSend os now p = Inr (sq, p')
    \<and> sent_log p' = schedule (mc_sockaddr os args) (length (McastAddrStr args))
        (nat (PacketRate args) * length (McastAddrStr args))"
proof -
  from assms(1) have up: "os_up os" by unfold_locales
  obtain p where p: "RioProducer_new os args = Inr p"
    using os_up.producer_new_up [OF up assms(2-6)] by blast
  have t: "p = p\<lparr>session := (session p)\<lparr>m_Timing := m_Timing (session p)\<rparr>\<rparr>" by simp
  obtain sq p' where post: "PostFirstSend os now p = Inr (sq, p')"
    using os_up.post_first_send_up [OF up p assms(3) t] by blast
  with p post_first_send(3) [OF p assms(3) t post] show ?thesis by blast
qed

section \<open>Concrete runs\<close>

text \<open>Two groups, one message a second for each.\<close>

definition ref_producer_args :: args_t where
  "ref_producer_args = ref_args\<lparr>Command := ''producer'',
     McastAddrStr := [Ipv4Addr (bswap32 0xEF054502), Ipv4Addr (bswap32 0xEF054503)]\<rparr>"

lemma ref_producer_ok: "rate_ok ref_producer_args" "length (McastAddrStr ref_producer_args) = 2"
    "nat (PacketRate ref_producer_args) = 1"
  by (simp_all add: rate_ok_def ref_producer_args_def ref_args_def)

lemma ref_pton: "inet_pton4 (net ref_os) (Ipv4_str (net ref_os) a) \<noteq> None"
  using refws.pton_ntop [of "ip_be a"] by (simp add: Ipv4_str_def)

lemma ref_producer_if: "inet_pton4 (net ref_os) (IfIndex ref_producer_args) = Some (bswap32 0x0A000004)"
  using ref_args_addr by (simp add: ref_producer_args_def)

lemma ref_granularity:
  "allocation_granularity ref_os \<noteq> 0" "100000000 + unat (allocation_granularity ref_os) \<le> 2 ^ 32"
  by simp_all

lemma ref_schedule: "schedule f 2 2 = [(f 0, 0), (f 1, 0)]"
  by (simp add: schedule_def upt_rec)

theorem producer_starts_witness:
  "\<exists>p sq p'. RioProducer_new ref_os ref_producer_args = Inr p
    \<and> PostFirstSend ref_os (\<lambda>_. 0) p = Inr (sq, p')
    \<and> sent_log p' = [(mc_sockaddr ref_os ref_producer_args 0, 0), (mc_sockaddr ref_os ref_producer_args 1, 0)]"
  using producer_starts [OF refos.call_succeeds ref_producer_if ref_producer_ok(1) ref_granularity ref_pton,
      of "\<lambda>_. 0"]
  unfolding ref_producer_ok(2,3) mult_1 ref_schedule .

lemma ref_producer:
  "\<exists>p sq p'. RioProducer_new ref_os ref_producer_args = Inr p
    \<and> PostFirstSend ref_os (\<lambda>_. 0) p = Inr (sq, p')"
proof -
  obtain p where p: "RioProducer_new ref_os ref_producer_args = Inr p"
    using refos.producer_new_up [OF ref_producer_if ref_producer_ok(1) ref_granularity ref_pton] by blast
  have t: "p = p\<lparr>session := (session p)\<lparr>m_Timing := m_Timing (session p)\<rparr>\<rparr>" by simp
  from refos.post_first_send_up [OF p ref_producer_ok(1) t] p show ?thesis by blast
qed

lemma ref_post:
  assumes "RioProducer_new ref_os ref_producer_args = Inr p0"
    and "PostFirstSend ref_os now (p0\<lparr>session := (session p0)\<lparr>m_Timing := t\<rparr>\<rparr>) = Inr (sq, p)"
  shows "sender_inv 2 1 ref_producer_args (mc_sockaddr ref_os ref_producer_args) p"
    and "sq = 1"
    and "sent_log p = [(mc_sockaddr ref_os ref_producer_args 0, 0), (mc_sockaddr ref_os ref_producer_args 1, 0)]"
  using post_first_send [OF assms(1) ref_producer_ok(1) refl assms(2)]
  unfolding ref_producer_ok(2,3) mult_1 ref_schedule by simp_all

text \<open>A batch of the two completions of the first message.\<close>

definition pair_round :: send_round where
  "pair_round = \<lparr>sd_signal = 0, sd_now = 0, sd_completed = True,
     sd_results = Some [\<lparr>SendContext = 0, sr_now = 0\<rparr>, \<lparr>SendContext = 1, sr_now = 0\<rparr>]\<rparr>"

lemma ref_producer_run:
  "\<exists>p p'. RioProducer_new ref_os ref_producer_args = Inr p
    \<and> RioProducer_Start ref_os 0 (\<lambda>_. 0) [pair_round] [] p = Inr (p', None)"
proof -
  obtain p where p: "RioProducer_new ref_os ref_producer_args = Inr p"
    using ref_producer by blast
  let ?p = "p\<lparr>session := (session p)\<lparr>m_Timing := setStart 0 (m_Timing (session p))\<rparr>\<rparr>"
  obtain sq p1 where post: "PostFirstSend ref_os (\<lambda>_. 0) ?p = Inr (sq, p1)"
    using refos.post_first_send_up [OF p ref_producer_ok(1) refl] by blast
  note r = ref_post [OF p post]
  let ?l = "\<lparr>sequenceNumber = 1, groupCounter = 0\<rparr>"
  let ?s = "(session p1)\<lparr>m_Timing := setStop 0 (m_Timing (session p1)),
     calls := calls (session p1) @ [RIONotify (m_CompletionQueue (session p1))]\<rparr>"
  have args: "m_Args (session p1) = ref_producer_args" using r(1) by (simp add: sender_inv_def)
  have inv: "sender_inv 2 1 ref_producer_args (mc_sockaddr ref_os ref_producer_args) (p1\<lparr>session := ?s\<rparr>)"
    using r(1) by (simp add: sender_inv_def group_addr_def)
  obtain p2 l2 where a: "resend ref_os 0 \<lparr>SendContext = 0, sr_now = 0\<rparr> (p1\<lparr>session := ?s\<rparr>, ?l) = Inr (p2, l2)"
    using refos.resend_up [OF inv, of "\<lparr>SendContext = 0, sr_now = 0\<rparr>" 0 ?l] by auto
  have l: "send_locals_ok 2 2 ?l" by (simp add: send_locals_ok_def)
  have log: "sent_log (p1\<lparr>session := ?s\<rparr>) = schedule (mc_sockaddr ref_os ref_producer_args) 2 2"
    using r(3) by (simp add: sent_log_def ref_schedule)
  have "0 mod 2 = (2 :: nat) mod 2" by simp
  note n = resend_schedule [OF inv l this a log]
  obtain p3 l3 where b: "resend ref_os 1 \<lparr>SendContext = 1, sr_now = 0\<rparr> (p2, l2) = Inr (p3, l3)"
    using refos.resend_up [OF n(1), of "\<lparr>SendContext = 1, sr_now = 0\<rparr>" 1 l2] by auto
  have "send_loop ref_os [pair_round] (p1, ?l) = Inr (False, p3, l3)"
    using a b args
    by (simp add: pair_round_def send_step_def ShouldStop_def Let_def lift_op_def refos.notify_up
        ref_producer_args_def ref_args_def)
  with p post r(2) show ?thesis
    unfolding RioProducer_Start_def Let_def by (intro exI [of _ p] exI [of _ p3]) simp
qed

theorem producer_follows_schedule_witness:
  "\<exists>p p'. RioProducer_new ref_os ref_producer_args = Inr p
    \<and> RioProducer_Start ref_os 0 (\<lambda>_. 0) [pair_round] [] p = Inr (p', None)
    \<and> sent_log p' = schedule (mc_sockaddr ref_os ref_producer_args) 2 4"
proof -
  from ref_producer_run obtain p p' where p: "RioProducer_new ref_os ref_producer_args = Inr p"
    and run: "RioProducer_Start ref_os 0 (\<lambda>_. 0) [pair_round] [] p = Inr (p', None)" by blast
  have b: "length (McastAddrStr ref_producer_args) dvd length (round_sends [rd])"
    if "rd \<in> set [pair_round]" for rd
    using that by (simp add: ref_producer_ok round_sends_def pair_round_def)
  have "round_sends (take 1 [pair_round]) = [\<lparr>SendContext = 0, sr_now = 0\<rparr>, \<lparr>SendContext = 1, sr_now = 0\<rparr>]"
    by (simp add: round_sends_def pair_round_def)
  with producer_follows_schedule [OF p ref_producer_ok(1) run b]
  have "sent_log p' = schedule (mc_sockaddr ref_os ref_producer_args) 2 4"
    by (auto simp: ref_producer_ok Let_def numeral_eq_Suc)
  with p run show ?thesis by blast
qed

theorem split_batches_break_schedule_witness:
  "\<exists>p p1 sq p2 l2 p3 l3. RioProducer_new ref_os ref_producer_args = Inr p
    \<and> PostFirstSend ref_os (\<lambda>_. 0) p = Inr (sq, p1)
    \<and> resend_batch ref_os 0 [\<lparr>SendContext = 0, sr_now = 0\<rparr>] (p1, \<lparr>sequenceNumber = sq, groupCounter = 0\<rparr>) = Inr (p2, l2)
    \<and> resend_batch ref_os 0 [\<lparr>SendContext = 1, sr_now = 0\<rparr>] (p2, l2) = Inr (p3, l3)
    \<and> sent_log p3 = sent_log p1 @ [(mc_sockaddr ref_os ref_producer_args 0, 1),
        (mc_sockaddr ref_os ref_producer_args 0, 1)]"
proof -
  obtain p sq p1 where p: "RioProducer_new ref_os ref_producer_args = Inr p"
    and post: "PostFirstSend ref_os (\<lambda>_. 0) p = Inr (sq, p1)" using ref_producer by blast
  let ?l = "\<lparr>sequenceNumber = sq, groupCounter = 0\<rparr>"
  have "PostFirstSend ref_os (\<lambda>_. 0) (p\<lparr>session := (session p)\<lparr>m_Timing := m_Timing (session p)\<rparr>\<rparr>)
      = Inr (sq, p1)" using post by simp
  note r = ref_post [OF p this]
  obtain p2 l2 where a: "resend ref_os 0 \<lparr>SendContext = 0, sr_now = 0\<rparr> (p1, ?l) = Inr (p2, l2)"
    using refos.resend_up [OF r(1), of "\<lparr>SendContext = 0, sr_now = 0\<rparr>" 0 ?l] by auto
  have l: "send_locals_ok 2 2 ?l" by (simp add: send_locals_ok_def r(2))
  have "0 mod 2 = (2 :: nat) mod 2" by simp
  note n = resend_schedule [OF r(1) l this a r(3) [folded ref_schedule]]
  obtain p3 l3 where b: "resend ref_os 0 \<lparr>SendContext = 1, sr_now = 0\<rparr> (p2, l2) = Inr (p3, l3)"
    using refos.resend_up [OF n(1), of "\<lparr>SendContext = 1, sr_now = 0\<rparr>" 0 l2] by auto
  have ab: "resend_batch ref_os 0 [\<lparr>SendContext = 0, sr_now = 0\<rparr>] (p1, ?l) = Inr (p2, l2)"
    "resend_batch ref_os 0 [\<lparr>SendContext = 1, sr_now = 0\<rparr>] (p2, l2) = Inr (p3, l3)"
    using a b by simp_all
  have "2 \<le> length (McastAddrStr ref_producer_args)" by (simp add: ref_producer_ok)
  from split_batches_break_schedule [OF p ref_producer_ok(1) post this ab] p post ab
  show ?thesis
    unfolding ref_producer_ok(3)
    by (intro exI [of _ p] exI [of _ p1] exI [of _ sq] exI [of _ p2] exI [of _ l2] exI [of _ p3]
        exI [of _ l3]) simp
qed

theorem resend_overwrites_shared_buffer_witness:
  "\<exists>p p1 sq p2 l2. RioProducer_new ref_os ref_producer_args = Inr p
    \<and> PostFirstSend ref_os (\<lambda>_. 0) p = Inr (sq, p1)
    \<and> resend ref_os 0 \<lparr>SendContext = 0, sr_now = 0\<rparr> (p1, \<lparr>sequenceNumber = sq, groupCounter = 0\<rparr>) = Inr (p2, l2)
    \<and> sent_log p1 ! 1 = (mc_sockaddr ref_os ref_producer_args 1, 0)
    \<and> Seq (data_mem p2 (Offset (m_RioBuffDescr (session p2) ! 1))) = 1"
proof -
  obtain p sq p1 where p: "RioProducer_new ref_os ref_producer_args = Inr p"
    and post: "PostFirstSend ref_os (\<lambda>_. 0) p = Inr (sq, p1)" using ref_producer by blast
  have "PostFirstSend ref_os (\<lambda>_. 0) (p\<lparr>session := (session p)\<lparr>m_Timing := m_Timing (session p)\<rparr>\<rparr>)
      = Inr (sq, p1)" using post by simp
  note r = ref_post [OF p this]
  obtain p2 l2 where a: "resend ref_os 0 \<lparr>SendContext = 0, sr_now = 0\<rparr>
      (p1, \<lparr>sequenceNumber = sq, groupCounter = 0\<rparr>) = Inr (p2, l2)"
    using refos.resend_up [OF r(1), of "\<lparr>SendContext = 0, sr_now = 0\<rparr>" 0
        "\<lparr>sequenceNumber = sq, groupCounter = 0\<rparr>"] by auto
  have "2 \<le> length (McastAddrStr ref_producer_args)" by (simp add: ref_producer_ok)
  from resend_overwrites_shared_buffer [OF p ref_producer_ok(1) post this a] p post a
  show ?thesis
    unfolding ref_producer_ok(3)
    by (intro exI [of _ p] exI [of _ p1] exI [of _ sq] exI [of _ p2] exI [of _ l2]) simp
qed

end
