(* ===== verification/Header_Layout.thy ===== *)
theory Header_Layout
  imports Rio_Session
begin

text \<open>
  The wire format: how the packed structure \<open>ProtocolHeader_t\<close> lies in the payload of a
  packet. Both sides access it through a pointer into the registered buffer
  (\<open>reinterpret_cast<ProtocolHeader_t*>\<close>), on a little-endian target without padding
  (\<open>#pragma pack(push, 1)\<close>). The theories of the sender and the receiver keep the buffers as
  what a header read at each offset gives; \<open>Wire_Memory\<close> justifies this for the sender.
\<close>

section \<open>Little-endian integers\<close>

definition le_bytes :: "'a::len word \<Rightarrow> u8 list" where
  "le_bytes w = map (\<lambda>i. ucast (drop_bit (8 * i) w)) [0..<LENGTH('a) div 8]"

primrec le_word :: "u8 list \<Rightarrow> 'a::len word" where
  "le_word [] = 0"
| "le_word (b # bs) = or (ucast b) (push_bit 8 (le_word bs))"

section \<open>The structure\<close>

definition sizeof_ProtocolHeader :: nat where "sizeof_ProtocolHeader = 20"

definition header_bytes :: "ProtocolHeader_t \<Rightarrow> u8 list" where
  "header_bytes h = le_bytes (Token h) @ [CmdType h] @ [Tag h] @ le_bytes (Seq h)
     @ le_bytes (Timestamp h)"

definition header_at :: "u8 list \<Rightarrow> ProtocolHeader_t" where
  "header_at bs = \<lparr>Token = le_word (take 2 bs), CmdType = bs ! 2, Tag = bs ! 3,
     Seq = le_word (take 8 (drop 4 bs)), Timestamp = le_word (take 8 (drop 12 bs))\<rparr>"

section \<open>Lemmas\<close>

lemma length_le_bytes [simp]: "length (le_bytes (w :: 'a::len word)) = LENGTH('a) div 8"
  by (simp add: le_bytes_def)

lemma bit_le_word:
  "bit (le_word bs :: 'a::len word) n \<longleftrightarrow>
     n < LENGTH('a) \<and> n div 8 < length bs \<and> bit (bs ! (n div 8)) (n mod 8)"
proof (induction bs arbitrary: n)
  case (Cons b bs)
  show ?case
  proof (cases "n < 8")
    case True
    then show ?thesis by (auto simp: bit_simps)
  next
    case False
    then obtain m where m: "n = m + 8" by (metis le_add_diff_inverse2 not_less)
    have "\<not> bit b (m + 8)" by (simp add: bit_simps bit_word.rep_eq)
    moreover have "(m + 8) div 8 = Suc (m div 8)" "(m + 8) mod 8 = m mod 8" by simp_all
    ultimately show ?thesis unfolding m by (simp only:) (auto simp: bit_simps Cons.IH)
  qed
qed simp

lemma le_word_bytes: "8 dvd LENGTH('a) \<Longrightarrow> le_word (le_bytes (w :: 'a::len word)) = w"
proof (rule bit_word_eqI)
  fix n
  assume "8 dvd LENGTH('a)" and n: "n < LENGTH('a)"
  then have i: "n div 8 < LENGTH('a) div 8"
    by (metis dvd_mult_div_cancel less_mult_imp_div_less mult.commute)
  then show "bit (le_word (le_bytes w) :: 'a word) n = bit w n"
    using n by (auto simp: bit_le_word le_bytes_def bit_simps)
qed

lemma length_header_bytes [simp]: "length (header_bytes h) = sizeof_ProtocolHeader"
  by (simp add: header_bytes_def sizeof_ProtocolHeader_def)

lemma header_at_bytes: "header_at (header_bytes h @ bs) = h"
proof -
  have t: "length (le_bytes (Token h)) = 2" and s: "length (le_bytes (Seq h)) = 8"
    and z: "length (le_bytes (Timestamp h)) = 8" by simp_all
  obtain a b where tb: "le_bytes (Token h) = [a, b]"
    using t by (metis (no_types, lifting) One_nat_def Suc_1 length_0_conv length_Suc_conv)
  have w: "le_word (le_bytes (Token h)) = Token h" "le_word (le_bytes (Seq h)) = Seq h"
    "le_word (le_bytes (Timestamp h)) = Timestamp h"
    by (rule le_word_bytes; simp)+
  show ?thesis
    using w s z by (simp add: header_at_def header_bytes_def tb)
qed

section \<open>The format on the wire\<close>

text \<open>
  C34: A header written into a payload is read back as it was, whatever follows it. The
  sequence number is the little-endian number in the bytes 4 to 11 of the payload, and the
  bytes from 20 on are not part of the header; so the bytes 32 to 39, where README.md says the
  sequence number is, never hold it.
\<close>

theorem header_roundtrip:
  assumes "payload = header_bytes h @ bs"
  shows "header_at payload = h \<and> take 8 (drop 4 payload) = le_bytes (Seq h)
    \<and> take 8 (drop 32 payload) = take 8 (drop 12 bs)"
proof -
  have "length (le_bytes (Token h)) = 2" by simp
  then obtain a b where tb: "le_bytes (Token h) = [a, b]"
    by (metis (no_types, lifting) One_nat_def Suc_1 length_0_conv length_Suc_conv)
  have "take 8 (drop 32 payload) = take 8 (drop 12 bs)"
    by (simp add: assms sizeof_ProtocolHeader_def)
  moreover have "take 8 (drop 4 payload) = le_bytes (Seq h)"
    by (simp add: assms header_bytes_def tb)
  ultimately show ?thesis by (simp add: assms header_at_bytes)
qed

theorem header_roundtrip_witness:
  "header_at ([0xEA, 1, 0, 0, 7, 1, 0, 0, 0, 0, 0, 0, 9, 0, 0, 0, 0, 0, 0, 0] @ replicate 80 0) =
     \<lparr>Token = 490, CmdType = 0, Tag = 0, Seq = 263, Timestamp = 9\<rparr>"
proof -
  let ?h = "\<lparr>Token = 490, CmdType = 0, Tag = 0, Seq = 263, Timestamp = 9\<rparr> :: ProtocolHeader_t"
  have "header_bytes ?h = [0xEA, 1, 0, 0, 7, 1, 0, 0, 0, 0, 0, 0, 9, 0, 0, 0, 0, 0, 0, 0]"
    by (simp add: header_bytes_def le_bytes_def upt_rec)
  with header_roundtrip [OF refl, of ?h "replicate 80 0"] show ?thesis by simp
qed

section \<open>The buffer as memory\<close>

text \<open>A write of some bytes at an offset of a buffer.\<close>

definition write_at :: "(nat \<Rightarrow> u8) \<Rightarrow> nat \<Rightarrow> u8 list \<Rightarrow> nat \<Rightarrow> u8" where
  "write_at m a bs = (\<lambda>x. if a \<le> x \<and> x < a + length bs then bs ! (x - a) else m x)"

lemma map_write_at_other:
  "c \<le> a \<or> a + length bs \<le> b \<Longrightarrow> map (write_at m a bs) [b..<c] = map m [b..<c]"
  by (auto simp: write_at_def)

end
