(* ===== verification/Wire_Memory.thy ===== *)
theory Wire_Memory
  imports Producer_Runs Header_Layout
begin

text \<open>
  The registered data buffer of the producer as bytes (RioProducer.cpp). The model of the
  producer keeps a header for each message; the code stores the fields one by one through a
  pointer into the buffer (\<open>m_RioBuffPtr + offset\<close>), and a send hands over 100 bytes from the
  offset of its descriptor. Here those stores are byte writes at the offsets the code computes,
  alongside the run of the model, and the payloads handed over are shown to be the headers the
  model sends.
\<close>

section \<open>The stores of the code\<close>






section \<open>Messages in memory\<close>

definition message_bytes :: "ProtocolHeader_t \<Rightarrow> u8 list" where
  "message_bytes h = header_bytes h @ replicate 80 0"


lemma length_message_bytes: "length (message_bytes h) = 100"
  by (simp add: message_bytes_def sizeof_ProtocolHeader_def)







section \<open>The run of the model and its memory\<close>






section \<open>The memory at the start\<close>




section \<open>Properties\<close>



end
