(* ===== verification/Safe_Cstr.thy ===== *)
theory Safe_Cstr
  imports Prelude
begin

text \<open>
  The bounded C string functions of StringUtils.cpp with the error codes of StringUtils.hpp.
  Memory is a partial map from addresses to bytes: an address outside every object is not in
  its domain, and reading or writing there is undefined behaviour. Address 0 is the null
  pointer. The sizes (\<open>rsize_t\<close>) are natural numbers: the code only decrements positive
  sizes and increments counters below \<open>RSIZE_MAX_STR\<close>, so no 64-bit operation wraps; pointers
  stay inside an object or one past its end.
\<close>

section \<open>Memory\<close>

type_synonym mem = "nat \<rightharpoonup> u8"

definition load :: "mem \<Rightarrow> nat \<Rightarrow> u8 result" where
  "load m a = (case m a of None \<Rightarrow> Inl (Undefined ''read outside an object'') | Some c \<Rightarrow> Inr c)"

definition store :: "mem \<Rightarrow> nat \<Rightarrow> u8 \<Rightarrow> mem result" where
  "store m a c =
     (case m a of None \<Rightarrow> Inl (Undefined ''write outside an object'') | Some _ \<Rightarrow> Inr (m(a \<mapsto> c)))"

definition NULL :: nat where "NULL = 0"

section \<open>Error codes\<close>

definition RSIZE_MAX_STR :: nat where "RSIZE_MAX_STR = 4096"
definition ESNULLP :: int where "ESNULLP = 400"
definition ESZEROL :: int where "ESZEROL = 401"
definition ESLEMAX :: int where "ESLEMAX = 403"
definition ESOVRLP :: int where "ESOVRLP = 404"
definition ESNOSPC :: int where "ESNOSPC = 406"
definition EOK :: int where "EOK = 0"

definition RCNEGATE :: "int \<Rightarrow> int" where "RCNEGATE x = - x"

lemmas error_codes = ESNULLP_def ESZEROL_def ESLEMAX_def ESOVRLP_def ESNOSPC_def EOK_def
  RCNEGATE_def

section \<open>strncpy_s\<close>

primrec handle_error :: "nat \<Rightarrow> nat \<Rightarrow> mem \<Rightarrow> mem result" where
  "handle_error orig_dest 0 m = Inr m"
| "handle_error orig_dest (Suc orig_dmax) m =
     bind_res (store m orig_dest 0) (handle_error (orig_dest + 1) orig_dmax)"

text \<open>A failure: the destination is filled with zeros and the code is returned negated.\<close>

definition fail_with :: "int \<Rightarrow> nat \<Rightarrow> nat \<Rightarrow> mem \<Rightarrow> (int \<times> mem) result" where
  "fail_with e orig_dest orig_dmax m =
     bind_res (handle_error orig_dest orig_dmax m) (\<lambda>m. Inr (RCNEGATE e, m))"

text \<open>
  The two copying loops: for a destination below the source the destination must not reach
  the source, otherwise the source must not reach the destination.
\<close>

fun copy_upwards :: "nat \<Rightarrow> nat \<Rightarrow> nat \<Rightarrow> nat \<Rightarrow> nat \<Rightarrow> nat \<Rightarrow> nat \<Rightarrow> mem \<Rightarrow> (int \<times> mem) result" where
  "copy_upwards overlap_bumper orig_dest orig_dmax dest 0 src slen m =
     fail_with ESNOSPC orig_dest orig_dmax m"
| "copy_upwards overlap_bumper orig_dest orig_dmax dest (Suc dmax) src slen m =
     (if dest = overlap_bumper then fail_with ESOVRLP orig_dest orig_dmax m
      else if slen = 0 then bind_res (store m dest 0) (\<lambda>m. Inr (RCNEGATE EOK, m))
      else bind_res (load m src) (\<lambda>c. bind_res (store m dest c) (\<lambda>m.
        if c = 0 then Inr (RCNEGATE EOK, m)
        else copy_upwards overlap_bumper orig_dest orig_dmax (dest + 1) dmax (src + 1)
               (slen - 1) m)))"

fun copy_downwards :: "nat \<Rightarrow> nat \<Rightarrow> nat \<Rightarrow> nat \<Rightarrow> nat \<Rightarrow> nat \<Rightarrow> nat \<Rightarrow> mem \<Rightarrow> (int \<times> mem) result" where
  "copy_downwards overlap_bumper orig_dest orig_dmax dest 0 src slen m =
     fail_with ESNOSPC orig_dest orig_dmax m"
| "copy_downwards overlap_bumper orig_dest orig_dmax dest (Suc dmax) src slen m =
     (if src = overlap_bumper then fail_with ESOVRLP orig_dest orig_dmax m
      else if slen = 0 then bind_res (store m dest 0) (\<lambda>m. Inr (RCNEGATE EOK, m))
      else bind_res (load m src) (\<lambda>c. bind_res (store m dest c) (\<lambda>m.
        if c = 0 then Inr (RCNEGATE EOK, m)
        else copy_downwards overlap_bumper orig_dest orig_dmax (dest + 1) dmax (src + 1)
               (slen - 1) m)))"

definition strncpy_s :: "nat \<Rightarrow> nat \<Rightarrow> nat \<Rightarrow> nat \<Rightarrow> mem \<Rightarrow> (int \<times> mem) result" where
  "strncpy_s dest dmax src slen m =
     (if dest = NULL then Inr (RCNEGATE ESNULLP, m)
      else if dmax = 0 then Inr (RCNEGATE ESZEROL, m)
      else if dmax > RSIZE_MAX_STR then Inr (RCNEGATE ESLEMAX, m)
      else if src = NULL then fail_with ESNULLP dest dmax m
      else if slen = 0 then fail_with ESZEROL dest dmax m
      else if slen > RSIZE_MAX_STR then fail_with ESLEMAX dest dmax m
      else if dest < src then copy_upwards src dest dmax dest dmax src slen m
      else copy_downwards dest dest dmax dest dmax src slen m)"

section \<open>strnlen_s\<close>

text \<open>The condition \<open>*dest && dmax\<close> reads the byte before it looks at the size.\<close>

fun strnlen_loop :: "nat \<Rightarrow> nat \<Rightarrow> nat \<Rightarrow> mem \<Rightarrow> nat result" where
  "strnlen_loop dest 0 count m = bind_res (load m dest) (\<lambda>c. Inr count)"
| "strnlen_loop dest (Suc dmax) count m =
     bind_res (load m dest) (\<lambda>c.
       if c \<noteq> 0 then strnlen_loop (dest + 1) dmax (count + 1) m else Inr count)"

definition strnlen_s :: "nat \<Rightarrow> nat \<Rightarrow> mem \<Rightarrow> nat result" where
  "strnlen_s dest dmax m =
     (if dest = NULL then Inr 0 else if dmax = 0 then Inr 0
      else if dmax > RSIZE_MAX_STR then Inr 0
      else strnlen_loop dest dmax 0 m)"

section \<open>strnterminate_s\<close>

text \<open>The loop runs while more than one byte is left; the recursion counts the bytes before the last.\<close>

primrec strnterminate_loop :: "nat \<Rightarrow> nat \<Rightarrow> nat \<Rightarrow> mem \<Rightarrow> (nat \<times> mem) result" where
  "strnterminate_loop 0 dest count m = bind_res (store m dest 0) (\<lambda>m. Inr (count, m))"
| "strnterminate_loop (Suc n) dest count m =
     bind_res (load m dest) (\<lambda>c.
       if c \<noteq> 0 then strnterminate_loop n (dest + 1) (count + 1) m
       else bind_res (store m dest 0) (\<lambda>m. Inr (count, m)))"

definition strnterminate_s :: "nat \<Rightarrow> nat \<Rightarrow> mem \<Rightarrow> (nat \<times> mem) result" where
  "strnterminate_s dest dmax m =
     (if dest = NULL then Inr (0, m) else if dmax = 0 then Inr (0, m)
      else if dmax > RSIZE_MAX_STR then Inr (0, m)
      else strnterminate_loop (dmax - 1) dest 0 m)"

section \<open>Bytes in memory\<close>

definition write_bytes :: "mem \<Rightarrow> nat \<Rightarrow> u8 list \<Rightarrow> mem" where
  "write_bytes m a bs = (\<lambda>x. if a \<le> x \<and> x < a + length bs then Some (bs ! (x - a)) else m x)"

definition object :: "mem \<Rightarrow> nat \<Rightarrow> nat \<Rightarrow> bool" where
  "object m a n \<longleftrightarrow> (\<forall>x. a \<le> x \<and> x < a + n \<longrightarrow> m x \<noteq> None)"

fun bytes_at :: "mem \<Rightarrow> nat \<Rightarrow> u8 list \<Rightarrow> bool" where
  "bytes_at m a [] \<longleftrightarrow> True"
| "bytes_at m a (b # bs) \<longleftrightarrow> m a = Some b \<and> bytes_at m (a + 1) bs"

definition zeros :: "nat \<Rightarrow> u8 list" where
  "zeros n = replicate n 0"

lemma length_zeros [simp]: "length (zeros n) = n"
  by (simp add: zeros_def)

lemma write_bytes_Nil [simp]: "write_bytes m a [] = m"
  by (rule ext) (auto simp: write_bytes_def)

lemma write_bytes_Cons: "write_bytes (m(a \<mapsto> b)) (a + 1) bs = write_bytes m a (b # bs)"
  by (rule ext) (auto simp: write_bytes_def nth_Cons' Suc_diff_Suc not_le less_Suc_eq_le le_eq_less_or_eq)

lemma write_over:
  "a \<le> x \<Longrightarrow> x < a + length bs \<Longrightarrow> write_bytes (m(x \<mapsto> c)) a bs = write_bytes m a bs"
  by (rule ext) (simp add: write_bytes_def)

lemma object_upd [simp]: "object m a n \<Longrightarrow> object (m(x \<mapsto> c)) a n"
  by (simp add: object_def)

lemma bytes_at_upd: "bytes_at m a bs \<Longrightarrow> x < a \<or> a + length bs \<le> x \<Longrightarrow> bytes_at (m(x \<mapsto> c)) a bs"
  by (induction bs arbitrary: a) auto

lemma store_in: "object m a n \<Longrightarrow> a \<le> x \<Longrightarrow> x < a + n \<Longrightarrow> store m x c = Inr (m(x \<mapsto> c))"
  by (auto simp: object_def store_def split: option.split)

lemma load_Some [simp]: "m a = Some c \<Longrightarrow> load m a = Inr c"
  by (simp add: load_def)

lemma handle_error_zeros:
  "object m a n \<Longrightarrow> handle_error a n m = Inr (write_bytes m a (zeros n))"
proof (induction n arbitrary: a m)
  case (Suc n)
  from Suc.prems have "object (m(a \<mapsto> 0)) (a + 1) n" by (simp add: object_def)
  with Suc.IH have "handle_error (a + 1) n (m(a \<mapsto> 0)) = Inr (write_bytes (m(a \<mapsto> 0)) (a + 1) (zeros n))" .
  then have "handle_error a (Suc n) m = Inr (write_bytes (m(a \<mapsto> 0)) (a + 1) (zeros n))"
    using Suc.prems by (simp add: store_in [of m a "Suc n"])
  then show ?case by (simp only: write_bytes_Cons) (simp add: zeros_def)
qed (simp add: zeros_def)

lemma fail_with_zeros:
  "object m a n \<Longrightarrow> fail_with e a n m = Inr (- e, write_bytes m a (zeros n))"
  by (simp add: fail_with_def handle_error_zeros RCNEGATE_def)

section \<open>The two copying loops as one\<close>

text \<open>
  Both loops stop at a fixed distance from the start, the gap between the two arguments. A
  loop that counts this gap down stands for both.
\<close>

fun copy_gap :: "nat \<Rightarrow> nat \<Rightarrow> nat \<Rightarrow> nat \<Rightarrow> nat \<Rightarrow> nat \<Rightarrow> nat \<Rightarrow> mem \<Rightarrow> (int \<times> mem) result" where
  "copy_gap gap od om dest 0 src slen m = fail_with ESNOSPC od om m"
| "copy_gap gap od om dest (Suc dmax) src slen m =
     (if gap = 0 then fail_with ESOVRLP od om m
      else if slen = 0 then bind_res (store m dest 0) (\<lambda>m. Inr (RCNEGATE EOK, m))
      else bind_res (load m src) (\<lambda>c. bind_res (store m dest c) (\<lambda>m.
        if c = 0 then Inr (RCNEGATE EOK, m)
        else copy_gap (gap - 1) od om (dest + 1) dmax (src + 1) (slen - 1) m)))"

lemma copy_upwards_gap:
  "dest \<le> b \<Longrightarrow> copy_upwards b od om dest dmax src slen m
    = copy_gap (b - dest) od om dest dmax src slen m"
  by (induction b od om dest dmax src slen m rule: copy_upwards.induct)
     (auto simp: bind_res_def split: sum.split)

lemma copy_downwards_gap:
  "src \<le> b \<Longrightarrow> copy_downwards b od om dest dmax src slen m
    = copy_gap (b - src) od om dest dmax src slen m"
  by (induction b od om dest dmax src slen m rule: copy_downwards.induct)
     (auto simp: bind_res_def split: sum.split)

definition strncpy_spec :: "nat \<Rightarrow> nat \<Rightarrow> nat \<Rightarrow> u8 list \<Rightarrow> mem \<Rightarrow> int \<times> mem" where
  "strncpy_spec dest dmax gap str m =
     (if gap \<le> length str \<and> gap < dmax then (- ESOVRLP, write_bytes m dest (zeros dmax))
      else if length str < dmax then (EOK, write_bytes m dest (str @ [0]))
      else (- ESNOSPC, write_bytes m dest (zeros dmax)))"

lemma copy_gap_result:
  assumes "object m od om" and "od \<le> dest" and "dest + dmax = od + om"
    and "bytes_at m src (take gap str)" and "0 \<notin> set str" and "length str \<le> slen"
    and "length str < slen \<Longrightarrow> length str < gap \<Longrightarrow> m (src + length str) = Some 0"
    and "dest < src \<or> src + gap \<le> dest"
  shows "copy_gap gap od om dest dmax src slen m =
    Inr (if gap \<le> length str \<and> gap < dmax then (- ESOVRLP, write_bytes m od (zeros om))
      else if length str < dmax then (EOK, write_bytes m dest (str @ [0]))
      else (- ESNOSPC, write_bytes m od (zeros om)))"
  using assms
proof (induction dmax arbitrary: gap dest src slen str m)
  case 0
  then show ?case by (simp add: fail_with_zeros)
next
  case (Suc dmax)
  have st: "store m dest c = Inr (m(dest \<mapsto> c))" for c
    using Suc.prems(1-3) by (simp add: store_in [of m od om])
  have w1: "m(dest \<mapsto> c) = write_bytes m dest [c]" for c
    using write_bytes_Cons [of m dest c "[]"] by simp
  show ?case
  proof (cases "gap = 0")
    case True
    then show ?thesis using Suc.prems(1) by (simp add: fail_with_zeros)
  next
    case gap: False
    show ?thesis
    proof (cases str)
      case Nil
      with gap Suc.prems(7) show ?thesis by (simp add: st w1 RCNEGATE_def EOK_def)
    next
      case (Cons c cs)
      let ?m = "m(dest \<mapsto> c)"
      from Cons gap Suc.prems have src: "m src = Some c" "c \<noteq> 0" "slen \<noteq> 0"
        by (auto simp: take_Cons')
      have b: "bytes_at m (src + 1) (take (gap - 1) cs)"
        using Suc.prems(4) gap by (simp add: Cons take_Cons')
      have far: "dest < src \<or> src + gap \<le> dest" by (rule Suc.prems(8))
      have "dest < src + 1 \<or> src + 1 + length (take (gap - 1) cs) \<le> dest"
        using far gap by (simp add: min_def) linarith
      with b have b': "bytes_at ?m (src + 1) (take (gap - 1) cs)"
        by (rule bytes_at_upd)
      have t': "?m (src + 1 + length cs) = Some 0"
        if "length cs < slen - 1" "length cs < gap - 1"
      proof -
        have "dest \<noteq> src + 1 + length cs" using far that by linarith
        with that Suc.prems(7) show ?thesis by (simp add: Cons less_diff_conv)
      qed
      have IH: "copy_gap (gap - 1) od om (dest + 1) dmax (src + 1) (slen - 1) ?m =
        Inr (if gap - 1 \<le> length cs \<and> gap - 1 < dmax then (- ESOVRLP, write_bytes ?m od (zeros om))
          else if length cs < dmax then (EOK, write_bytes ?m (dest + 1) (cs @ [0]))
          else (- ESNOSPC, write_bytes ?m od (zeros om)))"
        using Suc.prems far gap
        by (intro Suc.IH b' t' object_upd [OF Suc.prems(1)]) (auto simp: Cons)
      have over: "write_bytes ?m od (zeros om) = write_bytes m od (zeros om)"
        using Suc.prems(2,3) by (intro write_over) simp_all
      have next': "write_bytes ?m (dest + 1) (cs @ [0]) = write_bytes m dest (str @ [0])"
        by (simp only: write_bytes_Cons) (simp add: Cons)
      have step: "copy_gap gap od om dest (Suc dmax) src slen m =
          copy_gap (gap - 1) od om (dest + 1) dmax (src + 1) (slen - 1) ?m"
        using gap src by (simp add: st)
      have "gap - 1 \<le> length cs \<and> gap - 1 < dmax \<longleftrightarrow> gap \<le> length str \<and> gap < Suc dmax"
        using gap by (auto simp: Cons)
      then show ?thesis
        unfolding step IH over next' by (simp add: Cons)
    qed
  qed
qed

section \<open>Properties\<close>

lemma bytes_at_take: "bytes_at m a bs \<Longrightarrow> bytes_at m a (take n bs)"
  by (induction bs arbitrary: a n) (auto simp: take_Cons')

lemma bytes_at_append:
  "bytes_at m a (xs @ ys) \<longleftrightarrow> bytes_at m a xs \<and> bytes_at m (a + length xs) ys"
  by (induction xs arbitrary: a) auto

lemma strncpy_s_valid:
  assumes "dest \<noteq> NULL" and "0 < dmax" and "dmax \<le> RSIZE_MAX_STR" and "src \<noteq> NULL"
    and "0 < slen" and "slen \<le> RSIZE_MAX_STR" and "object m dest dmax"
    and "bytes_at m src str" and "0 \<notin> set str" and "length str \<le> slen"
    and "length str < slen \<Longrightarrow> m (src + length str) = Some 0"
  shows "strncpy_s dest dmax src slen m =
    Inr (strncpy_spec dest dmax (if dest < src then src - dest else dest - src) str m)"
proof -
  let ?gap = "if dest < src then src - dest else dest - src"
  have "strncpy_s dest dmax src slen m = copy_gap ?gap dest dmax dest dmax src slen m"
    using assms(1-6) by (simp add: strncpy_s_def copy_upwards_gap copy_downwards_gap)
  also have "\<dots> = Inr (strncpy_spec dest dmax ?gap str m)"
    unfolding strncpy_spec_def
    by (rule copy_gap_result) (use assms in \<open>auto intro: bytes_at_take\<close>)
  finally show ?thesis .
qed

text \<open>
  C17: What \<open>strncpy_s\<close> does with valid arguments. With a destination of \<open>dmax\<close> bytes and a
  source whose text (up to its terminator or to \<open>slen\<close> characters) is \<open>str\<close>, the result is
  \<open>EOK\<close> and the text with a terminator exactly when both fit into the destination and the
  copy does not run into the other argument; it is \<open>ESOVRLP\<close> when it would, and \<open>ESNOSPC\<close>
  when the text does not fit, and in both cases the whole destination is zero (also where it
  overlaps the source).
\<close>

theorem strncpy_s_correct:
  assumes "dest \<noteq> NULL" and "0 < dmax" and "dmax \<le> RSIZE_MAX_STR" and "src \<noteq> NULL"
    and "0 < slen" and "slen \<le> RSIZE_MAX_STR" and "object m dest dmax"
    and "bytes_at m src str" and "0 \<notin> set str" and "length str \<le> slen"
    and "length str < slen \<longrightarrow> m (src + length str) = Some 0"
  shows "strncpy_s dest dmax src slen m =
    (let gap = (if dest < src then src - dest else dest - src) in
     if gap \<le> length str \<and> gap < dmax then Inr (- ESOVRLP, write_bytes m dest (zeros dmax))
     else if length str < dmax then Inr (EOK, write_bytes m dest (str @ [0]))
     else Inr (- ESNOSPC, write_bytes m dest (zeros dmax)))"
  using strncpy_s_valid [OF assms(1-10)] assms(11) by (simp add: strncpy_spec_def Let_def)

definition ref_mem :: mem where
  "ref_mem = write_bytes (write_bytes (\<lambda>_. None) 100 [1, 2, 3, 4, 5, 6, 7, 8]) 200 [65, 66, 67, 0, 7, 7, 7, 7]"

theorem strncpy_s_correct_witness:
  "strncpy_s 100 4 200 9 ref_mem = Inr (EOK, write_bytes ref_mem 100 [65, 66, 67, 0])
   \<and> strncpy_s 100 3 200 9 ref_mem = Inr (- ESNOSPC, write_bytes ref_mem 100 (zeros 3))
   \<and> strncpy_s 202 2 200 9 ref_mem = Inr (- ESNOSPC, write_bytes ref_mem 202 (zeros 2))
   \<and> strncpy_s 202 4 200 9 ref_mem = Inr (- ESOVRLP, write_bytes ref_mem 202 (zeros 4))"
proof -
  have o: "object ref_mem 100 8" "object ref_mem 200 8"
    by (auto simp: object_def ref_mem_def write_bytes_def)
  have sub: "object ref_mem a n" if "object ref_mem b 8" "b \<le> a" "a + n \<le> b + 8" for a b n
    using that by (auto simp: object_def)
  have s: "ref_mem 200 = Some 65" "ref_mem 201 = Some 66" "ref_mem 202 = Some 67" "ref_mem 203 = Some 0"
    by (simp_all add: ref_mem_def write_bytes_def)
  note ref = NULL_def RSIZE_MAX_STR_def s
  show ?thesis
    using strncpy_s_correct [of 100 4 200 9 ref_mem "[65, 66, 67]"] sub [OF o(1), of 100 4]
      strncpy_s_correct [of 100 3 200 9 ref_mem "[65, 66, 67]"] sub [OF o(1), of 100 3]
      strncpy_s_correct [of 202 2 200 9 ref_mem "[65, 66, 67]"] sub [OF o(2), of 202 2]
      strncpy_s_correct [of 202 4 200 9 ref_mem "[65, 66, 67]"] sub [OF o(2), of 202 4]
    by (simp add: ref)
qed

text \<open>
  C18: \<open>strncpy_s\<close> is memory safe and always leaves a terminated string. For any sizes within
  the limit and any readable source (or none), a destination of \<open>dmax\<close> bytes is enough: the
  call is defined, no byte outside the destination changes, the destination holds a
  terminator, and after an error it is all zero.
\<close>

theorem strncpy_s_safe:
  assumes "dest \<noteq> NULL" and "0 < dmax" and "dmax \<le> RSIZE_MAX_STR" and "object m dest dmax"
    and "src = NULL \<or> bytes_at m src (str @ (if length str < slen then [0] else []))"
    and "0 \<notin> set str" and "length str \<le> slen"
  shows "\<exists>r m'. strncpy_s dest dmax src slen m = Inr (r, m')
    \<and> (\<forall>x. x < dest \<or> dest + dmax \<le> x \<longrightarrow> m' x = m x)
    \<and> (\<exists>n<dmax. m' (dest + n) = Some 0)
    \<and> (r \<noteq> EOK \<longrightarrow> (\<forall>n<dmax. m' (dest + n) = Some 0))"
proof -
  let ?z = "write_bytes m dest (zeros dmax)"
  have z: "(\<forall>x. x < dest \<or> dest + dmax \<le> x \<longrightarrow> ?z x = m x) \<and> (\<forall>n<dmax. ?z (dest + n) = Some 0)"
    by (auto simp: write_bytes_def zeros_def)
  show ?thesis
  proof (cases "src = NULL \<or> slen = 0 \<or> slen > RSIZE_MAX_STR")
    case True
    then have "strncpy_s dest dmax src slen m = Inr (if src = NULL then - ESNULLP
        else if slen = 0 then - ESZEROL else - ESLEMAX, ?z)"
      using assms(1-4) by (auto simp: strncpy_s_def fail_with_zeros)
    with z assms(2) show ?thesis by auto
  next
    case False
    have app: "bytes_at m src str" "length str < slen \<longrightarrow> m (src + length str) = Some 0"
      using assms(5) False bytes_at_append by auto
    show ?thesis
      using strncpy_s_valid [OF assms(1-3) _ _ _ assms(4) app(1) assms(6,7)] app(2) False z assms(2)
      by (auto simp: strncpy_spec_def write_bytes_def nth_append)
  qed
qed

theorem strncpy_s_safe_witness:
  "\<exists>r m'. strncpy_s 202 4 200 9 ref_mem = Inr (r, m') \<and> m' 200 = Some 65
    \<and> (\<exists>n<4. m' (202 + n) = Some 0)"
proof -
  have "object ref_mem 202 4"
    by (auto simp: object_def ref_mem_def write_bytes_def)
  moreover have "bytes_at ref_mem 200 ([65, 66, 67] @ [0])" and "ref_mem 200 = Some 65"
    by (simp_all add: ref_mem_def write_bytes_def)
  ultimately obtain r m' where "strncpy_s 202 4 200 9 ref_mem = Inr (r, m')"
    and "\<forall>x. x < 202 \<or> 202 + 4 \<le> x \<longrightarrow> m' x = ref_mem x" and "\<exists>n<4. m' (202 + n) = Some 0"
    using strncpy_s_safe [of 202 4 ref_mem 200 "[65, 66, 67]" 9]
    by (simp add: NULL_def RSIZE_MAX_STR_def) blast
  with \<open>ref_mem 200 = Some 65\<close> show ?thesis by force
qed

lemma strnlen_loop_result:
  assumes "bytes_at m dest str" and "0 \<notin> set str"
    and "length str < dmax \<Longrightarrow> m (dest + length str) = Some 0"
    and "dmax \<le> length str \<Longrightarrow> m (dest + dmax) \<noteq> None"
  shows "strnlen_loop dest dmax count m = Inr (count + min (length str) dmax)"
  using assms
proof (induction str arbitrary: dest dmax count)
  case Nil
  then show ?case by (cases dmax) (auto simp: load_def)
next
  case (Cons c cs)
  show ?case
  proof (cases dmax)
    case 0
    with Cons.prems show ?thesis by simp
  next
    case (Suc n)
    have "strnlen_loop (dest + 1) n (count + 1) m = Inr (count + 1 + min (length cs) n)"
      using Cons.prems by (intro Cons.IH) (auto simp: Suc)
    with Cons.prems show ?thesis by (simp add: Suc)
  qed
qed

lemma strnlen_loop_overrun:
  assumes "bytes_at m dest str" and "0 \<notin> set str" and "m (dest + length str) = None"
  shows "strnlen_loop dest (length str) count m = Inl (Undefined ''read outside an object'')"
  using assms by (induction str arbitrary: dest count) (auto simp: load_def)

lemma strnlen_s_valid_length:
  assumes "dest \<noteq> NULL" and "0 < dmax" and "dmax \<le> RSIZE_MAX_STR" and "bytes_at m dest str"
    and "0 \<notin> set str" and "length str < dmax" and "m (dest + length str) = Some 0"
  shows "strnlen_s dest dmax m = Inr (length str)"
  using strnlen_loop_result [OF assms(4,5), of dmax 0] assms by (simp add: strnlen_s_def)

text \<open>
  \<open>strnlen_s\<close> needs one byte more than it is told of. With a terminator within the size it
  returns the length of the text; without one it returns the size, but only if the byte after
  the last one is readable: for a buffer of exactly \<open>dmax\<close> bytes without a terminator it reads
  past the end, although its description promises that at most \<open>dmax\<close> characters are accessed.
\<close>

theorem strnlen_s_behaviour:
  assumes "dest \<noteq> NULL" and "0 < dmax" and "dmax \<le> RSIZE_MAX_STR"
    and "bytes_at m dest str" and "0 \<notin> set str"
  shows "(length str < dmax \<and> m (dest + length str) = Some 0 \<longrightarrow>
      strnlen_s dest dmax m = Inr (length str))
    \<and> (length str = dmax \<and> m (dest + dmax) \<noteq> None \<longrightarrow> strnlen_s dest dmax m = Inr dmax)
    \<and> (length str = dmax \<and> m (dest + dmax) = None \<longrightarrow>
      strnlen_s dest dmax m = Inl (Undefined ''read outside an object''))"
  using strnlen_loop_result [OF assms(4,5)] strnlen_loop_overrun [OF assms(4,5)] assms(1-3)
  by (auto simp: strnlen_s_def)

theorem strnlen_s_behaviour_witness:
  "strnlen_s 200 8 ref_mem = Inr 3
   \<and> strnlen_s 100 8 ref_mem = Inl (Undefined ''read outside an object'')"
  using strnlen_s_behaviour [of 200 8 ref_mem "[65, 66, 67]"]
    strnlen_s_behaviour [of 100 8 ref_mem "[1, 2, 3, 4, 5, 6, 7, 8]"]
  by (simp add: ref_mem_def write_bytes_def NULL_def RSIZE_MAX_STR_def)

lemma strnterminate_loop_result:
  assumes "bytes_at m dest str" and "0 \<notin> set str" and "m (dest + min (length str) n) \<noteq> None"
    and "length str < n \<Longrightarrow> m (dest + length str) = Some 0"
  shows "strnterminate_loop n dest count m =
    Inr (count + min (length str) n, m(dest + min (length str) n \<mapsto> 0))"
  using assms
proof (induction str arbitrary: dest n count)
  case Nil
  then show ?case by (cases n) (auto simp: load_def store_def fun_upd_def)
next
  case (Cons c cs)
  show ?case
  proof (cases n)
    case 0
    with Cons.prems show ?thesis by (simp add: store_def fun_upd_def)
  next
    case (Suc k)
    have "strnterminate_loop k (dest + 1) (count + 1) m =
        Inr (count + 1 + min (length cs) k, m(dest + 1 + min (length cs) k \<mapsto> 0))"
      using Cons.prems by (intro Cons.IH) (auto simp: Suc)
    with Cons.prems show ?thesis by (simp add: Suc fun_upd_def)
  qed
qed

lemma bytes_at_frame: "bytes_at m a bs \<Longrightarrow> x \<ge> a + n \<Longrightarrow> bytes_at (m(x \<mapsto> c)) a (take n bs)"
  by (rule bytes_at_upd) (auto intro: bytes_at_take)

text \<open>
  \<open>strnterminate_s\<close> makes a terminated string. A buffer whose text (the bytes before the
  first zero, or all \<open>dmax\<close> bytes) is \<open>str\<close> keeps the text, cut to \<open>dmax - 1\<close> bytes, with a
  terminator behind it; the returned length is what \<open>strnlen_s\<close> then finds, without a read
  past the end, and only the byte of the terminator is written.
\<close>

theorem strnterminate_s_terminates:
  assumes "dest \<noteq> NULL" and "0 < dmax" and "dmax \<le> RSIZE_MAX_STR"
    and "bytes_at m dest str" and "0 \<notin> set str" and "length str \<le> dmax"
    and "length str < dmax \<longrightarrow> m (dest + length str) = Some 0"
  shows "\<exists>n m'. strnterminate_s dest dmax m = Inr (n, m') \<and> n = min (length str) (dmax - 1)
    \<and> m' = m(dest + n \<mapsto> 0) \<and> bytes_at m' dest (take n str @ [0])
    \<and> strnlen_s dest dmax m' = Inr n"
proof -
  let ?n = "min (length str) (dmax - 1)"
  let ?m = "m(dest + ?n \<mapsto> 0)"
  have some: "m (dest + ?n) \<noteq> None"
  proof (cases "length str < dmax")
    case True
    then have "min (length str) (dmax - 1) = length str" by simp
    with True assms(7) show ?thesis by simp
  next
    case False
    with assms(6) have len: "length str = dmax" by simp
    obtain xs x where str: "str = xs @ [x]" using len assms(2) by (metis gr_implies_not_zero length_0_conv rev_exhaust)
    with assms(4) len show ?thesis by (auto simp: bytes_at_append min_def)
  qed
  have "strnterminate_loop (dmax - 1) dest 0 m = Inr (0 + ?n, ?m)"
    using assms(4,5) some by (rule strnterminate_loop_result) (use assms(7) in auto)
  then have ret: "strnterminate_s dest dmax m = Inr (?n, ?m)"
    using assms(1-3) by (simp add: strnterminate_s_def)
  have t: "bytes_at ?m dest (take ?n str)"
    using assms(4) by (rule bytes_at_frame) simp
  then have b: "bytes_at ?m dest (take ?n str @ [0])"
    by (simp add: bytes_at_append)
  have "strnlen_s dest dmax ?m = Inr (length (take ?n str))"
  proof (rule strnlen_s_valid_length [OF assms(1-3) t])
    show "0 \<notin> set (take ?n str)" using assms(5) by (auto dest: in_set_takeD)
  qed (use assms(2) in auto)
  then have "strnlen_s dest dmax ?m = Inr ?n" by simp
  with ret b show ?thesis by blast
qed

theorem strnterminate_s_terminates_witness:
  "\<exists>m'. strnterminate_s 100 8 ref_mem = Inr (7, m') \<and> strnlen_s 100 8 m' = Inr 7"
  using strnterminate_s_terminates [of 100 8 ref_mem "[1, 2, 3, 4, 5, 6, 7, 8]"]
  by (simp add: ref_mem_def write_bytes_def NULL_def RSIZE_MAX_STR_def)

end
