(* ===== verification/Text_Format.thy ===== *)
theory Text_Format
  imports Cpp_Std Str_Utils
begin

text \<open>
  The formatting helpers of StringUtils.hpp on integers: \<open>CommaSeparated\<close>, which inserts
  commas into a decimal number in place, \<open>Duration\<close>, which picks a unit for a time span, and
  the adapter that lets \<open>join\<close> be used as a string. \<open>Percent\<close> and \<open>FormatValueToSI\<close>, which format
  floating-point numbers, are in theory Report_Format.
\<close>

section \<open>CommaSeparated\<close>

text \<open>
  The array \<open>prettyInt\<close> has 64 elements; its initial content is the argument \<open>prettyInt\<close>. An
  access outside of it is undefined behaviour.
\<close>

abbreviation NUL :: char where "NUL \<equiv> CHR 0x00"

definition get :: "string \<Rightarrow> int \<Rightarrow> char result" where
  "get buf i = (if 0 \<le> i \<and> i < int (length buf) then Inr (buf ! nat i)
     else Inl (Undefined ''array index''))"

definition put :: "string \<Rightarrow> int \<Rightarrow> char \<Rightarrow> string result" where
  "put buf i c = (if 0 \<le> i \<and> i < int (length buf) then Inr (buf[nat i := c])
     else Inl (Undefined ''array index''))"

text \<open>\<open>prettyInt[nlen] = prettyInt[len]\<close>.\<close>

definition move :: "string \<Rightarrow> int \<Rightarrow> int \<Rightarrow> string result" where
  "move buf nlen len = bind_res (get buf len) (put buf nlen)"

definition snprintf_u64 :: "string \<Rightarrow> u64 \<Rightarrow> string" where
  "snprintf_u64 buf v =
     (let d = take (length buf - 1) (dec_of_nat (unat v))
      in d @ [NUL] @ drop (length d + 1) buf)"

fun length_loop :: "string \<Rightarrow> int \<Rightarrow> int result" where
  "length_loop [] len = Inl (Undefined ''array index'')"
| "length_loop (c # cs) len = (if c \<noteq> NUL then length_loop cs (len + 1) else Inr len)"

function comma_loop :: "int \<Rightarrow> int \<Rightarrow> int \<Rightarrow> string \<Rightarrow> string result" where
  "comma_loop len nlen n buf =
     (if len \<ge> 0 \<and> nlen \<ge> 0 \<and> nlen \<noteq> len then
        bind_res (move buf nlen len) (\<lambda>buf.
          let nlen = nlen - 1; len = len - 1
          in if nlen \<ge> 0 then
               (let n = n + 1
                in if n mod 3 = 0
                   then bind_res (put buf nlen CHR '','') (\<lambda>buf. comma_loop len (nlen - 1) n buf)
                   else comma_loop len nlen n buf)
             else comma_loop len nlen n buf)
      else Inr buf)"
  by pat_completeness auto
termination
  by (relation "measure (\<lambda>(len, _). nat (len + 1))") auto

declare comma_loop.simps [simp del]

definition CommaSeparated_new :: "u64 \<Rightarrow> string \<Rightarrow> string result" where
  "CommaSeparated_new value prettyInt =
     (let buf = snprintf_u64 prettyInt value
      in bind_res (length_loop buf 0) (\<lambda>len.
           let nlen = len + trunc_div (len - 1) 3
           in if len \<ge> 0 \<and> nlen \<ge> 0 \<and> nlen \<noteq> len
              then bind_res (move buf nlen len) (comma_loop (len - 1) (nlen - 1) 0)
              else Inr buf))"

definition CommaSeparated_str :: "string \<Rightarrow> string" where
  "CommaSeparated_str prettyInt = takeWhile (\<lambda>c. c \<noteq> NUL) prettyInt"

section \<open>Duration\<close>

text \<open>
  The count is a 64-bit signed number of nanoseconds; the negation of the least one is
  undefined. Division is by positive constants of a count that is not negative.
\<close>

datatype time_unit = ns | us | ms | sec

definition Duration_new :: "int \<Rightarrow> (int \<times> time_unit) result" where
  "Duration_new d =
     (let neg = d < 0
      in if d = - (2 ^ 63) then Inl (Undefined ''negation overflow'')
         else
           (let count = (if neg then - d else d);
                (count, unit) =
                  (if count > 100000000000 then (count div 1000000000, sec)
                   else if count > 100000000 then (count div 1000000, ms)
                   else if count > 100000 then (count div 1000, us)
                   else (count, ns))
            in Inr (if neg then - count else count, unit)))"

fun unit_text :: "time_unit \<Rightarrow> string" where
  "unit_text ns = ''ns''" | "unit_text us = ''us''" | "unit_text ms = ''ms''" | "unit_text sec = ''s''"

text \<open>\<open>operator<<\<close>.\<close>

definition Duration_put :: "int \<times> time_unit \<Rightarrow> string" where
  "Duration_put d = dec_of_int (fst d) @ '' '' @ unit_text (snd d)"

section \<open>Using join as a string\<close>

record joiner =
  items :: "string list"
  params :: join_params

definition joiner_put :: "string \<Rightarrow> joiner \<Rightarrow> string" where
  "joiner_put os j = join os (items j) (params j)"

definition joiner_str :: "joiner \<Rightarrow> string" where
  "joiner_str j = joiner_put [] j"

section \<open>The reference for commas\<close>

text \<open>From the last digit on: a comma after every third digit that is not the first one.\<close>

fun commas_rev :: "string \<Rightarrow> string" where
  "commas_rev (x # y # z # w # r) = x # y # z # CHR '','' # commas_rev (w # r)"
| "commas_rev xs = xs"

definition commas :: "string \<Rightarrow> string" where
  "commas ds = rev (commas_rev (rev ds))"

lemma commas_short: "length ds \<le> 3 \<Longrightarrow> commas ds = ds"
proof -
  assume "length ds \<le> 3"
  then have "length (rev ds) \<le> 3" by simp
  then have "commas_rev (rev ds) = rev ds"
    by (cases "rev ds" rule: commas_rev.cases) auto
  then show ?thesis by (simp add: commas_def)
qed

lemma commas_step: "ds \<noteq> [] \<Longrightarrow> commas (ds @ [x, y, z]) = commas ds @ [CHR '','', x, y, z]"
  by (cases "rev ds") (auto simp: commas_def)

lemma move_eq:
  "move (pre @ d # gap @ g # suf) (int (length pre) + 1 + int (length gap)) (int (length pre)) =
     Inr (pre @ d # gap @ d # suf)"
proof -
  have n: "nat (int (length pre) + 1 + int (length gap)) = length pre + Suc (length gap)" by simp
  show ?thesis
    by (simp add: move_def get_def put_def nth_append n list_update_append)
qed

lemma put_eq:
  "put (pre @ g # suf) (int (length pre)) c = Inr (pre @ c # suf)"
  by (simp add: put_def)

lemma comma_pass:
  assumes "length gap = Suc c"
  shows "comma_loop (int (length pre)) (int (length pre) + 1 + int c) n (pre @ d # gap @ suf) =
    (if (n + 1) mod 3 = 0
     then comma_loop (int (length pre) - 1) (int (length pre) - 1 + int c) (n + 1)
            (pre @ take c (d # gap) @ CHR '','' # d # suf)
     else comma_loop (int (length pre) - 1) (int (length pre) + int c) (n + 1)
            (pre @ take (Suc c) (d # gap) @ d # suf))"
proof -
  obtain gap0 g where gap: "gap = gap0 @ [g]" and g0: "length gap0 = c"
    using assms by (cases gap rule: rev_cases) auto
  have mv: "move (pre @ d # gap0 @ g # suf) (int (length pre) + 1 + int c) (int (length pre)) =
      Inr (pre @ d # gap0 @ d # suf)"
    using move_eq [of pre d gap0 g suf] by (simp add: g0)
  have t: "take c (d # gap0 @ [g]) = take c (d # gap0)"
    using g0 by (cases c) simp_all
  have "put (pre @ d # gap0 @ d # suf) (int (length pre) + int c) CHR '','' =
      Inr (pre @ take c (d # gap0) @ CHR '','' # d # suf)"
  proof -
    obtain h hs where h: "d # gap0 = hs @ [h]" and hs: "length hs = c"
      using g0 by (metis length_Cons length_append_singleton list.distinct(1) nat.inject rev_exhaust)
    have "put ((pre @ hs) @ h # d # suf) (int (length (pre @ hs))) CHR '','' =
        Inr ((pre @ hs) @ CHR '','' # d # suf)" by (rule put_eq)
    moreover have e: "pre @ d # gap0 @ d # suf = pre @ hs @ h # d # suf"
      using h by (metis append.assoc append_Cons append_Nil)
    ultimately show ?thesis by (simp only: e h) (simp add: hs)
  qed
  moreover have "pre @ d # gap @ suf = pre @ d # gap0 @ g # suf"
    and "take c (d # gap) = take c (d # gap0)" and "take (Suc c) (d # gap) = d # gap0"
    using g0 t by (simp_all add: gap)
  ultimately show ?thesis
    by (subst comma_loop.simps) (simp only: mv bind_res_simps Let_def, simp add: algebra_simps)
qed

text \<open>Three passes move three digits and put a comma before them.\<close>

lemma comma_three:
  assumes "length gap = Suc c" and "ds \<noteq> []" and "n mod 3 = 0"
  shows "\<exists>gap'. length gap' = c \<and>
    comma_loop (int (length ds) + 2) (int (length ds) + 3 + int c) n (ds @ [x, y, z] @ gap @ suf) =
    comma_loop (int (length ds) - 1) (int (length ds) - 1 + int c) (n + 3)
      (ds @ gap' @ [CHR '','', x, y, z] @ suf)"
proof -
  let ?g1 = "take (Suc c) (z # gap)"
  let ?g2 = "take (Suc c) (y # ?g1)"
  have g1: "length ?g1 = Suc c" and g2: "length ?g2 = Suc c" using assms(1) by simp_all
  have n: "(n + 1) mod 3 \<noteq> 0" "(n + 2) mod 3 \<noteq> 0" "(n + 3) mod 3 = 0"
    using assms(3) by presburger+
  have "comma_loop (int (length ds) + 2) (int (length ds) + 3 + int c) n (ds @ [x, y, z] @ gap @ suf)
      = comma_loop (int (length ds) + 1) (int (length ds) + 2 + int c) (n + 1)
          (ds @ [x, y] @ ?g1 @ z # suf)"
    using comma_pass [OF assms(1), of "ds @ [x, y]" n z suf] n by (simp add: add.commute)
  also have "\<dots> = comma_loop (int (length ds)) (int (length ds) + 1 + int c) (n + 2)
          (ds @ [x] @ ?g2 @ [y, z] @ suf)"
    using comma_pass [OF g1, of "ds @ [x]" "n + 1" y "z # suf"] n by (simp add: add.commute)
  also have "\<dots> = comma_loop (int (length ds) - 1) (int (length ds) - 1 + int c) (n + 3)
      (ds @ take c (x # ?g2) @ [CHR '','', x, y, z] @ suf)"
    using comma_pass [OF g2, of "ds" "n + 2" x "y # z # suf"] n by (simp add: add.commute)
  finally show ?thesis using g2 by (intro exI [of _ "take c (x # ?g2)"]) simp
qed

lemma comma_loop_commas:
  assumes "length gap = c" and "3 * c < length ds" and "length ds \<le> 3 * c + 3" and "n mod 3 = 0"
  shows "comma_loop (int (length ds) - 1) (int (length ds) - 1 + int c) n (ds @ gap @ suf) =
    Inr (commas ds @ suf)"
  using assms
proof (induction c arbitrary: ds gap n suf)
  case 0
  then show ?case by (subst comma_loop.simps) (simp add: commas_short)
next
  case (Suc c)
  define es where "es = take (length ds - 3) ds"
  have "length (drop (length ds - 3) ds) = Suc (Suc (Suc 0))" using Suc.prems by simp
  then obtain x y z where "drop (length ds - 3) ds = [x, y, z]"
    unfolding length_Suc_conv by blast
  then have ds: "ds = es @ [x, y, z]" by (metis es_def append_take_drop_id)
  have es: "3 * c < length es" "length es \<le> 3 * c + 3" using Suc.prems by (simp_all add: ds)
  then have ne: "es \<noteq> []" by auto
  from comma_three [OF Suc.prems(1) ne Suc.prems(4)] obtain gap' where g: "length gap' = c"
    and eq: "comma_loop (int (length es) + 2) (int (length es) + 3 + int c) n
        (es @ [x, y, z] @ gap @ suf) =
      comma_loop (int (length es) - 1) (int (length es) - 1 + int c) (n + 3)
        (es @ gap' @ [CHR '','', x, y, z] @ suf)" by blast
  have "comma_loop (int (length ds) - 1) (int (length ds) - 1 + int (Suc c)) n (ds @ gap @ suf) =
      comma_loop (int (length es) + 2) (int (length es) + 3 + int c) n (es @ [x, y, z] @ gap @ suf)"
    by (simp add: ds algebra_simps)
  also have "\<dots> = Inr (commas es @ [CHR '','', x, y, z] @ suf)"
    unfolding eq using Suc.prems(4) by (intro Suc.IH g es) presburger
  finally show ?case by (simp add: ds commas_step [OF ne])
qed

section \<open>Properties of CommaSeparated\<close>

lemma length_loop_nul: "NUL \<notin> set ds \<Longrightarrow> length_loop (ds @ NUL # r) k = Inr (k + int (length ds))"
  by (induction ds arbitrary: k) auto

lemma CommaSeparated_commas:
  assumes "NUL \<notin> set ds" and "ds \<noteq> []" and "snprintf_u64 buf v = ds @ NUL # r"
    and "(length ds - 1) div 3 \<le> length r"
  shows "\<exists>t. CommaSeparated_new v buf = Inr (commas ds @ NUL # t)"
proof -
  let ?c = "(length ds - 1) div 3"
  have trunc: "trunc_div (int (length ds) - 1) 3 = int ?c"
    using assms(2) by (simp add: trunc_div_def sgn_if zdiv_int of_nat_diff Suc_le_eq)
  have start: "CommaSeparated_new v buf =
      (if ?c \<noteq> 0 then bind_res (move (ds @ NUL # r) (int (length ds) + int ?c) (int (length ds)))
         (comma_loop (int (length ds) - 1) (int (length ds) + int ?c - 1) 0)
       else Inr (ds @ NUL # r))"
    by (simp add: CommaSeparated_new_def assms(3) length_loop_nul [OF assms(1)] trunc Let_def)
  show ?thesis
  proof (cases "?c = 0")
    case True
    then have "length ds \<le> 3" by (simp add: div_eq_0_iff)
    with True show ?thesis unfolding start by (simp add: commas_short)
  next
    case False
    then obtain c where c: "?c = Suc c" using not0_implies_Suc by blast
    have "Suc c \<le> length r" using assms(4) c by simp
    then obtain gap g suf where r: "r = gap @ g # suf" and g: "length gap = c"
      by (metis Suc_le_lessD id_take_nth_drop length_take less_imp_le_nat min_absorb2)
    have mv: "move (ds @ NUL # r) (int (length ds) + int (Suc c)) (int (length ds)) =
        Inr (ds @ (NUL # gap) @ NUL # suf)"
      unfolding r using move_eq [of ds NUL gap g suf] by (simp add: g algebra_simps)
    have "3 * Suc c < length ds" "length ds \<le> 3 * Suc c + 3"
      using c assms(2) div_mult_mod_eq [of "length ds - 1" 3] by (auto simp: Suc_le_eq)
    then have "comma_loop (int (length ds) - 1) (int (length ds) - 1 + int (Suc c)) 0
        (ds @ (NUL # gap) @ NUL # suf) = Inr (commas ds @ NUL # suf)"
      by (intro comma_loop_commas) (simp_all add: g)
    then show ?thesis unfolding start using False
      unfolding c mv bind_res_simps by (simp add: algebra_simps)
  qed
qed

lemma commas_rev_filter:
  "CHR '','' \<notin> set xs \<Longrightarrow> filter (\<lambda>c. c \<noteq> CHR '','') (commas_rev xs) = xs"
  by (induction xs rule: commas_rev.induct) auto

lemma commas_rev_set: "set (commas_rev xs) \<subseteq> insert CHR '','' (set xs)"
  by (induction xs rule: commas_rev.induct) auto

lemma commas_rev_le3: "length xs \<le> 3 \<Longrightarrow> commas_rev xs = xs"
  by (cases xs rule: commas_rev.cases) auto

lemma commas_rev_nth:
  "CHR '','' \<notin> set xs \<Longrightarrow> i < length (commas_rev xs) \<Longrightarrow>
     commas_rev xs ! i = CHR '','' \<longleftrightarrow> i mod 4 = 3"
proof (induction "length xs" arbitrary: xs i rule: less_induct)
  case less
  show ?case
  proof (cases "length xs \<le> 3")
    case True
    with less.prems(2) have "xs ! i \<in> set xs" and i: "i < 3" by (simp_all add: commas_rev_le3)
    with less.prems(1) have "xs ! i \<noteq> CHR '',''" by metis
    with True i show ?thesis by (simp add: commas_rev_le3)
  next
    case False
    then obtain x y z w r where xs: "xs = x # y # z # w # r"
      by (cases xs rule: commas_rev.cases) auto
    show ?thesis
    proof (cases "i < 4")
      case True
      then have "i = 0 \<or> i = 1 \<or> i = 2 \<or> i = 3" by linarith
      with less.prems(1) show ?thesis unfolding xs by (elim disjE) auto
    next
      case False
      define j where "j = i - 4"
      have j: "i = Suc (Suc (Suc (Suc j)))" using False by (simp add: j_def)
      have "commas_rev (w # r) ! j = CHR '','' \<longleftrightarrow> j mod 4 = 3"
        by (rule less.hyps) (use less.prems in \<open>simp_all add: xs j\<close>)
      moreover have "i mod 4 = j mod 4" unfolding j by presburger
      ultimately show ?thesis by (simp add: xs j)
    qed
  qed
qed

lemma commas_digits:
  assumes "CHR '','' \<notin> set ds"
  shows "filter (\<lambda>c. c \<noteq> CHR '','') (commas ds) = ds"
    and "i < length (commas ds) \<Longrightarrow> rev (commas ds) ! i = CHR '','' \<longleftrightarrow> i mod 4 = 3"
    and "set (commas ds) \<subseteq> insert CHR '','' (set ds)"
    and "ds \<noteq> [] \<Longrightarrow> hd (commas ds) = hd ds"
proof -
  have r: "CHR '','' \<notin> set (rev ds)" using assms by simp
  show "filter (\<lambda>c. c \<noteq> CHR '','') (commas ds) = ds"
    using commas_rev_filter [OF r] by (simp add: commas_def rev_filter [symmetric])
  show "i < length (commas ds) \<Longrightarrow> rev (commas ds) ! i = CHR '','' \<longleftrightarrow> i mod 4 = 3"
    using commas_rev_nth [OF r] by (simp add: commas_def)
  show "set (commas ds) \<subseteq> insert CHR '','' (set ds)"
    using commas_rev_set [of "rev ds"] by (auto simp: commas_def)
  have "last (commas_rev xs) = last xs \<and> (xs \<noteq> [] \<longrightarrow> commas_rev xs \<noteq> [])" for xs
    by (induction xs rule: commas_rev.induct) auto
  from this [of "rev ds"] show "ds \<noteq> [] \<Longrightarrow> hd (commas ds) = hd ds"
    by (simp add: commas_def hd_rev last_rev)
qed

lemma dec_of_nat_length: "n < 10 ^ Suc k \<Longrightarrow> length (dec_of_nat n) \<le> Suc k"
proof (induction k arbitrary: n)
  case 0
  then show ?case by (subst dec_of_nat.simps) simp
next
  case (Suc k)
  then have "length (dec_of_nat (n div 10)) \<le> Suc k" by (intro Suc.IH) simp
  then show ?case by (subst dec_of_nat.simps) simp
qed

lemma dec_of_u64_length: "length (dec_of_nat (unat (v :: u64))) \<le> 20"
proof -
  have "unat v < 10 ^ Suc 19" using unat_below [of v] by simp
  then show ?thesis by (rule order_trans [OF dec_of_nat_length]) simp
qed

text \<open>
  C21: \<open>CommaSeparated\<close> is correct for every 64-bit value, whatever the array held before: the
  in-place loop stays inside the array and leaves the decimal digits of the value with a comma
  at exactly every fourth position from the end; the first character is a digit.
\<close>

theorem CommaSeparated_correct:
  assumes "length junk = 64"
  shows "\<exists>buf s. CommaSeparated_new v junk = Inr buf \<and> s = CommaSeparated_str buf
    \<and> filter (\<lambda>c. c \<noteq> CHR '','') s = dec_of_nat (unat v)
    \<and> (\<forall>i<length s. rev s ! i = CHR '','' \<longleftrightarrow> i mod 4 = 3)
    \<and> is_digit (hd s)"
proof -
  let ?d = "dec_of_nat (unat v)"
  have d: "length ?d \<le> 20" by (rule dec_of_u64_length)
  have dig: "c \<in> set ?d \<Longrightarrow> is_digit c" for c using dec_of_nat_digits by blast
  have "\<not> is_digit NUL" "\<not> is_digit CHR '',''" by code_simp+
  with dig have no: "NUL \<notin> set ?d" "CHR '','' \<notin> set ?d" by blast+
  have nul: "NUL \<notin> set (commas ?d)" using commas_digits(3) [OF no(2)] no(1) by auto
  have "snprintf_u64 junk v = ?d @ NUL # drop (length ?d + 1) junk"
    using d by (simp add: snprintf_u64_def assms Let_def)
  moreover have "(length ?d - 1) div 3 \<le> length (drop (length ?d + 1) junk)"
    using d by (simp add: assms)
  ultimately obtain t where t: "CommaSeparated_new v junk = Inr (commas ?d @ NUL # t)"
    using CommaSeparated_commas [OF no(1)] by force
  have s: "CommaSeparated_str (commas ?d @ NUL # t) = commas ?d"
    unfolding CommaSeparated_str_def using nul by (subst takeWhile_append2) auto
  have "is_digit (hd ?d)" by (intro dig hd_in_set) simp
  with t s show ?thesis
    using commas_digits(1,2,4) [OF no(2)] 
    by (intro exI [of _ "commas ?d @ NUL # t"] exI [of _ "commas ?d"] conjI) simp_all
qed

theorem CommaSeparated_correct_witness:
  "\<exists>buf s. CommaSeparated_new 1234567 (replicate 64 NUL) = Inr buf \<and> s = CommaSeparated_str buf
    \<and> filter (\<lambda>c. c \<noteq> CHR '','') s = ''1234567'' \<and> is_digit (hd s)"
proof -
  have "dec_of_nat (unat (1234567 :: u64)) = ''1234567''" by (simp add: dec_eval)
  with CommaSeparated_correct [of "replicate 64 NUL" 1234567] show ?thesis by auto
qed

section \<open>Properties of Duration\<close>

fun ns_of :: "time_unit \<Rightarrow> int" where
  "ns_of ns = 1" | "ns_of us = 1000" | "ns_of ms = 1000000" | "ns_of sec = 1000000000"

text \<open>
  What \<open>Duration\<close> shows is the time span cut to the unit it picked: less than one unit off,
  towards zero and with the right sign. Outside nanoseconds the number has at least three
  digits, so less than one per cent is lost, and below seconds it is at most 100000.
\<close>

theorem Duration_approximates:
  assumes "- (2 ^ 63) < d" and "d < 2 ^ 63"
  shows "\<exists>c u. Duration_new d = Inr (c, u) \<and> \<bar>d - c * ns_of u\<bar> < ns_of u
    \<and> \<bar>c * ns_of u\<bar> \<le> \<bar>d\<bar> \<and> sgn c = sgn d
    \<and> (u \<noteq> ns \<longrightarrow> 100 \<le> \<bar>c\<bar>) \<and> (u \<noteq> sec \<longrightarrow> \<bar>c\<bar> \<le> 100000)"
proof -
  define a where "a = (if d < 0 then - d else d)"
  define cu where "cu = (if a > 100000000000 then (a div 1000000000, sec)
    else if a > 100000000 then (a div 1000000, ms)
    else if a > 100000 then (a div 1000, us) else (a, ns))"
  obtain c u where cu': "cu = (c, u)" by (cases cu)
  have a: "a = \<bar>d\<bar>" "0 \<le> a" by (simp_all add: a_def)
  have new: "Duration_new d = Inr (if d < 0 then - c else c, u)"
    using assms(1) cu' unfolding cu_def
    by (auto simp: Duration_new_def Let_def a_def [symmetric] split: if_splits)
  have c: "c * ns_of u \<le> a \<and> a - c * ns_of u < ns_of u \<and> 0 \<le> c \<and> (c = 0 \<longleftrightarrow> a = 0)
    \<and> (u \<noteq> ns \<longrightarrow> 100 \<le> c) \<and> (u \<noteq> sec \<longrightarrow> c \<le> 100000)"
    using cu' a(2) unfolding cu_def by (auto split: if_splits)
  show ?thesis
    using c a by (intro exI [of _ "if d < 0 then - c else c"] exI [of _ u]) (auto simp: new sgn_if)
qed

theorem Duration_approximates_witness:
  "Duration_new (- 1234567890) = Inr (- 1234, ms)
    \<and> \<bar>- 1234567890 - (- 1234) * ns_of ms\<bar> < ns_of ms"
proof -
  have "Duration_new (- 1234567890) = Inr (- 1234, ms)" by code_simp
  with Duration_approximates [of "- 1234567890"] show ?thesis by auto
qed

text \<open>The printed duration shows its number and its unit: no two durations look the same.\<close>

lemma Duration_put_inj: "Duration_put d = Duration_put d' \<longleftrightarrow> d = d'"
proof
  assume eq: "Duration_put d = Duration_put d'"
  have no: "CHR '' '' \<notin> set (dec_of_int i)" for i
    using dec_of_nat_no_char [of "CHR '' ''"] by (auto simp: dec_of_int_def is_digit_def)
  have split: "takeWhile (\<lambda>c. c \<noteq> CHR '' '') (Duration_put d) = dec_of_int (fst d)
    \<and> drop 1 (dropWhile (\<lambda>c. c \<noteq> CHR '' '') (Duration_put d)) = unit_text (snd d)" for d
    using no [of "fst d"] by (auto simp: Duration_put_def takeWhile_append dropWhile_append)
  have "dec_of_int (fst d) = dec_of_int (fst d')" "unit_text (snd d) = unit_text (snd d')"
    using split [of d] split [of d'] eq by simp_all
  moreover have "snd d = snd d'" using calculation(2) by (cases "snd d"; cases "snd d'") simp_all
  ultimately show "d = d'" by (simp add: dec_of_int_inj prod_eq_iff)
qed simp

end
