(* ===== verification/End_To_End.thy ===== *)
theory End_To_End
  imports Consumer_Accounting Producer_Runs
begin

text \<open>
  Producer and consumer together: the tracker of the consumer on the stream of the producer.
\<close>

section \<open>The share of one group in the schedule\<close>

definition share :: "nat \<Rightarrow> nat \<Rightarrow> nat \<Rightarrow> nat" where
  "share n j T = T div n + (if j < T mod n then 1 else 0)"

lemma share_0 [simp]: "share n j 0 = 0"
  by (simp add: share_def)

lemma share_Suc:
  assumes "j < n"
  shows "share n j (Suc T) = (if T mod n = j then Suc (T div n) else share n j T)"
    and "T mod n = j \<Longrightarrow> share n j T = T div n"
  using assms by (auto simp: share_def div_Suc mod_Suc split: if_splits)

lemma schedule_share:
  assumes "j < n" and "inj_on (s_addr \<circ> addr) {..<n}"
  shows "map snd (filter (\<lambda>(a, q). s_addr a = s_addr (addr j)) (schedule addr n T)) =
    map of_nat [0..<share n j T]"
proof (induction T)
  case 0
  then show ?case by (simp add: schedule_def)
next
  case (Suc T)
  have "T mod n < n" using assms(1) by simp
  then have "s_addr (addr (T mod n)) = s_addr (addr j) \<longleftrightarrow> T mod n = j"
    using assms inj_on_eq_iff [OF assms(2), of "T mod n" j] by auto
  then show ?case
    using Suc.IH share_Suc [OF assms(1), of T] by (simp add: schedule_Suc)
qed

lemma consecutive_run:
  "consumer_run n (map of_nat [0..<m]) =
     (if m = 0 then McGroupStats_init
      else \<lparr>Packets = of_nat m, Bytes = of_nat m * n, Sequence = of_nat (m - 1),
        ExpectedSequence = of_nat m, OutOfOrder = 0, RxDropped = 0\<rparr>)"
proof (induction m)
  case (Suc m)
  have "consumer_run n (map of_nat [0..<Suc m]) =
      consumer_update n (of_nat m) (consumer_run n (map of_nat [0..<m]))"
    by simp
  also have "\<dots> = \<lparr>Packets = of_nat (Suc m), Bytes = of_nat (Suc m) * n, Sequence = of_nat m,
      ExpectedSequence = of_nat (Suc m), OutOfOrder = 0, RxDropped = 0\<rparr>"
    unfolding Suc.IH
    by (cases m) (simp_all add: consumer_update_def McGroupStats_init_def algebra_simps)
  finally show ?case by simp
qed simp

lemma seqs_of_sent:
  "seqs_of_group g (sent p) = map snd (filter (\<lambda>(a, q). s_addr a = g) (sent_log p))"
proof -
  have "map (\<lambda>(addr, hdr). Seq hdr) (filter (\<lambda>(addr, hdr). s_addr addr = g) ps) =
      map snd (filter (\<lambda>(a, q). s_addr a = g) (map (\<lambda>(addr, hdr). (addr, Seq hdr)) ps))"
    for ps :: "(SOCKADDR_INET \<times> ProtocolHeader_t) list"
    by (induction ps) auto
  then show ?thesis by (simp add: seqs_of_group_def sent_log_def)
qed

section \<open>No loss, no complaint\<close>

lemma share_pos: "j < n \<Longrightarrow> n \<le> T \<Longrightarrow> share n j T \<noteq> 0"
  by (simp add: share_def div_eq_0_iff)

text \<open>
  C1: What the producer sends, the consumer counts without loss, for up to \<open>2 ^ 32\<close> packets in
  all (beyond, the 32-bit index of the address slots wraps and packets are attributed to the
  wrong groups). Let a producer with an accepted rate run with batches of completions that are
  a multiple of the number of groups, with groups at different addresses, and let a consumer
  that is still running have received exactly those packets, in the order in which they were
  sent and posted. Then the consumer's record of every group of the producer shows no drop
  and nothing out of order, and its packet count is the group's share of the sends.
\<close>

theorem lossless_delivery_reports_no_loss:
  assumes "RioProducer_new os args = Inr p" and "rate_ok args"
    and "RioProducer_Start os t0 now rds th p = Inr (p', prep)"
    and "\<And>rd. rd \<in> set rds \<Longrightarrow> length (McastAddrStr args) dvd length (round_sends [rd])"
    and "inj_on (s_addr \<circ> mc_sockaddr os args) {..<length (McastAddrStr args)}"
    and "RioConsumer_new os' args' = Inr s"
    and "RioConsumer_Start os' t0' rds' th' s = Inr (s', None)"
    and "fifo_delivery (posted (calls s')) (map (\<lambda>(a, h). (a, h, 100)) (sent p')) (round_results rds')"
    and "length (sent p') \<le> 2 ^ 32" and "j < length (McastAddrStr args)"
  shows "\<exists>st. std_map_find (m_GroupStats s') (s_addr (mc_sockaddr os args j)) = Some st
    \<and> RxDropped st = 0 \<and> OutOfOrder st = 0
    \<and> Packets st = of_nat (share (length (McastAddrStr args)) j (length (sent p')))"
proof -
  let ?n = "length (McastAddrStr args)" and ?g = "s_addr (mc_sockaddr os args j)"
  obtain T where log: "sent_log p' = schedule (mc_sockaddr os args) ?n T" and T: "?n \<le> T"
  proof -
    from start_schedule [OF assms(1-4)] obtain k
      where "sent_log p' = schedule (mc_sockaddr os args) ?n
        (nat (PacketRate args) * ?n + length (round_sends (take k rds)))" by blast
    moreover have "?n \<le> nat (PacketRate args) * ?n"
      using rate_bounds(3) [OF assms(2)] by (cases "nat (PacketRate args)") simp_all
    ultimately show thesis using that by (meson trans_le_add1)
  qed
  have "length (sent p') = length (sent_log p')" by (simp add: sent_log_def)
  then have len: "length (sent p') = T" by (simp add: log schedule_def)
  have hs: "headers (map (\<lambda>(a, h). (a, h, 100)) (sent p')) = sent p'"
    by (simp add: headers_def comp_def case_prod_beta)
  have all: "\<forall>(a, h, len) \<in> set (map (\<lambda>(a, h). (a, h, 100)) (sent p')). len = 100" by auto
  obtain gs where stats: "m_GroupStats s' = consumer_stream 100 (sent p') (InitGroupStats gs [])"
    using attribution [OF assms(6,7)] assms(8,9) all hs by auto
  have seqs: "seqs_of_group ?g (sent p') = map of_nat [0..<share ?n j T]"
    using schedule_share [OF assms(10,5), of T] by (simp add: seqs_of_sent log)
  have pos: "share ?n j T \<noteq> 0" by (rule share_pos [OF assms(10) T])
  then have "std_map_find (m_GroupStats s') ?g = Some (consumer_run 100 (map of_nat [0..<share ?n j T]))"
    by (simp add: stats consumer_stream_find InitGroupStats_ok find_Init_empty seqs consumer_run_def
        split: option.split)
  with pos show ?thesis by (simp add: consecutive_run len)
qed

lemma ref_batch_run:
  assumes "rs \<noteq> []" and "\<And>r. r \<in> set rs \<Longrightarrow> RequestContext r < 1500000"
  shows "\<exists>s s'. RioConsumer_new ref_os ref_args = Inr s
    \<and> RioConsumer_Start ref_os 0 [quiet_round\<lparr>rd_results := Some rs\<rparr>] [] s = Inr (s', None)
    \<and> take 1500000 (posted (calls s')) =
        map (\<lambda>j. (data_slot (m_RioBuffId s) j, addr_slot (m_McAddrBuffId s) j, j)) [0..<1500000]"
proof -
  from ref_start obtain s s1 where s: "RioConsumer_new ref_os ref_args = Inr s"
    and s1: "PostFirstRecvs ref_os (m_MaxOutstandingReceive s)
      (s\<lparr>m_Timing := setStart 0 (m_Timing s)\<rparr>) = Inr s1" by blast
  note built = consumer_built [OF s] and first = first_receives [OF s s1]
  define s2 where "s2 = s1\<lparr>calls := calls s1 @ [RIONotify (m_CompletionQueue s1)],
    m_Timing := setStart 0 (setStop 0 (m_Timing s1))\<rparr>"
  have members: "m_Args s1 = ref_args" "m_TotalPkts s1 = 0"
    by (simp_all add: first(1) built(6,7))
  have ok: "descriptors_ok s2"
    by (simp add: descriptors_ok_def s2_def first(1) built(2,4))
  obtain s3 l3 where p: "process_results ref_os rs (s2, recv_locals_init) = Inr (s3, l3)"
    using refos.process_results_up [where l = recv_locals_init, OF ok assms(2)] by fastforce
  have run: "recv_loop ref_os [quiet_round\<lparr>rd_results := Some rs\<rparr>] (s1, recv_locals_init)
      = Inr (False, s3, l3\<lparr>shouldNotify := True\<rparr>)"
    using p members assms(1)
    by (simp add: quiet_round_def recv_step_def recv_batch_def ShouldStop_def Let_def
        recv_locals_init_def refos.notify_up ref_args_def s2_def)
  have path: "recv_path ref_os rs (s2, recv_locals_init) (s3, l3)"
    by (rule process_results_path [OF p])
  have "posted (calls s2) = posted (calls s1)" by (simp add: s2_def)
  with path_frame [OF path] have "\<exists>qs. posted (calls s3) = posted (calls s1) @ qs" by auto
  then have "take 1500000 (posted (calls s3)) = posted (calls s1)" by (auto simp: first(2))
  with s s1 run first(2) show ?thesis
    unfolding RioConsumer_Start_def Let_def by (intro exI [of _ s] exI [of _ s3] conjI) simp_all
qed

text \<open>The result that carries a sent packet into slot \<open>k\<close>.\<close>

definition arrival :: "nat \<Rightarrow> SOCKADDR_INET \<times> ProtocolHeader_t \<Rightarrow> RIORESULT" where
  "arrival k pkt = \<lparr>BytesTransferred = 100, RequestContext = k,
     data_at = (\<lambda>_. snd pkt), addr_at = (\<lambda>_. fst pkt)\<rparr>"

lemma ref_groups_differ:
  "inj_on (s_addr \<circ> mc_sockaddr ref_os ref_producer_args) {..<length (McastAddrStr ref_producer_args)}"
proof -
  have a: "the (inet_pton4 ref_winsock (Ipv4_str ref_winsock a)) = ip_be a" for a
    using refws.pton_ntop [of "ip_be a"] by (simp add: Ipv4_str_def)
  have "bswap32 0xEF054502 \<noteq> bswap32 0xEF054503" by (simp add: bswap32_def octet_def)
  moreover have "{..<length (McastAddrStr ref_producer_args)} = {0, 1}"
    unfolding ref_producer_ok(2) by auto
  ultimately show ?thesis
    by (simp add: mc_sockaddr_def a) (simp add: ref_producer_args_def)
qed

theorem lossless_delivery_reports_no_loss_witness:
  "\<exists>p p' s s' st. RioProducer_new ref_os ref_producer_args = Inr p
    \<and> RioProducer_Start ref_os 0 (\<lambda>_. 0) [] [] p = Inr (p', None)
    \<and> RioConsumer_new ref_os ref_args = Inr s
    \<and> RioConsumer_Start ref_os 0 [quiet_round\<lparr>rd_results :=
        Some [arrival 0 (sent p' ! 0), arrival 1 (sent p' ! 1)]\<rparr>] [] s = Inr (s', None)
    \<and> std_map_find (m_GroupStats s') (s_addr (mc_sockaddr ref_os ref_producer_args 1)) = Some st
    \<and> RxDropped st = 0 \<and> OutOfOrder st = 0 \<and> Packets st = 1"
proof -
  obtain p where p: "RioProducer_new ref_os ref_producer_args = Inr p"
    using ref_producer by blast
  obtain sq p' where post: "PostFirstSend ref_os (\<lambda>_. 0)
      (p\<lparr>session := (session p)\<lparr>m_Timing := setStart 0 (m_Timing (session p))\<rparr>\<rparr>) = Inr (sq, p')"
    using refos.post_first_send_up [OF p ref_producer_ok(1) refl] by blast
  then have run: "RioProducer_Start ref_os 0 (\<lambda>_. 0) [] [] p = Inr (p', None)"
    by (simp add: RioProducer_Start_def Let_def)
  have "length (sent_log p') = 2" by (simp add: ref_post(3) [OF p post])
  then obtain x y where xy: "sent p' = [x, y]"
    by (auto simp: sent_log_def length_Suc_conv numeral_2_eq_2)
  let ?rs = "[arrival 0 x, arrival 1 y]"
  let ?rd = "quiet_round\<lparr>rd_results := Some ?rs\<rparr>"
  have ctx: "RequestContext r < 1500000" if "r \<in> set ?rs" for r
    using that by (auto simp: arrival_def)
  from ref_batch_run [of ?rs] ctx obtain s s' where s: "RioConsumer_new ref_os ref_args = Inr s"
    and crun: "RioConsumer_Start ref_os 0 [?rd] [] s = Inr (s', None)"
    and post': "take 1500000 (posted (calls s')) =
        map (\<lambda>j. (data_slot (m_RioBuffId s) j, addr_slot (m_McAddrBuffId s) j, j)) [0..<1500000]"
    by auto
  have upt2: "[0..<2] = [0, 1 :: nat]" by (simp add: upt_rec)
  have "take 2 (take 1500000 (posted (calls s'))) =
      map (\<lambda>j. (data_slot (m_RioBuffId s) j, addr_slot (m_McAddrBuffId s) j, j)) (take 2 [0..<1500000])"
    unfolding post' by (rule take_map)
  also have "take 2 [0..<1500000] = [0, 1 :: nat]" by (simp add: upt2)
  finally have two2: "take 2 (posted (calls s')) =
      [(data_slot (m_RioBuffId s) 0, addr_slot (m_McAddrBuffId s) 0, 0),
       (data_slot (m_RioBuffId s) 1, addr_slot (m_McAddrBuffId s) 1, 1)]"
    by simp
  note two = two2 [unfolded numeral_2_eq_2]
  have "length (take 1500000 (posted (calls s'))) = 1500000" unfolding post' by simp
  then have len: "1500000 \<le> length (posted (calls s'))" by simp
  have rr: "round_results [?rd] = ?rs" by (simp add: round_results_def)
  have fifo: "fifo_delivery (posted (calls s')) (map (\<lambda>(a, h). (a, h, 100)) (sent p')) (round_results [?rd])"
    unfolding rr xy using len two
    by (cases x; cases y) (simp add: fifo_delivery_def delivers_def arrival_def)
  have "\<exists>st. std_map_find (m_GroupStats s') (s_addr (mc_sockaddr ref_os ref_producer_args 1)) = Some st
    \<and> RxDropped st = 0 \<and> OutOfOrder st = 0
    \<and> Packets st = of_nat (share (length (McastAddrStr ref_producer_args)) 1 (length (sent p')))"
    by (rule lossless_delivery_reports_no_loss [OF p ref_producer_ok(1) run _ ref_groups_differ
          s crun fifo]) (simp_all add: xy ref_producer_ok(2))
  then obtain st where "std_map_find (m_GroupStats s') (s_addr (mc_sockaddr ref_os ref_producer_args 1)) = Some st"
    "RxDropped st = 0" "OutOfOrder st = 0" "Packets st = 1"
    by (auto simp: xy ref_producer_ok(2) share_def)
  with p run s crun show ?thesis
    by (intro exI [of _ p] exI [of _ p'] exI [of _ s] exI [of _ s'] exI [of _ st]) (simp add: xy)
qed

end
