(* ===== verification/Send_Rate.thy ===== *)
theory Send_Rate
  imports Pause_Tuning
begin

text \<open>
  The pace of the producer (RioProducer.cpp): both of its loops send one message to each group
  and then pause (\<open>utilities::spin\<close>, Utilities.hpp) before the next message. The theory models
  what the loops do in time, as the trace of the clock readings at the sends and within the
  pauses, and shows how fast packets can leave; and for which rates there is no pause at all.
\<close>

section \<open>The timed trace\<close>

text \<open>
  The start of a batch (the loop over the messages of \<open>PostFirstSend\<close>, or over the results of
  one dequeue), a send with the group it goes to and the clock at that moment, or a pause with
  its length, its start and the readings of its loop.
\<close>

datatype timed = NewBatch | Sent nat int | Paused u64 int "int list"

text \<open>
  The group of a send is chosen by its position in the batch. The group counter of the loops
  runs on over the batches; it wraps at the number of groups, and each time it does, a pause
  follows that has returned before the next send.
\<close>

fun paced :: "nat \<Rightarrow> nat \<Rightarrow> nat \<Rightarrow> timed list \<Rightarrow> bool" where
  "paced groups i gc [] = True"
| "paced groups i gc (NewBatch # es) = paced groups 0 gc es"
| "paced groups i gc (Sent dest t # es) = (dest = i mod groups \<and>
     (let gc = (gc + 1) mod groups
      in if gc = 0 then
           (case es of
              [] \<Rightarrow> True
            | Paused nano t0 readings # es \<Rightarrow> spin nano t0 readings \<and> paced groups (i + 1) 0 es
            | _ \<Rightarrow> False)
         else paced groups (i + 1) gc es))"
| "paced groups i gc (Paused _ _ _ # es) = False"

fun readings_of :: "timed \<Rightarrow> int list" where
  "readings_of NewBatch = []"
| "readings_of (Sent dest t) = [t]"
| "readings_of (Paused nano t0 rs) = t0 # rs"

text \<open>The clock never runs back.\<close>

definition clock_ok :: "timed list \<Rightarrow> bool" where
  "clock_ok es \<longleftrightarrow> sorted (concat (map readings_of es))
     \<and> list_all (\<lambda>t. 0 \<le> t \<and> t < 2 ^ 63) (concat (map readings_of es))"

fun send_times :: "timed list \<Rightarrow> int list" where
  "send_times [] = []"
| "send_times (NewBatch # es) = send_times es"
| "send_times (Sent _ t # es) = t # send_times es"
| "send_times (Paused _ _ _ # es) = send_times es"

fun pauses_at_least :: "u64 \<Rightarrow> timed list \<Rightarrow> bool" where
  "pauses_at_least p [] = True"
| "pauses_at_least p (NewBatch # es) = pauses_at_least p es"
| "pauses_at_least p (Sent _ _ # es) = pauses_at_least p es"
| "pauses_at_least p (Paused nano _ _ # es) = (p \<le> nano \<and> pauses_at_least p es)"

section \<open>Lemmas\<close>

lemma send_times_readings: "set (send_times es) \<subseteq> set (concat (map readings_of es))"
  by (induction es rule: send_times.induct) auto

lemma clock_ok_Cons: "clock_ok (e # es) \<Longrightarrow> clock_ok es"
  by (simp add: clock_ok_def sorted_append)

lemma pace_from:
  assumes "paced g i gc es" and "clock_ok es" and "pauses_at_least p es" and "1000 < p" and "gc < g"
    and "\<forall>t\<in>set (concat (map readings_of es)). b \<le> t" and "send_times es \<noteq> []"
  shows "b + uint p * int ((gc + length (send_times es) - 1) div g) \<le> last (send_times es)"
  using assms
proof (induction es arbitrary: i gc b rule: length_induct)
  case (1 es)
  have IH: "b' + uint p * int ((gc' + length (send_times q) - 1) div g) \<le> last (send_times q)"
    if "length q < length es" "paced g i' gc' q" "clock_ok q" "pauses_at_least p q" "gc' < g"
      "\<forall>t\<in>set (concat (map readings_of q)). b' \<le> t" "send_times q \<noteq> []" for q i' gc' b'
    using "1.IH" that "1.prems"(4) by blast
  consider (batch) r where "es = NewBatch # r" | (sent) dest t r where "es = Sent dest t # r"
    using "1.prems"(1,7) by (cases es; cases "hd es") auto
  then show ?case
  proof cases
    case (batch r)
    then show ?thesis
      using IH [of r 0 gc b] "1.prems" clock_ok_Cons [of NewBatch r] by simp
  next
    case (sent dest t r)
    note es = sent
    have r: "clock_ok r" "pauses_at_least p r" "\<forall>t\<in>set (concat (map readings_of r)). b \<le> t"
      using "1.prems"(2,3,6) clock_ok_Cons by (auto simp: es)
    show ?thesis
    proof (cases "send_times r = []")
      case True
      then show ?thesis using "1.prems"(5,6) by (simp add: es)
    next
      case more: False
      then have k: "1 \<le> length (send_times r)" by (simp add: Suc_le_eq)
      show ?thesis
      proof (cases "gc + 1 = g")
        case False
        then have gc: "gc + 1 < g" using "1.prems"(5) by simp
        then have "paced g (i + 1) (gc + 1) r" using "1.prems"(1) by (simp add: es)
        from IH [OF _ this r(1,2) gc r(3) more]
        show ?thesis using more k by (simp add: es)
      next
        case True
        then obtain nano t0 rs q where q: "r = Paused nano t0 rs # q" "spin nano t0 rs" "paced g (i + 1) 0 q"
          using "1.prems"(1) more by (auto simp: es split: list.splits timed.splits)
        have p: "p \<le> nano" "pauses_at_least p q" using r(2) by (simp_all add: q)
        then have "1000 < nano" using "1.prems"(4) by simp
        have qs: "send_times q \<noteq> []" using more by (simp add: q)
        have b: "b \<le> t0" using r(3) by (simp add: q)
        have len: "uint p \<le> uint nano" using p(1) by (simp add: word_le_def)
        have late: "\<exists>x\<in>set rs. t0 + uint nano \<le> x"
        proof -
          have "0 \<le> t0" "\<forall>x\<in>set rs. t0 \<le> x" "\<forall>x\<in>set rs. x < 2 ^ 63"
            using r(1) by (auto simp: q clock_ok_def list_all_iff sorted_append)
          then have "\<forall>x\<in>set rs. t0 \<le> x \<and> x - t0 < 2 ^ 63" by (metis diff_left_mono diff_zero le_less_trans)
          then show ?thesis using q(2) \<open>1000 < nano\<close> spin_loop_iff [of rs t0 nano] by (simp add: spin_def)
        qed
        then have base: "\<forall>x\<in>set (concat (map readings_of q)). b + uint p \<le> x"
          using r(1) b len by (force simp: q clock_ok_def sorted_append)
        have "length q < length es" by (simp add: es q)
        from IH [OF this q(3) clock_ok_Cons [OF r(1) [unfolded q(1)]] p(2) _ base qs]
        have "b + uint p + uint p * int ((length (send_times q) - 1) div g) \<le> last (send_times q)"
          using "1.prems"(5) by simp
        moreover have "(gc + length (send_times es) - 1) div g = Suc ((length (send_times q) - 1) div g)"
        proof -
          have "gc + length (send_times es) - 1 = g + (length (send_times q) - 1)"
            using True k by (simp add: es q)
          then show ?thesis using "1.prems"(5) by simp
        qed
        ultimately show ?thesis using qs by (simp add: es q algebra_simps)
      qed
    qed
  qed
qed

lemma first_send_first:
  "paced g i gc es \<Longrightarrow> clock_ok es \<Longrightarrow> send_times es \<noteq> [] \<Longrightarrow>
     \<forall>x\<in>set (concat (map readings_of es)). hd (send_times es) \<le> x"
proof (induction es arbitrary: i)
  case (Cons e es)
  show ?case
  proof (cases e)
    case NewBatch
    with Cons.IH [of 0] Cons.prems clock_ok_Cons [of e es] show ?thesis by simp
  next
    case (Sent dest t)
    with Cons.prems(2) show ?thesis by (auto simp: clock_ok_def)
  qed (use Cons.prems(1) in simp)
qed simp

section \<open>Properties\<close>

text \<open>
  C38: The producer does not exceed its rate. On a clock that does not run back (and stays below
  \<open>2 ^ 63\<close> nanoseconds), while every pause is at least \<open>p\<close> nanoseconds, and
  more than a microsecond, any stretch of its send loops that lasts \<open>w\<close> nanoseconds, from any
  position in a batch and any value of the group counter, sends at most
  \<open>groups * (w div p + 1)\<close> messages in all, less the value of the counter at its start, however
  the scheduler delays it. The bound is on the total: the messages of one group are not bounded
  by their share, since the group is chosen by the position in the batch.
\<close>

theorem rate_limit_holds:
  assumes "paced groups i gc es" and "clock_ok es" and "pauses_at_least p es" and "1000 < p"
    and "gc < groups" and "send_times es \<noteq> []"
    and "w = last (send_times es) - hd (send_times es)"
  shows "int (length (send_times es)) + int gc \<le> int groups * (w div uint p + 1)"
proof -
  define n where "n = gc + length (send_times es)"
  define d where "d = (n - 1) div groups"
  have p: "0 < uint p" using assms(4) by (simp add: word_less_def)
  from pace_from [OF assms(1-5) first_send_first [OF assms(1,2,6)] assms(6)]
  have "uint p * int d \<le> w" by (simp add: assms(7) d_def n_def)
  then have "int d \<le> w div uint p" using p by (simp add: le_quotient mult.commute)
  then have limit: "int groups * (int d + 1) \<le> int groups * (w div uint p + 1)"
    by (intro mult_left_mono) simp_all
  have g: "0 < groups" using assms(5) by simp
  have "n - 1 < groups * (d + 1)"
    unfolding d_def using dividend_less_times_div [OF g, of "n - 1"] by simp
  then have "n \<le> groups * (d + 1)" by linarith
  then have "int n \<le> int (groups * (d + 1))" by (simp only: of_nat_le_iff)
  also have "\<dots> = int groups * (int d + 1)" by (simp add: distrib_left)
  also note limit
  finally show ?thesis by (simp add: n_def)
qed

text \<open>
  Two groups, from the counter 1. As every completion comes alone, all four messages go to the
  first group, more than its share of three.
\<close>

theorem rate_limit_holds_witness:
  "int (length (send_times [NewBatch, Sent 0 3, Paused 5000 4 [9, 5004], NewBatch, Sent 0 5010,
     NewBatch, Sent 0 5012, Paused 5000 5013 [10020], NewBatch, Sent 0 10021])) + 1
   \<le> 2 * (10018 div 5000 + 1)"
proof -
  let ?es = "[NewBatch, Sent 0 3, Paused 5000 4 [9, 5004], NewBatch, Sent 0 5010,
     NewBatch, Sent 0 5012, Paused 5000 5013 [10020], NewBatch, Sent 0 10021]"
  have "spin 5000 4 [9, 5004]" "spin 5000 5013 [10020]" by (simp_all add: spin_def)
  then have "paced 2 7 1 ?es" by simp
  moreover have "clock_ok ?es" by (simp add: clock_ok_def)
  ultimately show ?thesis using rate_limit_holds [of 2 7 1 ?es 5000 10018] by simp
qed

text \<open>
  At the highest rates there is no limit. The first pause is longer than a microsecond exactly
  for rates up to 999000; from there to the admitted 1000000 it is 1000 nanoseconds, for which
  \<open>spin\<close> returns at once, so the producer sends as fast as it can.
\<close>

theorem paced_rates:
  assumes "0 < rate" and "rate \<le> 1000000"
  shows "spin (word_of_int (first_pause rate)) t0 [] \<longleftrightarrow> 999000 < rate"
proof -
  have d: "first_pause rate = 1000000000 div rate" by (rule first_pause_eq [OF assms])
  have "1000000000 div rate < 2 ^ 64"
    using assms(1) by (simp add: le_less_trans [OF zdiv_mono2 [of 1000000000 1 rate]])
  moreover have "0 \<le> 1000000000 div rate" using assms(1) by (simp add: pos_imp_zdiv_nonneg_iff)
  ultimately have "uint (word_of_int (1000000000 div rate) :: u64) = 1000000000 div rate"
    unfolding uint_word_of_int by (intro mod_pos_pos_trivial) simp_all
  then have "(word_of_int (first_pause rate) :: u64) \<le> 1000 \<longleftrightarrow> 1000000000 div rate \<le> 1000"
    by (simp add: word_le_def d)
  also have "\<dots> \<longleftrightarrow> \<not> 1001 \<le> 1000000000 div rate" by linarith
  also have "\<dots> \<longleftrightarrow> 999000 < rate" using assms(1) by (auto simp: le_quotient)
  finally show ?thesis by (simp add: spin_def)
qed

theorem paced_rates_witness:
  "spin (word_of_int (first_pause 1000000)) 5 [] \<and> \<not> spin (word_of_int (first_pause 999000)) 5 []"
  using paced_rates [of 1000000 5] paced_rates [of 999000 5] by simp

end
