(* ===== verification/Error_Exit.thy ===== *)
theory Error_Exit
  imports Adapters
begin

text \<open>
  How the program ends on a failed call (\<open>utilities::ErrorExit\<close>, Utilities.hpp): two lines on
  the console, then \<open>exit(0)\<close>. The other theories stop at the call and return
  \<open>Inl (ErrorExit f)\<close>; here is what it does.
\<close>

section \<open>ErrorExit\<close>

text \<open>
  The printed lines and the way the program ends; \<open>None\<close> if the search for the message does
  not return. The index counts the accesses to the error of the thread, as in
  \<open>GetLastErrorMessage\<close>.
\<close>

definition failed_line :: "string \<Rightarrow> u32 \<Rightarrow> string" where
  "failed_line pFunction lastError =
     ''Error: '' @ pFunction @ '' failed: '' @ dec_of_nat (unat lastError)"

definition ErrorExit_code :: "error_env \<Rightarrow> nat \<Rightarrow> string \<Rightarrow> u32 \<Rightarrow> (string list \<times> abort) option" where
  "ErrorExit_code env k pFunction lastError =
     (case GetLastErrorMessage env k lastError True of
        None \<Rightarrow> None
      | Some (Inl e) \<Rightarrow> Some ([failed_line pFunction lastError], e)
      | Some (Inr msg) \<Rightarrow> Some ([failed_line pFunction lastError, msg], Exit 0))"

definition ErrorExit_last :: "error_env \<Rightarrow> nat \<Rightarrow> string \<Rightarrow> (string list \<times> abort) option" where
  "ErrorExit_last env k pFunction =
     (let lastError = GetLastError env k in ErrorExit_code env (k + 1) pFunction lastError)"

section \<open>Properties\<close>

lemma failed_line_inj: "failed_line f e = failed_line f e' \<longleftrightarrow> e = e'"
  by (simp add: failed_line_def dec_of_nat_inj word_unat_eq_iff)

lemma GetLastErrorMessage_Inl:
  assumes "GetLastErrorMessage env k e True = Some (Inl x)"
  shows "\<exists>j e'. FormatMessageA env j e' = Some [] \<or> FormatMessageA env j e' = Some [LF]"
proof -
  let ?P = "\<lambda>env k e (s :: bool) (r :: string result). \<forall>x. r = Inl x \<longrightarrow>
    (\<exists>j e'. FormatMessageA env j e' = Some [] \<or> FormatMessageA env j e' = Some [LF])"
  have "?P env k e True (Inl x)"
  proof (rule GetLastErrorMessage.raw_induct [where P = ?P, OF _ assms])
    fix G env k last_error s r
    assume IH: "\<And>env k last_error s r. G env k last_error s = Some r \<Longrightarrow> ?P env k last_error s r"
      and body: "(case FormatMessageA env k last_error of
          None \<Rightarrow> let thisError = GetLastError env k
            in if thisError \<noteq> last_error then G env (k + 1) thisError s
               else Some (Inr ''Failed to obtain error string'')
        | Some errmsg \<Rightarrow> Some (if s then strip_line_feed errmsg else Inr errmsg)) = Some r"
    show "?P env k last_error s r"
    proof (cases "FormatMessageA env k last_error")
      case None
      with body IH show ?thesis by (auto simp: Let_def split: if_splits)
    next
      case (Some errmsg)
      have "errmsg = [] \<or> errmsg = [LF]" if "r = Inl y" for y
        using body that Some
        by (cases errmsg rule: rev_cases) (auto simp: strip_line_feed_def Let_def split: if_splits)
      with Some show ?thesis by metis
    qed
  qed
  then show ?thesis by blast
qed

text \<open>
  The way out. When the system settles on an error (from some call on a failing
  \<open>FormatMessageA\<close> leaves the same one) and no message is empty or a lone line feed,
  \<open>ErrorExit\<close> ends the program with the status of success, after two lines: the call that
  failed with its error code, from which the code can be told, and the text of the error.
\<close>

theorem ErrorExit_outcome:
  assumes "\<forall>j\<ge>n. GetLastError env j = e"
    and "\<And>j e. FormatMessageA env j e \<noteq> Some [] \<and> FormatMessageA env j e \<noteq> Some [LF]"
  shows "\<exists>msg. ErrorExit_code env k f c = Some ([failed_line f c, msg], Exit 0)
    \<and> (\<forall>c' msg'. ErrorExit_code env k f c' = Some ([failed_line f c, msg'], Exit 0) \<longrightarrow> c' = c)"
proof -
  have "\<exists>msg. GetLastErrorMessage env k c True = Some (Inr msg)"
  proof -
    obtain r where r: "GetLastErrorMessage env k c True = Some r"
      using GetLastErrorMessage_terminates [OF assms(1)] by blast
    have "r \<noteq> Inl x" for x using GetLastErrorMessage_Inl [of env k c x] r assms(2) by blast
    with r show ?thesis by (cases r) auto
  qed
  then obtain msg where "ErrorExit_code env k f c = Some ([failed_line f c, msg], Exit 0)"
    by (auto simp: ErrorExit_code_def)
  moreover have "c' = c" if "ErrorExit_code env k f c' = Some ([failed_line f c, msg'], Exit 0)" for c' msg'
    using that by (auto simp: ErrorExit_code_def failed_line_inj split: option.splits sum.splits)
  ultimately show ?thesis by blast
qed

theorem ErrorExit_outcome_witness:
  "\<exists>msg. ErrorExit_code silent_env 0 ''WSAStartup'' 10091
     = Some ([''Error: WSAStartup failed: 10091'', msg], Exit 0)"
proof -
  have "failed_line ''WSAStartup'' 10091 = ''Error: WSAStartup failed: 10091''"
    by (simp add: failed_line_def dec_eval)
  then show ?thesis
    using ErrorExit_outcome [of 0 silent_env 317 0 "''WSAStartup''" 10091]
    by (auto simp: silent_env_def)
qed

text \<open>With two errors that alternate it does not end the program at all.\<close>

theorem ErrorExit_may_hang:
  assumes "a \<noteq> b"
  shows "ErrorExit_code \<lparr>FormatMessageA = (\<lambda>_ _. None),
    GetLastError = (\<lambda>k. if even k then a else b)\<rparr> 0 f b = None"
  using GetLastErrorMessage_alternation_diverges [OF assms, of True] by (simp add: ErrorExit_code_def)

theorem ErrorExit_may_hang_witness:
  "ErrorExit_code \<lparr>FormatMessageA = (\<lambda>_ _. None),
    GetLastError = (\<lambda>k. if even k then 317 else 5)\<rparr> 0 ''RIONotify'' 5 = None"
  by (rule ErrorExit_may_hang) simp

end
