(* ===== verification/Producer_Resources.thy ===== *)
theory Producer_Resources
  imports Producer_Runs
begin

text \<open>
  The sender gives back what it took: sending and resending only make calls that neither
  acquire nor release a resource and leave the handles of the session alone.
\<close>

section \<open>Frames\<close>

abbreviation producer_keeps :: "RioProducer \<Rightarrow> RioProducer \<Rightarrow> bool" where
  "producer_keeps p p' \<equiv> session_keeps (session p) (session p')"

lemma keeps_descr [simp]: "session_keeps s (s\<lparr>m_RioBuffDescr := ds\<rparr>)"
  by (simp add: session_keeps_def)

lemma keeps_timing [simp]: "session_keeps s (s\<lparr>m_Timing := t\<rparr>)"
  by (simp add: session_keeps_def)

lemma lift_op_keeps:
  "lift_op f p = Inr p' \<Longrightarrow> (\<And>s'. f (session p) = Inr s' \<Longrightarrow> session_keeps (session p) s') \<Longrightarrow>
     producer_keeps p p'"
  by (auto simp: lift_op_Inr)

lemma notify_keeps: "NotifyCompletionQueue os s = Inr s' \<Longrightarrow> session_keeps s s'"
  by (drule NotifyCompletionQueue_effect) (simp add: session_keeps_def)

lemma send_one_keeps: "send_one os x a a' p = Inr p' \<Longrightarrow> producer_keeps p p'"
  by (drule send_one_effect) (auto simp: session_keeps_def)

lemma fill_descrs_keeps: "fill_descrs g i n j off s = Inr s' \<Longrightarrow> session_keeps s s'"
proof (induction n arbitrary: j s)
  case (Suc n)
  then show ?case
    by (auto simp: Let_def split: if_splits intro: session_keeps_trans [OF keeps_descr])
qed simp

lemma fill_messages_keeps: "fill_messages now n i off p = Inr p' \<Longrightarrow> producer_keeps p p'"
proof (induction n arbitrary: i off p)
  case (Suc n)
  then obtain p1 where 1: "lift_op (fill_descrs (m_NumberOfMcGroups p) (of_nat i)
      (unat (m_NumberOfMcGroups p)) 0 off) p = Inr p1"
    and 2: "fill_messages now n (i + 1) (off + EXPECTED_DATA_SIZE)
          (p1\<lparr>data_mem := (data_mem p1)(off := (data_mem p1 off)\<lparr>Token := 490,
             CmdType := 0, Seq := of_nat i, Timestamp := now i\<rparr>)\<rparr>) = Inr p'"
    by (auto simp: bind_res_eq_Inr)
  from 1 have "producer_keeps p p1" by (rule lift_op_keeps) (rule fill_descrs_keeps)
  moreover have "producer_keeps p1 p'" using Suc.IH [OF 2] by simp
  ultimately show ?case by (rule session_keeps_trans)
qed simp

lemma first_sends_keeps: "first_sends_loop os n i p = Inr p' \<Longrightarrow> producer_keeps p p'"
proof (induction n arbitrary: i p)
  case (Suc n)
  then show ?case
    by (auto simp: bind_res_eq_Inr split: if_splits intro: session_keeps_trans send_one_keeps)
qed simp

lemma PostFirstSend_keeps: "PostFirstSend os now p = Inr (sq, p') \<Longrightarrow> producer_keeps p p'"
  by (auto simp: PostFirstSend_def Let_def bind_res_eq_Inr
      intro: session_keeps_trans fill_messages_keeps first_sends_keeps)

lemma resend_keeps: "resend os i r (p, l) = Inr (p', l') \<Longrightarrow> producer_keeps p p'"
  by (auto simp: resend_def Let_def bind_res_eq_Inr split: if_splits dest!: send_one_keeps)

lemma resend_batch_keeps: "resend_batch os i rs (p, l) = Inr (p', l') \<Longrightarrow> producer_keeps p p'"
proof (induction rs arbitrary: i p l)
  case (Cons r rs)
  then obtain p1 l1 where "resend os i r (p, l) = Inr (p1, l1)"
    and "resend_batch os (i + 1) rs (p1, l1) = Inr (p', l')"
    by (auto simp: bind_res_eq_Inr)
  with Cons.IH show ?case by (blast intro: session_keeps_trans resend_keeps)
qed simp

lemma send_step_keeps:
  assumes "send_step os rd (p, l) = Inr (e, p', l')"
  shows "producer_keeps p p'"
proof -
  obtain go s where sh: "ShouldStop (sd_signal rd) (sd_now rd) (session p) = (go, s)" by fastforce
  then have s: "session_keeps (session p) s"
    using ShouldStop_state [of "sd_signal rd" "sd_now rd" "session p"] by simp
  show ?thesis
  proof (cases go)
    case False
    with assms s show ?thesis by (auto simp: send_step_def sh)
  next
    case True
    with assms obtain p1 rs where n: "lift_op (NotifyCompletionQueue os) (p\<lparr>session := s\<rparr>) = Inr p1"
      and b: "resend_batch os 0 rs (p1, l) = Inr (p', l')"
      by (auto simp: send_step_def sh bind_res_eq_Inr split: if_splits option.splits)
    from lift_op_keeps [OF n notify_keeps] have "session_keeps s (session p1)" by simp
    with s resend_batch_keeps [OF b] show ?thesis by (blast intro: session_keeps_trans)
  qed
qed

lemma send_loop_keeps: "send_loop os rds (p, l) = Inr (e, p', l') \<Longrightarrow> producer_keeps p p'"
proof (induction rds arbitrary: p l)
  case (Cons rd rds)
  then obtain d p1 l1 where step: "send_step os rd (p, l) = Inr (d, p1, l1)"
    and rest: "if d then (p1, l1) = (p', l') else send_loop os rds (p1, l1) = Inr (e, p', l')"
    by (auto simp: bind_res_eq_Inr split: if_splits)
  from send_step_keeps [OF step] rest Cons.IH [of p1 l1] show ?case
    by (cases d) (auto intro: session_keeps_trans)
qed simp

lemma producer_keeps_run:
  assumes "RioProducer_Start os t0 now rds th p = Inr (p', rep)"
  shows "producer_keeps p p'"
proof -
  let ?p = "p\<lparr>session := (session p)\<lparr>m_Timing := setStart t0 (m_Timing (session p))\<rparr>\<rparr>"
  from producer_started [OF assms] obtain sq p1 e p2 l tm
    where "PostFirstSend os now ?p = Inr (sq, p1)"
      and "send_loop os rds (p1, \<lparr>sequenceNumber = sq, groupCounter = 0\<rparr>) = Inr (e, p2, l)"
      and p': "p' = p2\<lparr>session := (session p2)\<lparr>m_Timing := tm\<rparr>\<rparr>" .
  then have "session_keeps (session ?p) (session p2)"
    by (blast intro: session_keeps_trans PostFirstSend_keeps send_loop_keeps)
  moreover have "session_keeps (session p2) (session p')" by (simp add: p')
  ultimately have "session_keeps (session ?p) (session p')" by (rule session_keeps_trans)
  then show ?thesis using session_keeps_trans [OF keeps_timing] by simp
qed

text \<open>
  C15: The producer gives back what it took. After construction with checked arguments, any
  run and \<open>CleanUpRIO\<close>, every socket, completion queue, buffer and buffer registration that
  was acquired has been released, each under the value it was acquired with; only the
  completion port stays open.
\<close>

theorem producer_releases_resources:
  assumes "RioProducer_new os args = Inr p" and "rate_ok args"
    and "RioProducer_Start os t0 now rds th p = Inr (p', rep)"
    and "CleanUpRIO os (session p') = Inr s"
  shows "\<exists>io. held os (calls s) = {#Port io#}"
proof -
  obtain io where "owns os io (session p)" using producer_built(11) [OF assms(1,2)] by blast
  then have "owns os io (session p')" by (rule owns_keeps) (rule producer_keeps_run [OF assms(3)])
  from owns_cleanup [OF this assms(4)] show ?thesis by blast
qed

section \<open>The end of the loop\<close>

lemma resend_inv:
  assumes inv: "sender_inv n R args addr p" and step: "resend os i r (p, l) = Inr (p', l')"
  shows "sender_inv n R args addr p'"
proof -
  have n: "0 < n" "unat (m_NumberOfMcGroups p) = n" using inv by (auto simp: sender_inv_def)
  from step n obtain D where send: "send_one os (SendContext r) (i mod n) (i mod n) (p\<lparr>data_mem := D\<rparr>) = Inr p'"
    by (auto simp: resend_def Let_def bind_res_eq_Inr split: if_splits)
  have "sender_inv n R args addr (p\<lparr>data_mem := D\<rparr>)"
    using inv by (simp add: sender_inv_def group_addr_def)
  from send_one_inv(1) [OF this send] n show ?thesis by simp
qed

lemma sender_inv_session:
  "sender_inv n R args addr p \<Longrightarrow>
     sender_inv n R args addr (p\<lparr>session := (session p)\<lparr>m_Timing := t, calls := cs\<rparr>\<rparr>)"
  by (simp add: sender_inv_def group_addr_def)

text \<open>A round in which the wait succeeds and the queue hands out sends of this producer.\<close>

definition round_ok :: "nat \<Rightarrow> send_round \<Rightarrow> bool" where
  "round_ok sends rd \<longleftrightarrow> sd_completed rd \<and> (\<exists>rs. sd_results rd = Some rs \<and> rs \<noteq> []
     \<and> (\<forall>r\<in>set rs. SendContext r < sends))"

context os_up
begin

lemma resend_batch_up:
  "sender_inv n R args addr p \<Longrightarrow> \<forall>r\<in>set rs. SendContext r < R * n \<Longrightarrow>
     \<exists>p' l'. resend_batch os i rs (p, l) = Inr (p', l') \<and> sender_inv n R args addr p'"
proof (induction rs arbitrary: i p l)
  case (Cons r rs)
  obtain p1 l1 where step: "resend os i r (p, l) = Inr (p1, l1)"
    using resend_up [OF Cons.prems(1)] Cons.prems(2) by force
  from Cons.IH [OF resend_inv [OF Cons.prems(1) step]] Cons.prems(2)
  show ?case by (simp add: step)
qed simp

lemma send_step_up:
  assumes inv: "sender_inv n R args addr p" and ok: "round_ok (R * n) rd"
  shows "\<exists>e p' l'. send_step os rd (p, l) = Inr (e, p', l') \<and> sender_inv n R args addr p'"
proof -
  let ?t = "setStop (sd_now rd) (m_Timing (session p))"
  let ?p = "p\<lparr>session := (session p)\<lparr>m_Timing := ?t\<rparr>\<rparr>"
  let ?q = "p\<lparr>session := (session p)\<lparr>m_Timing := ?t,
    calls := calls (session p) @ [RIONotify (m_CompletionQueue (session p))]\<rparr>\<rparr>"
  obtain go where sh: "ShouldStop (sd_signal rd) (sd_now rd) (session p) =
      (go, (session p)\<lparr>m_Timing := ?t\<rparr>)"
    using ShouldStop_state [of "sd_signal rd" "sd_now rd" "session p"] by (metis prod.collapse)
  obtain rs where rs: "sd_completed rd" "sd_results rd = Some rs" "rs \<noteq> []"
      "\<forall>r\<in>set rs. SendContext r < R * n"
    using ok by (auto simp: round_ok_def)
  have p: "sender_inv n R args addr ?p"
    using sender_inv_session [OF inv, where t = ?t and cs = "calls (session p)"] by simp
  have q: "sender_inv n R args addr ?q" using inv by (rule sender_inv_session)
  from resend_batch_up [OF q rs(4), of 0 l] obtain p' l'
    where b: "resend_batch os 0 rs (?q, l) = Inr (p', l')" "sender_inv n R args addr p'" by blast
  show ?thesis
  proof (cases go)
    case True
    then have "send_step os rd (p, l) = Inr (False, p', l')"
      using b(1) rs by (simp add: send_step_def sh lift_op_def notify_up)
    with b(2) show ?thesis by blast
  next
    case False
    then have "send_step os rd (p, l) = Inr (True, ?p, l)" by (simp add: send_step_def sh)
    with p show ?thesis by blast
  qed
qed

lemma send_loop_up:
  assumes "sender_inv n R args addr p" and "\<forall>rd\<in>set oks. round_ok (R * n) rd"
    and "sd_signal rd \<noteq> 0"
  shows "\<exists>p' l'. send_loop os (oks @ rd # rest) (p, l) = Inr (True, p', l')"
  using assms
proof (induction oks arbitrary: p l)
  case Nil
  then show ?case by (auto simp: send_step_def ShouldStop_def Let_def)
next
  case (Cons rd1 oks)
  obtain e p1 l1 where step: "send_step os rd1 (p, l) = Inr (e, p1, l1)"
    and inv: "sender_inv n R args addr p1"
    using send_step_up [OF Cons.prems(1)] Cons.prems(2) by force
  with Cons.IH [OF inv, of l1] Cons.prems(2,3) show ?case by (cases e) auto
qed

lemma producer_stops_up:
  assumes new: "RioProducer_new os args = Inr p" and ok: "rate_ok args"
    and rounds: "\<forall>rd\<in>set oks. round_ok (nat (PacketRate args) * length (McastAddrStr args)) rd"
    and sig: "sd_signal rd \<noteq> 0" and th: "(tsig, tnow) \<in> set th" "tsig \<noteq> 0"
  shows "\<exists>p' rep. RioProducer_Start os t0 now (oks @ rd # rest) th p = Inr (p', Some rep)"
proof -
  let ?p = "p\<lparr>session := (session p)\<lparr>m_Timing := setStart t0 (m_Timing (session p))\<rparr>\<rparr>"
  obtain sq p1 where post: "PostFirstSend os now ?p = Inr (sq, p1)"
    using post_first_send_up [OF new ok refl] by blast
  obtain p' l' where "send_loop os (oks @ rd # rest) (p1, \<lparr>sequenceNumber = sq, groupCounter = 0\<rparr>) =
      Inr (True, p', l')"
    using send_loop_up [OF post_first_send(1) [OF new ok refl post] rounds sig] by blast
  moreover obtain s2 where "JoinThread (make_thread th) (session p') = Inr (None, s2)"
    using join_on_signal [OF th] by blast
  ultimately show ?thesis
    using post by (simp add: RioProducer_Start_def Let_def del: split_paired_Ex)
qed

end

text \<open>
  The producer stops when it is told to. On a system where every call reports success, as
  long as each round hands out completions of its own sends, the first round that sees the
  exit signal ends the send loop, and \<open>Start\<close> returns with its final reports once the tuning
  thread has seen the signal too.
\<close>

theorem producer_stops_on_signal:
  assumes "\<And>c tr. succeeded c (sys os tr c)" and "RioProducer_new os args = Inr p"
    and "rate_ok args"
    and "\<forall>rd\<in>set oks. round_ok (nat (PacketRate args) * length (McastAddrStr args)) rd"
    and "sd_signal rd \<noteq> 0" and "(tsig, tnow) \<in> set th" and "tsig \<noteq> 0"
  shows "\<exists>p' rep. RioProducer_Start os t0 now (oks @ rd # rest) th p = Inr (p', Some rep)"
proof -
  from assms(1) have "os_up os" by unfold_locales
  from os_up.producer_stops_up [OF this assms(2-7)] show ?thesis .
qed

theorem producer_stops_on_signal_witness:
  "\<exists>p p' rep. RioProducer_new ref_os ref_producer_args = Inr p
    \<and> RioProducer_Start ref_os 0 (\<lambda>_. 0) ([pair_round] @ pair_round\<lparr>sd_signal := 1\<rparr> # []) [(1, 0)] p = Inr (p', Some rep)"
proof -
  obtain p where p: "RioProducer_new ref_os ref_producer_args = Inr p" using ref_producer by blast
  have "\<forall>rd\<in>set [pair_round]. round_ok (nat (PacketRate ref_producer_args)
      * length (McastAddrStr ref_producer_args)) rd"
    by (simp add: ref_producer_ok round_ok_def pair_round_def)
  from producer_stops_on_signal [OF refos.call_succeeds p ref_producer_ok(1) this] p
  show ?thesis by auto
qed

theorem producer_releases_resources_witness:
  "\<exists>p p' rep s io. RioProducer_new ref_os ref_producer_args = Inr p
    \<and> RioProducer_Start ref_os 0 (\<lambda>_. 0) ([] @ pair_round\<lparr>sd_signal := 1\<rparr> # []) [(1, 0)] p = Inr (p', Some rep)
    \<and> CleanUpRIO ref_os (session p') = Inr s \<and> held ref_os (calls s) = {#Port io#}"
proof -
  obtain p where p: "RioProducer_new ref_os ref_producer_args = Inr p" using ref_producer by blast
  have "\<exists>p' rep. RioProducer_Start ref_os 0 (\<lambda>_. 0) ([] @ pair_round\<lparr>sd_signal := 1\<rparr> # []) [(1, 0)] p
      = Inr (p', Some rep)"
    by (rule refos.producer_stops_up [OF p ref_producer_ok(1), where tsig = 1 and tnow = 0]) simp_all
  then obtain p' rep where run:
    "RioProducer_Start ref_os 0 (\<lambda>_. 0) ([] @ pair_round\<lparr>sd_signal := 1\<rparr> # []) [(1, 0)] p = Inr (p', Some rep)"
    by blast
  obtain s where c: "CleanUpRIO ref_os (session p') = Inr s" using refos.cleanup_up by blast
  from producer_releases_resources [OF p ref_producer_ok(1) run c] p run c show ?thesis by blast
qed

end
