(* ===== verification/App_Main.thy ===== *)
theory App_Main
  imports Adapters Consumer_Accounting Producer_Resources
begin

text \<open>
  The program entry (swxtch-perf-rio.cpp): the control handler, Winsock initialisation, and
  \<open>main\<close>, which composes the parser, the check, the interface lookup, and one run of a
  producer or a consumer. \<open>exit_status\<close> is what the operating system sees.
\<close>

section \<open>Signal, version, Winsock\<close>

definition CTRL_C_EVENT :: u32 where "CTRL_C_EVENT = 0"

text \<open>The handler gets the event and the signal variable; it returns whether it handled it.\<close>

definition HandlerRoutine :: "u32 \<Rightarrow> int \<Rightarrow> bool \<times> int" where
  "HandlerRoutine dwCtrlType g_Exit =
     (if dwCtrlType = CTRL_C_EVENT then (True, 1) else (False, g_Exit))"

definition quoted :: "string \<Rightarrow> string" where
  "quoted s = CHR 0x22 # s @ [CHR 0x22]"

definition version :: "string \<Rightarrow> string \<Rightarrow> string \<Rightarrow> string" where
  "version APP_VERSION GIT_COMMIT DATE =
     ''{'' @ quoted ''Version'' @ '':'' @ quoted APP_VERSION @ '','' @ quoted ''Commit'' @ '':''
     @ quoted GIT_COMMIT @ '','' @ quoted ''Date'' @ '':'' @ quoted DATE @ ''}''"

text \<open>The argument is what \<open>WSAStartup\<close> returns.\<close>

definition InitializeWSA :: "int \<Rightarrow> unit result" where
  "InitializeWSA startup =
     (if 0 \<noteq> startup then Inl (ErrorExit ''WSAStartup'')
      else if LARGE_PAGES_ENABLED then Inl (ErrorExit ''TODO - USE_LARGE_PAGES'')
      else Inr ())"

section \<open>main\<close>

text \<open>The surroundings of the program, and the inputs of one run.\<close>

record main_env =
  the_os :: os_env
  the_adapters :: adapter_env
  wsa_startup :: int

record main_run =
  command_line :: argparse_run
  start_now :: int
  recv_rounds :: "recv_round list"
  send_rounds :: "send_round list"
  send_clock :: "nat \<Rightarrow> u64"
  helper_passes :: "(int \<times> int) list"

text \<open>
  How \<open>main\<close> ends when nothing interrupts it: it returns a code, with the session as
  \<open>CleanUpRIO\<close> left it if there was one, or its loop is still running when the list of
  rounds ends.
\<close>

datatype main_end = Return int "RioSession option" | Running

definition run_producer :: "os_env \<Rightarrow> main_run \<Rightarrow> args_t \<Rightarrow> main_end result" where
  "run_producer os run args =
     bind_res (RioProducer_new os args) (\<lambda>p.
     bind_res (RioProducer_Start os (start_now run) (send_clock run) (send_rounds run) (helper_passes run) p)
       (\<lambda>(p, report). case report of
          None \<Rightarrow> Inr Running
        | Some _ \<Rightarrow> bind_res (CleanUpRIO os (session p)) (\<lambda>s. Inr (Return 0 (Some s)))))"

definition run_consumer :: "os_env \<Rightarrow> main_run \<Rightarrow> args_t \<Rightarrow> main_end result" where
  "run_consumer os run args =
     bind_res (RioConsumer_new os args) (\<lambda>s.
     bind_res (RioConsumer_Start os (start_now run) (recv_rounds run) (helper_passes run) s)
       (\<lambda>(s, report). case report of
          None \<Rightarrow> Inr Running
        | Some _ \<Rightarrow> bind_res (CleanUpRIO os s) (\<lambda>s. Inr (Return 0 (Some s)))))"

definition main :: "main_env \<Rightarrow> main_run \<Rightarrow> main_end result" where
  "main env run =
     bind_res (ParseArguments (net (the_os env)) (command_line run)) (\<lambda>args.
     bind_res (Check (net (the_os env)) (Some args)) (\<lambda>(ok, _).
       if \<not> ok then Inr (Return 1 None)
       else
         case fst (resolve_interface (the_adapters env) (IfIndex args) []) of
           Inl (Throw ex) \<Rightarrow> Inr (Return (-1) None)
         | Inl e \<Rightarrow> Inl e
         | Inr ip \<Rightarrow>
             (let args = args\<lparr>IfIndex := ip\<rparr>
              in bind_res (InitializeWSA (wsa_startup env)) (\<lambda>_.
                   if Command args = PRODUCER_COMMAND then run_producer (the_os env) run args
                   else run_consumer (the_os env) run args))))"

text \<open>
  The exit status: \<open>exit(n)\<close> gives \<open>n\<close>, the \<open>ErrorExit\<close> functions end in \<open>exit(0)\<close>; an
  uncaught exception, undefined behaviour and a run that goes on have none.
\<close>

fun exit_status :: "main_end result \<Rightarrow> int option" where
  "exit_status (Inr (Return n _)) = Some n"
| "exit_status (Inr Running) = None"
| "exit_status (Inl (Exit n)) = Some n"
| "exit_status (Inl (ErrorExit _)) = Some 0"
| "exit_status (Inl _) = None"

section \<open>Lemmas\<close>

lemma Check_rate_ok:
  assumes "Check ws (Some a) = Inr (True, msg)" and "McastAddrStr a \<noteq> []"
    and "- (2 ^ 31) \<le> PacketRate a \<and> PacketRate a < 2 ^ 31" and "length (McastAddrStr a) < 2 ^ 33"
  shows "rate_ok (a\<lparr>IfIndex := ip\<rparr>)"
proof -
  have r: "1 \<le> PacketRate a" "PacketRate a * int (length (McastAddrStr a)) \<le> 1000000"
    using Check_accepted(1) [OF assms(1,3,4)] by auto
  then have "int (nat (PacketRate a) * length (McastAddrStr a)) \<le> 1000000" by simp
  then have "nat (PacketRate a) * length (McastAddrStr a) \<le> 1000000" by linarith
  with r assms(2) show ?thesis by (simp add: rate_ok_def)
qed

text \<open>The part of \<open>main\<close> before the session.\<close>

lemma main_session:
  assumes "ParseArguments (net (the_os env)) (command_line run) = Inr args"
    and "Check (net (the_os env)) (Some args) = Inr (True, msg)"
    and "fst (resolve_interface (the_adapters env) (IfIndex args) []) = Inr ip"
    and "wsa_startup env = 0"
  shows "main env run =
    (if Command args = PRODUCER_COMMAND then run_producer (the_os env) run (args\<lparr>IfIndex := ip\<rparr>)
     else run_consumer (the_os env) run (args\<lparr>IfIndex := ip\<rparr>))"
  using assms by (simp add: main_def InitializeWSA_def LARGE_PAGES_ENABLED_def)

lemma run_consumer_up:
  assumes up: "os_up os" and a: "inet_pton4 (net os) (IfIndex args) = Some a"
    and g: "allocation_granularity os \<noteq> 0"
      "150000000 + unat (allocation_granularity os) \<le> 2 ^ 32"
    and ctx: "\<And>r. r \<in> set (round_results (recv_rounds run)) \<Longrightarrow> RequestContext r < 1500000"
    and sig: "rd \<in> set (recv_rounds run)" "rd_signal rd \<noteq> 0"
      "(tsig, tnow) \<in> set (helper_passes run)" "tsig \<noteq> 0"
  shows "\<exists>s io. run_consumer os run args = Inr (Return 0 (Some s)) \<and> held os (calls s) = {#Port io#}"
proof -
  obtain s where s: "RioConsumer_new os args = Inr s"
    using os_up.consumer_new_up [OF up a g] by blast
  obtain s' rep where run: "RioConsumer_Start os (start_now run) (recv_rounds run) (helper_passes run) s = Inr (s', Some rep)"
    using os_up.consumer_stops_up [OF up s ctx sig] by blast
  obtain s'' where c: "CleanUpRIO os s' = Inr s''" using os_up.cleanup_up [OF up] by blast
  obtain io where "owns os io s" using consumer_held [OF s] by blast
  then have "owns os io s'" by (rule owns_keeps) (rule consumer_keeps [OF s run])
  from owns_cleanup [OF this c] show ?thesis by (simp add: run_consumer_def s run c)
qed

lemma run_producer_up:
  assumes up: "os_up os" and a: "inet_pton4 (net os) (IfIndex args) = Some a"
    and ok: "rate_ok args" and g: "allocation_granularity os \<noteq> 0"
      "100000000 + unat (allocation_granularity os) \<le> 2 ^ 32"
    and groups: "\<And>a. a \<in> set (McastAddrStr args) \<Longrightarrow>
      inet_pton4 (net os) (Ipv4_str (net os) a) \<noteq> None"
    and th: "(tsig, tnow) \<in> set (helper_passes run)" "tsig \<noteq> 0"
    and rounds: "send_rounds run = oks @ rd # rest" "sd_signal rd \<noteq> 0"
      "\<forall>rd\<in>set oks. round_ok (nat (PacketRate args) * length (McastAddrStr args)) rd"
  shows "\<exists>s io. run_producer os run args = Inr (Return 0 (Some s)) \<and> held os (calls s) = {#Port io#}"
proof -
  obtain p where p: "RioProducer_new os args = Inr p"
    using os_up.producer_new_up [OF up a ok g groups] by blast
  obtain p' rep where run: "RioProducer_Start os (start_now run) (send_clock run) (send_rounds run)
      (helper_passes run) p = Inr (p', Some rep)"
    unfolding rounds(1) using os_up.producer_stops_up [OF up p ok rounds(3,2) th] by blast
  obtain s where c: "CleanUpRIO os (session p') = Inr s" using os_up.cleanup_up [OF up] by blast
  obtain io where "owns os io (session p)" using producer_built(11) [OF p ok] by blast
  then have "owns os io (session p')" by (rule owns_keeps) (rule producer_keeps_run [OF run])
  from owns_cleanup [OF this c] show ?thesis by (simp add: run_producer_def p run c)
qed

text \<open>The calls of a run that fail, by the phase of the session they are made in.\<close>

definition producer_fails :: "os_env \<Rightarrow> main_run \<Rightarrow> args_t \<Rightarrow> string \<Rightarrow> bool" where
  "producer_fails os run args f \<longleftrightarrow> RioProducer_new os args = Inl (ErrorExit f)
     \<or> (\<exists>p. RioProducer_new os args = Inr p
        \<and> (RioProducer_Start os (start_now run) (send_clock run) (send_rounds run)
             (helper_passes run) p = Inl (ErrorExit f)
           \<or> (\<exists>p' report. RioProducer_Start os (start_now run) (send_clock run) (send_rounds run)
                (helper_passes run) p = Inr (p', Some report)
              \<and> CleanUpRIO os (session p') = Inl (ErrorExit f))))"

definition consumer_fails :: "os_env \<Rightarrow> main_run \<Rightarrow> args_t \<Rightarrow> string \<Rightarrow> bool" where
  "consumer_fails os run args f \<longleftrightarrow> RioConsumer_new os args = Inl (ErrorExit f)
     \<or> (\<exists>s. RioConsumer_new os args = Inr s
        \<and> (RioConsumer_Start os (start_now run) (recv_rounds run) (helper_passes run) s = Inl (ErrorExit f)
           \<or> (\<exists>s' report. RioConsumer_Start os (start_now run) (recv_rounds run)
                (helper_passes run) s = Inr (s', Some report)
              \<and> CleanUpRIO os s' = Inl (ErrorExit f))))"

lemma producer_fails_run: "producer_fails os run args f \<Longrightarrow> run_producer os run args = Inl (ErrorExit f)"
  by (auto simp: producer_fails_def run_producer_def)

lemma consumer_fails_run: "consumer_fails os run args f \<Longrightarrow> run_consumer os run args = Inl (ErrorExit f)"
  by (auto simp: consumer_fails_def run_consumer_def)

section \<open>Properties\<close>

text \<open>
  C10: A whole run of the consumer, from the command line to the exit status. With accepted
  options, an interface that resolves to an address, and a system on which every call
  succeeds, pressing Ctrl-C (the signal as the handler sets it) at some round makes \<open>main\<close>
  return 0 with every resource of the session released but the completion port, as soon as
  the report thread makes a pass and sees the signal too.
\<close>

theorem main_consumer_completes:
  assumes "ParseArguments (net (the_os env)) (command_line run) = Inr args"
    and "Check (net (the_os env)) (Some args) = Inr (True, msg)"
    and "fst (resolve_interface (the_adapters env) (IfIndex args) []) = Inr ip"
    and "wsa_startup env = 0" and "Command args = CONSUMER_COMMAND"
    and "\<And>c tr. succeeded c (sys (the_os env) tr c)"
    and "inet_pton4 (net (the_os env)) ip = Some a"
    and "allocation_granularity (the_os env) \<noteq> 0"
    and "150000000 + unat (allocation_granularity (the_os env)) \<le> 2 ^ 32"
    and "\<And>r. r \<in> set (round_results (recv_rounds run)) \<Longrightarrow> RequestContext r < 1500000"
    and "rd \<in> set (recv_rounds run)" and "rd_signal rd = snd (HandlerRoutine CTRL_C_EVENT 0)"
    and "(rd_signal rd, tnow) \<in> set (helper_passes run)"
  shows "\<exists>s io. main env run = Inr (Return 0 (Some s))
    \<and> held (the_os env) (calls s) = {#Port io#}"
proof -
  from assms(6) have up: "os_up (the_os env)" by unfold_locales
  have "rd_signal rd \<noteq> 0" using assms(12) by (simp add: HandlerRoutine_def)
  then have "\<exists>s io. run_consumer (the_os env) run (args\<lparr>IfIndex := ip\<rparr>) = Inr (Return 0 (Some s))
      \<and> held (the_os env) (calls s) = {#Port io#}"
    using assms(7-11,13) by (intro run_consumer_up [OF up]) simp_all
  then show ?thesis
    using main_session [OF assms(1-4)] assms(5)
    by (simp add: CONSUMER_COMMAND_def PRODUCER_COMMAND_def)
qed

text \<open>
  C11: A whole run of the producer, likewise: with accepted options and rounds that hand out
  its own completions, the first round that sees the signal set by Ctrl-C makes \<open>main\<close>
  return 0 with everything released but the completion port, as soon as the tuning thread
  makes a pass and sees the signal too.
\<close>

theorem main_producer_completes:
  assumes "ParseArguments (net (the_os env)) (command_line run) = Inr args"
    and "Check (net (the_os env)) (Some args) = Inr (True, msg)"
    and "fst (resolve_interface (the_adapters env) (IfIndex args) []) = Inr ip"
    and "wsa_startup env = 0" and "Command args = PRODUCER_COMMAND"
    and "\<And>c tr. succeeded c (sys (the_os env) tr c)"
    and "inet_pton4 (net (the_os env)) ip = Some a"
    and "allocation_granularity (the_os env) \<noteq> 0"
    and "100000000 + unat (allocation_granularity (the_os env)) \<le> 2 ^ 32"
    and "\<And>a. a \<in> set (McastAddrStr args) \<Longrightarrow>
      inet_pton4 (net (the_os env)) (Ipv4_str (net (the_os env)) a) \<noteq> None"
    and "McastAddrStr args \<noteq> []" and "length (McastAddrStr args) < 2 ^ 33"
    and "- (2 ^ 31) \<le> PacketRate args \<and> PacketRate args < 2 ^ 31"
    and "send_rounds run = oks @ rd # rest"
    and "\<forall>rd\<in>set oks. round_ok (nat (PacketRate args) * length (McastAddrStr args)) rd"
    and "sd_signal rd = snd (HandlerRoutine CTRL_C_EVENT 0)"
    and "(sd_signal rd, tnow) \<in> set (helper_passes run)"
  shows "\<exists>s io. main env run = Inr (Return 0 (Some s))
    \<and> held (the_os env) (calls s) = {#Port io#}"
proof -
  from assms(6) have up: "os_up (the_os env)" by unfold_locales
  have sig: "sd_signal rd \<noteq> 0" using assms(16) by (simp add: HandlerRoutine_def)
  have ok: "rate_ok (args\<lparr>IfIndex := ip\<rparr>)" by (rule Check_rate_ok [OF assms(2,11,13,12)])
  have "\<exists>s io. run_producer (the_os env) run (args\<lparr>IfIndex := ip\<rparr>) = Inr (Return 0 (Some s))
      \<and> held (the_os env) (calls s) = {#Port io#}"
    by (rule run_producer_up [OF up _ ok assms(8,9) _ assms(17) sig assms(14) sig])
       (use assms(7,10,15) in simp_all)
  then show ?thesis
    using main_session [OF assms(1-4)] assms(5) by simp
qed

text \<open>
  C36: The exit status of a run whose command line parses. A rejected configuration ends \<open>main\<close> with 1 and an interface that cannot
  be found with -1, both before any session exists. But every failure that goes through
  \<open>ErrorExit\<close> ends the program with 0, the status of success: Winsock does not start, or a call
  fails in the constructor, in \<open>Start\<close> or in \<open>CleanUpRIO\<close>, for the producer and the consumer.
\<close>

theorem main_exit_status:
  assumes parsed: "ParseArguments (net (the_os env)) (command_line run) = Inr args"
  shows "(\<forall>msg. Check (net (the_os env)) (Some args) = Inr (False, msg) \<longrightarrow>
      main env run = Inr (Return 1 None) \<and> exit_status (main env run) = Some 1)
    \<and> (\<forall>msg ex. Check (net (the_os env)) (Some args) = Inr (True, msg)
      \<and> fst (resolve_interface (the_adapters env) (IfIndex args) []) = Inl (Throw ex) \<longrightarrow>
        main env run = Inr (Return (-1) None) \<and> exit_status (main env run) = Some (-1))
    \<and> (\<forall>msg ip f. Check (net (the_os env)) (Some args) = Inr (True, msg)
      \<and> fst (resolve_interface (the_adapters env) (IfIndex args) []) = Inr ip
      \<and> (wsa_startup env \<noteq> 0 \<and> f = ''WSAStartup''
         \<or> wsa_startup env = 0 \<and> Command args = PRODUCER_COMMAND
           \<and> producer_fails (the_os env) run (args\<lparr>IfIndex := ip\<rparr>) f
         \<or> wsa_startup env = 0 \<and> Command args = CONSUMER_COMMAND
           \<and> consumer_fails (the_os env) run (args\<lparr>IfIndex := ip\<rparr>) f) \<longrightarrow>
        main env run = Inl (ErrorExit f) \<and> exit_status (main env run) = Some 0)"
  using parsed
  by (auto simp: main_def InitializeWSA_def LARGE_PAGES_ENABLED_def producer_fails_run
      consumer_fails_run CONSUMER_COMMAND_def PRODUCER_COMMAND_def)

text \<open>
  Ctrl-C is the only event the handler takes, and it is enough: afterwards no pass of
  either loop continues, whatever the limits say; any other event leaves the signal alone.
\<close>

theorem ctrl_c_stops:
  "(\<exists>g. HandlerRoutine CTRL_C_EVENT signal = (True, g) \<and> \<not> fst (ShouldStop g now s))
   \<and> (\<forall>e. e \<noteq> CTRL_C_EVENT \<longrightarrow> HandlerRoutine e signal = (False, signal))"
  by (simp add: HandlerRoutine_def ShouldStop_def Let_def)

section \<open>Concrete runs\<close>

definition ref_env :: main_env where
  "ref_env = \<lparr>the_os = ref_os, the_adapters = ref_adapter_env, wsa_startup = 0\<rparr>"

definition ref_command :: "string \<Rightarrow> argparse_run" where
  "ref_command cmd = \<lparr>option_uses = [(mcast_port, ''10000'')], parse_error = None, command_arg = cmd\<rparr>"

definition ref_run_of :: "string \<Rightarrow> main_run" where
  "ref_run_of cmd = \<lparr>command_line = ref_command cmd, start_now = 0,
     recv_rounds = [full_round, quiet_round\<lparr>rd_signal := 1\<rparr>],
     send_rounds = [] @ pair_round\<lparr>sd_signal := 1\<rparr> # [], send_clock = (\<lambda>_. 0),
     helper_passes = [(1, 0)]\<rparr>"

definition ref_main_args :: "string \<Rightarrow> args_t" where
  "ref_main_args cmd = \<lparr>Command = cmd, McastAddrStr = [Ipv4Addr (bswap32 0xEF054502)],
     McastPort = 10000, IfIndex = ''Ethernet'', PktsToCount = 20000000, PacketRate = 1,
     SecondsToRun = 0\<rparr>"

lemma ref_parse:
  assumes "c_str cmd = cmd"
  shows "ParseArguments (net (the_os ref_env)) (command_line (ref_run_of cmd)) = Inr (ref_main_args cmd)"
proof -
  have "int_action ''10000'' = Inr 10000" by code_simp
  then have "option_action (mcast_port, ''10000'') opts_default = Inr (opts_default\<lparr>opt_mcast_port := 10000\<rparr>)"
    by simp
  then show ?thesis
    using ref_args_of_opts [of cmd 10000] assms
    by (simp add: ParseArguments_def ref_env_def ref_run_of_def ref_command_def ref_main_args_def)
qed

lemma ref_check:
  assumes "cmd = PRODUCER_COMMAND \<or> cmd = CONSUMER_COMMAND"
  shows "Check (net (the_os ref_env)) (Some (ref_main_args cmd)) = Inr (True, None)"
proof -
  have "isValidMulticastIp ref_winsock [Ipv4Addr (bswap32 0xEF054502)] = Inr True"
    using refws.valid_iff [of "[Ipv4Addr (bswap32 0xEF054502)]"] by (simp add: multicast_host_def)
  with assms show ?thesis
    by (auto simp: Check_def ref_env_def ref_main_args_def word_less_nat_alt)
qed

lemma ref_resolve:
  "fst (resolve_interface (the_adapters ref_env) (IfIndex (ref_main_args cmd)) []) = Inr ''10.0.0.7''"
proof -
  have ascii: "\<forall>c\<in>set ''Ethernet''. (of_char c :: nat) < 128" by simp
  have l: "locate_in ref_adapter_env ''Ethernet'' ref_adapters = Inr 7"
    using locate_in_find [OF nicIsNumber_ascii [OF ascii] ref_names_convert] by (simp add: ref_named ref_lan_def)
  from refad.resolve_found [OF l, of "[]"] show ?thesis
    by (auto simp: ref_env_def ref_main_args_def ref_infos_def)
qed

lemma ref_address: "\<exists>a. inet_pton4 (net (the_os ref_env)) ''10.0.0.7'' = Some a"
proof -
  have "dotted 0x0A000007 = ''10.0.0.7''" by (simp add: dotted_def octet_def dec_eval)
  then show ?thesis using refws.pton_dotted [of "0x0A000007"] by (simp add: ref_env_def)
qed

lemma ref_env_os [simp]: "the_os ref_env = ref_os" "wsa_startup ref_env = 0"
  by (simp_all add: ref_env_def)

theorem main_consumer_completes_witness:
  "\<exists>s io. main ref_env (ref_run_of CONSUMER_COMMAND) = Inr (Return 0 (Some s))
    \<and> held ref_os (calls s) = {#Port io#}"
proof -
  obtain a where a: "inet_pton4 (net (the_os ref_env)) ''10.0.0.7'' = Some a" using ref_address by blast
  have cmd: "c_str CONSUMER_COMMAND = CONSUMER_COMMAND" by code_simp
  have "\<exists>s io. main ref_env (ref_run_of CONSUMER_COMMAND) = Inr (Return 0 (Some s))
    \<and> held (the_os ref_env) (calls s) = {#Port io#}"
    by (rule main_consumer_completes [OF ref_parse [OF cmd] ref_check ref_resolve _ _ _ a, where
          rd = "quiet_round\<lparr>rd_signal := 1\<rparr>"])
       (simp_all add: refos.call_succeeds [simplified] ref_main_args_def ref_run_of_def HandlerRoutine_def
          round_results_def full_round_def quiet_round_def full_result_def)
  then show ?thesis by simp
qed

theorem main_producer_completes_witness:
  "\<exists>s io. main ref_env (ref_run_of PRODUCER_COMMAND) = Inr (Return 0 (Some s))
    \<and> held ref_os (calls s) = {#Port io#}"
proof -
  obtain a where a: "inet_pton4 (net (the_os ref_env)) ''10.0.0.7'' = Some a" using ref_address by blast
  have cmd: "c_str PRODUCER_COMMAND = PRODUCER_COMMAND" by code_simp
  have rounds: "send_rounds (ref_run_of PRODUCER_COMMAND) = [] @ pair_round\<lparr>sd_signal := 1\<rparr> # []"
    by (simp add: ref_run_of_def)
  have "\<exists>s io. main ref_env (ref_run_of PRODUCER_COMMAND) = Inr (Return 0 (Some s))
    \<and> held (the_os ref_env) (calls s) = {#Port io#}"
    by (rule main_producer_completes [OF ref_parse [OF cmd] ref_check ref_resolve _ _ _ a _ _ _ _ _ _ rounds, where tnow = 0])
       (simp_all add: refos.call_succeeds [simplified] ref_main_args_def ref_run_of_def HandlerRoutine_def ref_pton [simplified])
  then show ?thesis by simp
qed

theorem main_exit_status_witness:
  "exit_status (main (ref_env\<lparr>wsa_startup := 10091\<rparr>) (ref_run_of CONSUMER_COMMAND)) = Some 0"
proof -
  have cmd: "c_str CONSUMER_COMMAND = CONSUMER_COMMAND" by code_simp
  let ?env = "ref_env\<lparr>wsa_startup := 10091\<rparr>"
  have "ParseArguments (net (the_os ?env)) (command_line (ref_run_of CONSUMER_COMMAND)) =
      Inr (ref_main_args CONSUMER_COMMAND)" using ref_parse [OF cmd] by simp
  from main_exit_status [OF this] ref_check [of CONSUMER_COMMAND] ref_resolve [of CONSUMER_COMMAND]
  show ?thesis by simp
qed

end
