(* ===== verification/Spec2Isabelle.thy ===== *)
theory Spec2Isabelle
  imports Report_Worker Report_Format Report_Run Report_Race Console_Text Worker_Threads
    Timing_Race Helper_Bodies Consumer_Reports Name_Encoding Wire_Memory Safe_Cstr Text_Format
    End_To_End Pause_Tuning Send_Rate Error_Exit App_Main
begin

text \<open>
  Verification of swxtch-perf-rio, the multicast throughput tool for Windows Registered I/O
  (src/swxtch-perf-rio). One process is a producer, which sends numbered messages to a list of
  multicast groups at a given rate, or a consumer, which receives them, counts packets, losses
  and reordering for each group, and prints a line every four seconds and final tables.

  The theories and the code they model:

  \<^item> \<open>Prelude\<close>, \<open>Cpp_Std\<close>: the widths of the integers, how an operation can end (\<open>abort\<close>: an
    exception, \<open>exit\<close>, \<open>ErrorExit\<close>, undefined behaviour, a loop that does not end), and what
    the code uses of the C++ standard library (\<open>to_string\<close>, \<open>stoi\<close>, \<open>find\<close>, \<open>std::map\<close>). The
    locale \<open>ordered_map\<close> is the contract of the map; it is interpreted on the list model.
  \<^item> \<open>Group_Stats\<close> (RioSession.hpp, both \<open>GroupStatsUpdate\<close>, \<open>GetMcTotals\<close>, the final tables):
    the records of the groups; the locale \<open>session_stats\<close> holds what both classes share.
    \<open>Loss_Accounting\<close>: the meaning of the consumer's counters against the set of sequence
    numbers that did not arrive.
  \<^item> \<open>Report_Worker\<close> (RioConsumer.cpp, the report thread), \<open>Report_Race\<close> (its loads interleaved
    with the writes of the main thread, a step relation with its invariant). \<open>Worker_Threads\<close>:
    the loop of a helper thread and \<open>JoinThread\<close>; \<open>Helper_Bodies\<close>: the loops with their
    bodies. \<open>Timing_Race\<close>: the accesses of both threads to the timing of the session, one by
    one: when the time limit holds all the same, that the helper thread ends after the main
    loop, and the schedule that ends the reports too early.
  \<^item> \<open>Report_Format\<close>: the rates and the text of the printed lines, with \<open>FormatValueToSI\<close> and
    \<open>Percent\<close>. \<open>Report_Run\<close>: receiver and report thread in one order of events, a refinement
    of a report on natural numbers; \<open>Consumer_Reports\<close>: the rows and the final table of one run
    of the consumer. \<open>Console_Text\<close>: the configuration and the final tables as text, and how
    they are read back.
  \<^item> \<open>Float64\<close>: the \<open>double\<close> numbers behind the report period, the rates and the first pause,
    as rationals with a significand of 53 bits; \<open>near k a x\<close> counts the roundings between an
    exact number and the computed one.
  \<^item> \<open>Str_Utils\<close>, \<open>Text_Format\<close>, \<open>Safe_Cstr\<close> (StringUtils.hpp, StringUtils.cpp): splitting,
    trimming and joining; \<open>CommaSeparated\<close> and \<open>Duration\<close>; the bounded C string functions on a
    byte memory in which an access outside every object is undefined behaviour.
  \<^item> \<open>Ipv4_Addr\<close> (NetworkUtils.hpp), \<open>Ip_Range\<close> (Range.hpp), \<open>Args\<close> (args.hpp, args.cpp). The
    Winsock conversions are the record \<open>winsock\<close>; the locale \<open>winsock_doc\<close> states what their
    documentation says, and \<open>ref_winsock\<close> satisfies it. The argparse library is the parameter
    \<open>argparse_run\<close>: the options it met and whether it failed.
  \<^item> \<open>Rio_Session\<close> (RioSession.hpp, RioSession.cpp, rounding of Utilities.hpp): the base class.
    The operating system is the argument \<open>os_env\<close>: \<open>sys os trace call\<close> is what a call returns
    after the calls of \<open>trace\<close>. A session records its calls, so that what was allocated,
    posted and released can be read off the trace (\<open>held\<close>, \<open>owns\<close>). The locale \<open>os_up\<close> is a
    system on which every call reports success; \<open>ref_os\<close> is its instance.
  \<^item> \<open>Rio_Consumer\<close>, \<open>Consumer_Accounting\<close> (RioConsumer.cpp): construction, posting, the receive
    loop over rounds of completions; then the properties of whole runs, proved over the
    relation \<open>recv_path\<close> of the results processed.
  \<^item> \<open>Rio_Producer\<close>, \<open>Producer_Sequences\<close>, \<open>Producer_Runs\<close>, \<open>Producer_Resources\<close>
    (RioProducer.cpp): construction, the first sends and the send loop; the schedule they are
    meant to follow; runs on a system that is up; what is released. \<open>Pause_Tuning\<close>: the thread
    that tunes the pause, and the pause itself (\<open>utilities::spin\<close>). \<open>Send_Rate\<close>: the timed
    trace of sends and pauses, and the rate they keep.
  \<^item> \<open>Header_Layout\<close> (RioSession.hpp): the packed header in the payload. \<open>Wire_Memory\<close>
    (RioProducer.cpp): the buffer of the producer as bytes, with the stores of the code beside
    the run of the model: the payloads handed to the system are the headers the model sends.
  \<^item> \<open>Adapters\<close> (Utilities.hpp): the lookup of the network interface with its allocations and
    error paths, and the texts of system errors. The locale \<open>ip_helper\<close> is the documented
    behaviour of the queries; \<open>ref_adapter_env\<close> is its instance. The conversion of wide names
    (\<open>std::wstring_convert\<close>) is an argument as well; \<open>Name_Encoding\<close> states what is relied on (the
    locale \<open>utf16_conversion\<close>: well-formed UTF-16 becomes the same text in UTF-8), and shows
    the lookup by name. \<open>Error_Exit\<close>: what the program
    prints when a call fails, and how it ends.
  \<^item> \<open>End_To_End\<close>: a producer and a consumer joined by a network that loses nothing.
  \<^item> \<open>App_Main\<close> (swxtch-perf-rio.cpp): \<open>main\<close> from the command line to the exit status.

  How state corresponds: the record \<open>RioSession\<close> has the members of the class under their
  names, with the trace of system calls in place of the function table; pointers into
  descriptor arrays are indices; \<open>RioProducer\<close> holds its base object, the contents of its two
  buffers and the log of what was sent. Operations take the state and return it, or the way
  the program ends.

  Loops and bounds: the receive and send loops run over a list of rounds, the inputs of one
  pass of the loop each; a run whose list ends early is a program that is still running. Loops
  over arrays are structural recursions on the number of remaining passes. No fuel is used:
  \<open>split\<close> on a string, the iteration of a range and \<open>GetLastErrorMessage\<close> are partial functions,
  because they need not return, and the theorems say when they do. Where the code computes in
  64 bits but no bound can be reached, the theories say so and use numbers.

  Not modelled, and why:

  \<^item> the six digits \<open>std::cout\<close> shows of a rate, the help text of argparse and the messages that
    only name an event: they do not feed back into the program. Infinities, NaN and subnormal
    numbers, which no computation of the program reaches.
  \<^item> the memory model of C++: its data races are undefined behaviour. The accesses to the timing
    are modelled as the machine executes them (single loads and stores in program order); the
    insertion of an unexpected group into the map while the report thread iterates over it is
    left out (\<open>update_keeps_groups_iff\<close> says when it happens). The full runs (\<open>RioConsumer_Start\<close>, \<open>RioProducer_Start\<close>) take the clock readings
    of the main thread, and of the helper thread those from the end of the main loop on; a
    helper thread that has ended before the main loop does is not represented in them.
  \<^item> the precompiled and target headers (no behaviour), and the third-party code: argparse, the
    Windows API and the IP helper API, which are parameters.
\<close>

end
